(* ===== verification/Prelude.thy ===== *)
theory Prelude
  imports
    "HOL-Library.Word"
    "HOL-Library.Sublist"
    "HOL-Library.Multiset"
    "HOL-Library.Product_Lexorder"
begin

text \<open>
  Shared vocabulary of the development: the machine integers of the Rust sources as words,
  the saturating operations the sources call, the stores that stand for shared heap objects,
  and the generic facts on stable sorting, rotation, swaps and folds that several components use.

  Arithmetic follows the release profile of the workspace (\<^verbatim>\<open>Cargo.toml\<close> sets no
  \<^verbatim>\<open>overflow-checks\<close>), so \<open>+\<close> and \<open>*\<close> wrap around; \<^verbatim>\<open>usize\<close> is 64 bits wide.
\<close>

unbundle bit_operations_syntax

type_synonym u8 = "8 word"
type_synonym u16 = "16 word"
type_synonym u32 = "32 word"
type_synonym u64 = "64 word"
type_synonym bytes = "u8 list"

named_theorems rust_simps \<open>unfolding rules for the standard-library operations of the model\<close>

definition u64_max :: u64 where
  "u64_max = - 1"

definition sat_add :: "'a::len word \<Rightarrow> 'a word \<Rightarrow> 'a word" where
  "sat_add a b = (if a + b < a then - 1 else a + b)"

definition sat_sub :: "'a::len word \<Rightarrow> 'a word \<Rightarrow> 'a word" where
  "sat_sub a b = (if a < b then 0 else a - b)"

lemma sat_sub_0 [simp]: "sat_sub a 0 = a"
  by (simp add: sat_sub_def)

lemma sat_add_0 [simp]: "sat_add a 0 = a"
  by (simp add: sat_add_def)

lemma sat_add_ge: "a \<le> sat_add a b"
  by (auto simp: sat_add_def)

lemma no_overflow_iff:
  fixes a b :: "'a::len word"
  shows "\<not> a + b < a \<longleftrightarrow> unat a + unat b < 2 ^ LENGTH('a)"
proof -
  have "\<not> a + b < a \<longleftrightarrow> a \<le> a + b" by auto
  also have "\<dots> \<longleftrightarrow> unat a + unat b < 2 ^ LENGTH('a)"
    by (simp add: no_olen_add_nat)
  finally show ?thesis .
qed

lemma unat_sat_add:
  fixes a b :: "'a::len word"
  shows "unat (sat_add a b) = min (unat a + unat b) (2 ^ LENGTH('a) - 1)"
proof (cases "a + b < a")
  case True
  then have "2 ^ LENGTH('a) \<le> unat a + unat b"
    using no_overflow_iff [of a b] by linarith
  then show ?thesis using True by (simp add: sat_add_def unsigned_minus_1_eq_mask mask_eq_exp_minus_1)
next
  case False
  then have "unat a + unat b < 2 ^ LENGTH('a)"
    using no_overflow_iff [of a b] by linarith
  then show ?thesis using False
    by (simp add: sat_add_def unat_word_ariths)
qed

lemma unat_sat_sub: "unat (sat_sub a b) = unat a - unat b"
  by (auto simp: sat_sub_def unat_sub word_less_nat_alt not_less word_le_nat_alt)

text \<open>Stable sorting: Rust's \<^verbatim>\<open>sort_by_key\<close> is HOL's \<open>sort_key\<close>.\<close>

lemma sort_key_filter_eq:
  "filter (\<lambda>y. f y = k) (sort_key f xs) = filter (\<lambda>y. f y = k) xs"
  by (rule sort_key_stable)

lemma sorted_sort_key_map: "sorted (map f (sort_key f xs))"
  by (rule sorted_sort_key)

lemma sort_key_nonempty [simp]: "sort_key f xs = [] \<longleftrightarrow> xs = []"
  by (metis length_0_conv length_sort)

lemma mset_take_subset: "mset (take n xs) \<subseteq># mset xs"
  by (metis append_take_drop_id mset_append mset_subset_eq_add_left)

lemma set_take_mset_eq:
  assumes "mset ys = mset xs" and "x \<in> set (take n ys)"
  shows "x \<in> set xs"
  using assms by (metis in_set_takeD set_mset_mset)

text \<open>Swapping two elements of a list (\<^verbatim>\<open>slice::swap\<close>).\<close>

definition swap :: "nat \<Rightarrow> nat \<Rightarrow> 'a list \<Rightarrow> 'a list" where
  "swap i j xs = xs[i := xs ! j, j := xs ! i]"

lemma mset_list_swap:
  "i < length xs \<Longrightarrow> j < length xs \<Longrightarrow> mset (swap i j xs) = mset xs"
  unfolding swap_def by (rule mset_swap)

lemma length_swap [simp]: "length (swap i j xs) = length xs"
  by (simp add: swap_def)

lemma mset_rotate [simp]: "mset (rotate n xs) = mset xs"
  by (metis append_take_drop_id mset_append rotate_drop_take union_commute)

text \<open>Two stable sorts in a row sort lexicographically, the later key first.\<close>

lemma sorted_wrt_groups:
  assumes "sorted (map f ys)" and "\<And>k. sorted_wrt P (filter (\<lambda>x. f x = k) ys)"
  shows "sorted_wrt (\<lambda>x y. f x < f y \<or> f x = f y \<and> P x y) ys"
  using assms
proof (induction ys)
  case (Cons x ys)
  have "sorted_wrt P (filter (\<lambda>y. f y = k) ys)" for k
    using Cons.prems(2) [of k] by (auto split: if_splits)
  with Cons have "sorted_wrt (\<lambda>x y. f x < f y \<or> f x = f y \<and> P x y) ys" by simp
  moreover have "f x < f y \<or> f x = f y \<and> P x y" if "y \<in> set ys" for y
    using that Cons.prems(1) Cons.prems(2) [of "f x"] by (auto simp: le_less)
  ultimately show ?case by simp
qed simp

lemma sort_key_sort_key:
  fixes f :: "'a \<Rightarrow> 'b::linorder" and g :: "'a \<Rightarrow> 'c::linorder"
  shows "sort_key f (sort_key g xs) = sort_key (\<lambda>x. (f x, g x)) xs"
proof (rule sym, rule properties_for_sort_key)
  let ?ys = "sort_key f (sort_key g xs)"
  show "mset ?ys = mset xs" by simp
  show "filter (\<lambda>x. (f k, g k) = (f x, g x)) ?ys = filter (\<lambda>x. (f k, g k) = (f x, g x)) xs" for k
  proof -
    have fg: "filter (\<lambda>x. (f k, g k) = (f x, g x)) zs
        = filter (\<lambda>x. g x = g k) (filter (\<lambda>x. f x = f k) zs)" for zs
      unfolding filter_filter by (rule filter_cong) auto
    have gf: "filter (\<lambda>x. (f k, g k) = (f x, g x)) zs
        = filter (\<lambda>x. f x = f k) (filter (\<lambda>x. g x = g k) zs)" for zs
      unfolding filter_filter by (rule filter_cong) auto
    have "filter (\<lambda>x. (f k, g k) = (f x, g x)) ?ys = filter (\<lambda>x. (f k, g k) = (f x, g x)) (sort_key g xs)"
      by (simp only: fg sort_key_filter_eq)
    also have "\<dots> = filter (\<lambda>x. (f k, g k) = (f x, g x)) xs"
      by (simp only: gf sort_key_filter_eq)
    finally show ?thesis .
  qed
  have "sorted_wrt (\<lambda>x y. g x \<le> g y) (filter (\<lambda>x. f x = k) ?ys)" for k
  proof -
    have "sorted_wrt (\<lambda>x y. g x \<le> g y) (sort_key g xs)"
      using sorted_sort_key [of g xs] by (simp add: sorted_map)
    then show ?thesis
      by (simp only: sort_key_filter_eq sorted_wrt_filter)
  qed
  then have "sorted_wrt (\<lambda>x y. f x < f y \<or> f x = f y \<and> g x \<le> g y) ?ys"
    by (intro sorted_wrt_groups) auto
  then show "sorted (map (\<lambda>x. (f x, g x)) ?ys)"
    by (auto simp: sorted_map less_eq_prod_def le_less elim: sorted_wrt_mono_rel [rotated])
qed

lemma sort_key_const_id [simp]: "sort_key (\<lambda>_. k) xs = xs"
  by (rule properties_for_sort_key [where ys = xs]) (auto simp: sorted_map)

lemma sort_key_pad:
  fixes f :: "'a \<Rightarrow> 'b::linorder" and k :: "'c::linorder"
  shows "sort_key (\<lambda>x. (k, f x)) xs = sort_key f xs"
  using sort_key_sort_key [of "\<lambda>_. k" f xs] by simp

lemma sort_key_pad_inner:
  fixes f :: "'a \<Rightarrow> 'b::linorder" and g :: "'a \<Rightarrow> 'd::linorder" and k :: "'c::linorder"
  shows "sort_key (\<lambda>x. (g x, k, f x)) xs = sort_key (\<lambda>x. (g x, f x)) xs"
  using sort_key_sort_key [of g "\<lambda>x. (k, f x)" xs] sort_key_sort_key [of g f xs]
  by (simp add: sort_key_pad)

lemma insort_key_map_comm:
  "insort_key f (h x) (map h xs) = map h (insort_key (\<lambda>y. f (h y)) x xs)"
  by (induction xs) auto

lemma sort_key_map_comm: "sort_key f (map h xs) = map h (sort_key (\<lambda>y. f (h y)) xs)"
  by (induction xs) (simp_all add: insort_key_map_comm)

end
