(* ===== verification/RustStr.thy ===== *)
theory RustStr
  imports Prelude
begin

text \<open>
  The operations of Rust's \<^verbatim>\<open>str\<close> that the sources use. A string is its UTF-8
  bytes (a HOL \<open>char\<close> has exactly eight bits), so lengths and offsets are byte counts as in Rust.
  White space is \<^verbatim>\<open>char::is_whitespace\<close> on the encoded character, one to three bytes
  wide. These are library functions: the components below are translated on top of them.
\<close>

abbreviation byte_of :: "char \<Rightarrow> nat" where
  "byte_of \<equiv> of_char"

abbreviation byte_char :: "nat \<Rightarrow> char" where
  "byte_char \<equiv> char_of"

subsection \<open>Prefixes, suffixes, search\<close>

definition starts_with :: "string \<Rightarrow> string \<Rightarrow> bool" where
  "starts_with s p = prefix p s"

definition ends_with :: "string \<Rightarrow> string \<Rightarrow> bool" where
  "ends_with s p = prefix (rev p) (rev s)"

definition strip_prefix :: "string \<Rightarrow> string \<Rightarrow> string option" where
  "strip_prefix p s = (if prefix p s then Some (drop (length p) s) else None)"

fun str_find :: "string \<Rightarrow> string \<Rightarrow> nat option" where
  "str_find p [] = (if p = [] then Some 0 else None)"
| "str_find p (c # s) =
     (if prefix p (c # s) then Some 0 else map_option Suc (str_find p s))"

definition str_contains :: "string \<Rightarrow> string \<Rightarrow> bool" where
  "str_contains s p = (str_find p s \<noteq> None)"

fun find_idx :: "(char \<Rightarrow> bool) \<Rightarrow> string \<Rightarrow> nat option" where
  "find_idx P [] = None"
| "find_idx P (c # s) = (if P c then Some 0 else map_option Suc (find_idx P s))"

fun rfind_idx :: "(char \<Rightarrow> bool) \<Rightarrow> string \<Rightarrow> nat option" where
  "rfind_idx P [] = None"
| "rfind_idx P (c # s) =
     (case rfind_idx P s of Some i \<Rightarrow> Some (Suc i) | None \<Rightarrow> if P c then Some 0 else None)"

lemma find_idx_None_iff [simp]: "find_idx P s = None \<longleftrightarrow> (\<forall>c\<in>set s. \<not> P c)"
  by (induction s) auto

lemma rfind_idx_None_iff [simp]: "rfind_idx P s = None \<longleftrightarrow> (\<forall>c\<in>set s. \<not> P c)"
  by (induction s) (auto split: option.splits)

lemma find_idx_append_hit:
  "\<forall>c\<in>set s. \<not> P c \<Longrightarrow> P d \<Longrightarrow> find_idx P (s @ d # t) = Some (length s)"
  by (induction s) auto

lemma find_idx_append_miss:
  "\<forall>c\<in>set s. \<not> P c \<Longrightarrow> find_idx P (s @ t) = map_option ((+) (length s)) (find_idx P t)"
proof (induction s)
  case Nil
  show ?case by (simp add: option.map_ident)
next
  case (Cons c s)
  then show ?case by (auto simp: option.map_comp comp_def)
qed

lemma find_idx_SomeD:
  "find_idx P s = Some i \<Longrightarrow> i < length s \<and> P (s ! i) \<and> (\<forall>j<i. \<not> P (s ! j))"
proof (induction s arbitrary: i)
  case (Cons c s)
  then show ?case
    by (cases i) (auto split: if_splits simp: nth_Cons' less_Suc_eq_0_disj)
qed simp

lemma rfind_idx_append_hit:
  "\<forall>c\<in>set t. \<not> P c \<Longrightarrow> P d \<Longrightarrow> rfind_idx P (s @ d # t) = Some (length s)"
proof (induction s)
  case Nil
  then have "rfind_idx P t = None" by simp
  with Nil show ?case by (simp del: rfind_idx_None_iff)
qed simp

lemma find_idx_eq_hit [simp]:
  "d \<notin> set s \<Longrightarrow> find_idx (\<lambda>c. c = d) (s @ d # t) = Some (length s)"
  by (rule find_idx_append_hit) auto

lemma rfind_idx_eq_hit [simp]:
  "d \<notin> set t \<Longrightarrow> rfind_idx (\<lambda>c. c = d) (s @ d # t) = Some (length s)"
  by (rule rfind_idx_append_hit) auto

lemma rfind_idx_SomeD:
  "rfind_idx P s = Some i \<Longrightarrow> i < length s \<and> P (s ! i) \<and> (\<forall>c\<in>set (drop (Suc i) s). \<not> P c)"
proof (induction s arbitrary: i)
  case (Cons c s)
  show ?case
  proof (cases "rfind_idx P s")
    case None
    with Cons.prems show ?thesis by (auto split: if_splits)
  next
    case (Some k)
    with Cons.prems Cons.IH [of k] show ?thesis by auto
  qed
qed simp

lemma str_find_SomeD: "str_find p s = Some i \<Longrightarrow> prefix p (drop i s) \<and> i + length p \<le> length s"
proof (induction p s arbitrary: i rule: str_find.induct)
  case (2 p c s)
  then show ?case
    by (cases i) (auto split: if_splits dest: prefix_length_le)
qed (auto split: if_splits)

lemma str_find_split:
  assumes "str_find p s = Some i"
  shows "s = take i s @ p @ drop (i + length p) s"
proof -
  have "prefix p (drop i s)" using str_find_SomeD [OF assms] by simp
  then obtain r where r: "drop i s = p @ r" by (auto simp: prefix_def)
  then have "drop (i + length p) s = r"
    by (metis add.commute append_eq_conv_conj drop_drop)
  with r show ?thesis by (metis append_take_drop_id)
qed

lemma str_find_None_iff: "str_find p s = None \<longleftrightarrow> (\<forall>i. \<not> prefix p (drop i s))"
proof (induction s)
  case Nil
  show ?case by (cases p) auto
next
  case (Cons c s)
  have split: "(\<forall>i. \<not> prefix p (drop i (c # s))) \<longleftrightarrow>
      \<not> prefix p (c # s) \<and> (\<forall>i. \<not> prefix p (drop i s))"
    by (metis drop0 drop_Suc_Cons not0_implies_Suc)
  show ?case by (simp add: split Cons.IH del: drop_Suc_Cons)
qed

subsection \<open>ASCII case\<close>

definition ascii_lower_char :: "char \<Rightarrow> char" where
  "ascii_lower_char c =
     (if 65 \<le> byte_of c \<and> byte_of c \<le> 90 then byte_char (byte_of c + 32) else c)"

definition to_ascii_lowercase :: "string \<Rightarrow> string" where
  "to_ascii_lowercase = map ascii_lower_char"

definition eq_ignore_ascii_case :: "string \<Rightarrow> string \<Rightarrow> bool" where
  "eq_ignore_ascii_case a b = (to_ascii_lowercase a = to_ascii_lowercase b)"

lemma of_char_lt_256 [simp]: "(of_char c :: nat) < 256"
  by (metis of_char_mod_256 mod_less_divisor zero_less_numeral)

lemma ascii_lower_char_idem [simp]: "ascii_lower_char (ascii_lower_char c) = ascii_lower_char c"
  by (auto simp: ascii_lower_char_def)

lemma to_ascii_lowercase_idem [simp]:
  "to_ascii_lowercase (to_ascii_lowercase s) = to_ascii_lowercase s"
  by (simp add: to_ascii_lowercase_def)

lemma length_to_ascii_lowercase [simp]: "length (to_ascii_lowercase s) = length s"
  by (simp add: to_ascii_lowercase_def)

lemma to_ascii_lowercase_append [simp]:
  "to_ascii_lowercase (a @ b) = to_ascii_lowercase a @ to_ascii_lowercase b"
  by (simp add: to_ascii_lowercase_def)

lemma to_ascii_lowercase_Nil [simp]: "to_ascii_lowercase [] = []"
  by (simp add: to_ascii_lowercase_def)

lemma to_ascii_lowercase_Cons [simp]:
  "to_ascii_lowercase (c # s) = ascii_lower_char c # to_ascii_lowercase s"
  by (simp add: to_ascii_lowercase_def)

lemma eq_ignore_ascii_case_refl [simp]: "eq_ignore_ascii_case a a"
  by (simp add: eq_ignore_ascii_case_def)

lemma eq_ignore_ascii_case_sym: "eq_ignore_ascii_case a b \<longleftrightarrow> eq_ignore_ascii_case b a"
  by (auto simp: eq_ignore_ascii_case_def)

subsection \<open>White space\<close>

definition ws_len :: "string \<Rightarrow> nat" where
  "ws_len s =
     (case map byte_of (take 3 s) of
        [] \<Rightarrow> 0
      | a # r \<Rightarrow>
          if 9 \<le> a \<and> a \<le> 13 \<or> a = 32 then 1
          else (case r of
              [] \<Rightarrow> 0
            | b # r2 \<Rightarrow>
                if a = 194 \<and> (b = 133 \<or> b = 160) then 2
                else (case r2 of
                    [] \<Rightarrow> 0
                  | c # _ \<Rightarrow>
                      if a = 225 \<and> b = 154 \<and> c = 128
                       \<or> a = 226 \<and> b = 128 \<and> (128 \<le> c \<and> c \<le> 138 \<or> c = 168 \<or> c = 169 \<or> c = 175)
                       \<or> a = 226 \<and> b = 129 \<and> c = 159
                       \<or> a = 227 \<and> b = 128 \<and> c = 128
                      then 3 else 0)))"

lemma ws_len_le: "ws_len s \<le> length s"
  by (cases s; cases "tl s"; cases "tl (tl s)") (auto simp: ws_len_def)

lemma ws_len_Nil [simp]: "ws_len [] = 0"
  by (simp add: ws_len_def)

definition ws_end_len :: "string \<Rightarrow> nat" where
  "ws_end_len s =
     (let n = length s in
      if 1 \<le> n \<and> ws_len (drop (n - 1) s) = 1 then 1
      else if 2 \<le> n \<and> ws_len (drop (n - 2) s) = 2 then 2
      else if 3 \<le> n \<and> ws_len (drop (n - 3) s) = 3 then 3
      else 0)"

function trim_start :: "string \<Rightarrow> string" where
  "trim_start s = (if ws_len s = 0 then s else trim_start (drop (ws_len s) s))"
  by pat_completeness auto
termination
proof (relation "measure length")
  fix s :: string
  assume "ws_len s \<noteq> 0"
  then show "(drop (ws_len s) s, s) \<in> measure length"
    using ws_len_le [of s] by simp
qed simp

declare trim_start.simps [simp del]

function trim_end :: "string \<Rightarrow> string" where
  "trim_end s = (if ws_end_len s = 0 then s else trim_end (take (length s - ws_end_len s) s))"
  by pat_completeness auto
termination
  by (relation "measure length") (auto simp: ws_end_len_def Let_def split: if_splits)

declare trim_end.simps [simp del]

definition trim :: "string \<Rightarrow> string" where
  "trim s = trim_end (trim_start s)"

lemma ws_len_trim_start [simp]: "ws_len (trim_start s) = 0"
  by (induction s rule: trim_start.induct) (metis trim_start.simps)

lemma trim_start_suffix: "suffix (trim_start s) s"
proof (induction s rule: trim_start.induct)
  case (1 s)
  show ?case
  proof (cases "ws_len s = 0")
    case True
    then show ?thesis by (simp add: trim_start.simps [of s])
  next
    case False
    with 1 have "suffix (trim_start (drop (ws_len s) s)) (drop (ws_len s) s)" by simp
    with False show ?thesis
      by (metis suffix_drop suffix_order.trans trim_start.simps)
  qed
qed

lemma trim_end_prefix: "prefix (trim_end s) s"
proof (induction s rule: trim_end.induct)
  case (1 s)
  show ?case
  proof (cases "ws_end_len s = 0")
    case True
    then show ?thesis by (simp add: trim_end.simps [of s])
  next
    case False
    with 1 have "prefix (trim_end (take (length s - ws_end_len s) s)) (take (length s - ws_end_len s) s)"
      by simp
    with False show ?thesis
      by (metis take_is_prefix prefix_order.trans trim_end.simps)
  qed
qed

lemma set_trim_subset: "set (trim s) \<subseteq> set s"
proof -
  have "set (trim s) \<subseteq> set (trim_start s)"
    unfolding trim_def using trim_end_prefix by (rule set_mono_prefix)
  also have "\<dots> \<subseteq> set s"
    using trim_start_suffix by (rule set_mono_suffix)
  finally show ?thesis .
qed

lemma trim_id: "ws_len s = 0 \<Longrightarrow> ws_end_len s = 0 \<Longrightarrow> trim s = s"
  by (simp add: trim_def trim_start.simps trim_end.simps)

subsection \<open>Splitting\<close>

fun split_on :: "char \<Rightarrow> string \<Rightarrow> string list" where
  "split_on d [] = [[]]"
| "split_on d (c # s) =
     (if c = d then [] # split_on d s
      else (case split_on d s of [] \<Rightarrow> [[c]] | l # ls \<Rightarrow> (c # l) # ls))"

lemma split_on_not_Nil [simp]: "split_on d s \<noteq> []"
  by (induction s) (auto split: list.splits)

lemma split_on_no_sep: "d \<notin> set s \<Longrightarrow> split_on d s = [s]"
  by (induction s) auto

lemma split_on_append_sep: "d \<notin> set s \<Longrightarrow> split_on d (s @ d # t) = s # split_on d t"
  by (induction s) auto

function split_ws_from :: "string \<Rightarrow> string \<Rightarrow> string list" where
  "split_ws_from acc s =
     (case s of
        [] \<Rightarrow> if acc = [] then [] else [rev acc]
      | c # t \<Rightarrow>
          if ws_len s = 0 then split_ws_from (c # acc) t
          else (if acc = [] then [] else [rev acc]) @ split_ws_from [] (drop (ws_len s) s))"
  by pat_completeness auto
termination
proof (relation "measure (\<lambda>(acc, s). length s)", goal_cases)
  case (3 acc s c t)
  then show ?case using ws_len_le [of s] by simp
qed auto

declare split_ws_from.simps [simp del]

definition split_whitespace :: "string \<Rightarrow> string list" where
  "split_whitespace s = split_ws_from [] s"

lemma split_ws_from_nonempty: "\<forall>w\<in>set (split_ws_from acc s). w \<noteq> []"
proof (induction acc s rule: split_ws_from.induct)
  case (1 acc s)
  show ?case
    using 1 by (subst split_ws_from.simps) (auto split: list.splits)
qed

text \<open>Words of printable ASCII characters, which no white space encoding overlaps.\<close>

definition graphic :: "char \<Rightarrow> bool" where
  "graphic c = (33 \<le> byte_of c \<and> byte_of c \<le> 126)"

lemma ws_len_graphic [simp]: "graphic c \<Longrightarrow> ws_len (c # s) = 0"
  by (auto simp: ws_len_def graphic_def split: list.splits)

lemma ws_len_space [simp]: "ws_len (CHR '' '' # s) = 1"
  by (simp add: ws_len_def)

lemma ws_len_two: "ws_len [a, b] = 2 \<Longrightarrow> \<not> graphic b"
  by (auto simp: ws_len_def graphic_def split: if_splits)

lemma ws_len_three: "ws_len [a, b, c] = 3 \<Longrightarrow> \<not> graphic c"
  by (auto simp: ws_len_def graphic_def split: if_splits)

lemma ws_end_len_graphic:
  assumes "s \<noteq> []" and "graphic (last s)"
  shows "ws_end_len s = 0"
proof -
  obtain t c where s: "s = t @ [c]" and c: "graphic c"
    using assms by (metis append_butlast_last_id)
  have one: "ws_len (drop (length s - 1) s) \<noteq> 1" using c by (simp add: s)
  have two: "ws_len (drop (length s - 2) s) \<noteq> 2" if "2 \<le> length s"
  proof -
    from that obtain t' a where "t = t' @ [a]" by (cases t rule: rev_cases) (auto simp: s)
    with c show ?thesis using ws_len_two [of a c] by (auto simp: s)
  qed
  have three: "ws_len (drop (length s - 3) s) \<noteq> 3" if "3 \<le> length s"
  proof -
    from that obtain t' b where t: "t = t' @ [b]" by (cases t rule: rev_cases) (auto simp: s)
    with that obtain t'' a where "t' = t'' @ [a]" by (cases t' rule: rev_cases) (auto simp: s)
    with c t show ?thesis using ws_len_three [of a b c] by (auto simp: s)
  qed
  show ?thesis using one two three by (auto simp: ws_end_len_def Let_def)
qed

lemma trim_graphic_ends:
  "s \<noteq> [] \<Longrightarrow> graphic (hd s) \<Longrightarrow> graphic (last s) \<Longrightarrow> trim s = s"
  by (rule trim_id) (cases s, auto simp: ws_end_len_graphic)

lemma trim_graphic: "\<forall>c\<in>set s. graphic c \<Longrightarrow> trim s = s"
  by (cases "s = []") (auto intro: trim_graphic_ends trim_id simp: ws_end_len_def)

lemma split_ws_from_graphic:
  "\<forall>c\<in>set w. graphic c \<Longrightarrow> split_ws_from acc (w @ s) = split_ws_from (rev w @ acc) s"
  by (induction w arbitrary: acc) (simp_all add: split_ws_from.simps [of _ "_ # _"])

lemma split_ws_from_Nil [simp]: "split_ws_from acc [] = (if acc = [] then [] else [rev acc])"
  by (simp add: split_ws_from.simps)

lemma split_ws_from_space [simp]:
  "split_ws_from acc (CHR '' '' # s) = (if acc = [] then [] else [rev acc]) @ split_ws_from [] s"
  by (simp add: split_ws_from.simps [of acc "CHR '' '' # s"])

lemma split_whitespace_graphic:
  "\<forall>c\<in>set w. graphic c \<Longrightarrow> split_whitespace w = (if w = [] then [] else [w])"
  using split_ws_from_graphic [of w "[]" "[]"] by (simp add: split_whitespace_def)

lemma split_whitespace_two:
  assumes "\<forall>c\<in>set v. graphic c" and "\<forall>c\<in>set w. graphic c" and "v \<noteq> []" and "w \<noteq> []"
  shows "split_whitespace (v @ CHR '' '' # w) = [v, w]"
  using assms split_ws_from_graphic [of v "[]" "CHR '' '' # w"] split_ws_from_graphic [of w "[]" "[]"]
  by (simp add: split_whitespace_def)

fun split_inclusive_nl :: "string \<Rightarrow> string list" where
  "split_inclusive_nl [] = []"
| "split_inclusive_nl (c # s) =
     (if c = CHR 0x0A then [c] # split_inclusive_nl s
      else (case split_inclusive_nl s of [] \<Rightarrow> [[c]] | l # ls \<Rightarrow> (c # l) # ls))"

definition strip_line_end :: "string \<Rightarrow> string" where
  "strip_line_end l =
     (if l \<noteq> [] \<and> last l = CHR 0x0A
      then (let b = butlast l in if b \<noteq> [] \<and> last b = CHR 0x0D then butlast b else b)
      else l)"

definition str_lines :: "string \<Rightarrow> string list" where
  "str_lines s = map strip_line_end (split_inclusive_nl s)"

lemma split_inclusive_nl_line:
  "CHR 0x0A \<notin> set l \<Longrightarrow>
   split_inclusive_nl (l @ CHR 0x0A # s) = (l @ [CHR 0x0A]) # split_inclusive_nl s"
  by (induction l) auto

lemma str_lines_line:
  assumes "CHR 0x0A \<notin> set l" and "l = [] \<or> last l \<noteq> CHR 0x0D"
  shows "str_lines (l @ CHR 0x0A # s) = l # str_lines s"
  using assms by (auto simp: str_lines_def split_inclusive_nl_line strip_line_end_def Let_def)

lemma str_lines_Nil [simp]: "str_lines [] = []"
  by (simp add: str_lines_def)

subsection \<open>Numbers\<close>

definition digit_val :: "nat \<Rightarrow> char \<Rightarrow> nat option" where
  "digit_val radix c =
     (let b = byte_of c;
          v = (if 48 \<le> b \<and> b \<le> 57 then b - 48
               else if 97 \<le> b \<and> b \<le> 122 then b - 87
               else if 65 \<le> b \<and> b \<le> 90 then b - 55 else radix)
      in if v < radix then Some v else None)"

fun digits_val :: "nat \<Rightarrow> nat \<Rightarrow> string \<Rightarrow> nat option" where
  "digits_val radix acc [] = Some acc"
| "digits_val radix acc (c # s) =
     (case digit_val radix c of None \<Rightarrow> None | Some d \<Rightarrow> digits_val radix (acc * radix + d) s)"

definition from_str_radix :: "nat \<Rightarrow> nat \<Rightarrow> string \<Rightarrow> nat option" where
  "from_str_radix radix bits s =
     (let t = (case s of c # r \<Rightarrow> if c = CHR ''+'' then r else s | [] \<Rightarrow> [])
      in if t = [] then None
         else (case digits_val radix 0 t of
             None \<Rightarrow> None
           | Some n \<Rightarrow> if n < 2 ^ bits then Some n else None))"

definition parse_uint :: "nat \<Rightarrow> string \<Rightarrow> nat option" where
  "parse_uint bits s = from_str_radix 10 bits s"

lemma parse_uint_bound: "parse_uint bits s = Some n \<Longrightarrow> n < 2 ^ bits"
  by (auto simp: parse_uint_def from_str_radix_def Let_def split: if_splits option.splits list.splits)

text \<open>Decimal display of an unsigned number.\<close>

fun show_nat :: "nat \<Rightarrow> string" where
  "show_nat n =
     (if n < 10 then [byte_char (48 + n)] else show_nat (n div 10) @ [byte_char (48 + n mod 10)])"

declare show_nat.simps [simp del]

lemma digits_val_append:
  "digits_val r acc (s @ t) = (case digits_val r acc s of None \<Rightarrow> None | Some v \<Rightarrow> digits_val r v t)"
  by (induction s arbitrary: acc) (auto split: option.splits)

lemma digit_val_show [simp]: "n < 10 \<Longrightarrow> digit_val 10 (byte_char (48 + n)) = Some n"
  by (simp add: digit_val_def Let_def)

lemma digits_val_show: "digits_val 10 0 (show_nat n) = Some n"
proof (induction n rule: show_nat.induct)
  case (1 n)
  show ?case
  proof (cases "n < 10")
    case False
    with 1 show ?thesis by (simp add: show_nat.simps [of n] digits_val_append)
  qed (simp add: show_nat.simps [of n])
qed

lemma show_nat_digit: "c \<in> set (show_nat n) \<Longrightarrow> 48 \<le> byte_of c \<and> byte_of c \<le> 57"
proof (induction n rule: show_nat.induct)
  case (1 n)
  then show ?case
    by (cases "n < 10") (auto simp: show_nat.simps [of n])
qed

lemma show_nat_Nil [simp]: "show_nat n \<noteq> []"
  by (simp add: show_nat.simps [of n])

lemma plus_below_digits: "\<not> 48 \<le> byte_of (CHR ''+'')"
  by simp

lemma from_str_radix_show:
  assumes "hd s \<noteq> CHR ''+''" and "s \<noteq> []" and "digits_val r 0 s = Some n" and "n < 2 ^ bits"
  shows "from_str_radix r bits s = Some n"
proof -
  have "(case s of c # t \<Rightarrow> if c = CHR ''+'' then t else s | [] \<Rightarrow> []) = s"
    using assms(1,2) by (cases s) simp_all
  with assms show ?thesis by (simp only: from_str_radix_def Let_def option.case if_False if_True)
qed

lemma parse_show_nat: "n < 2 ^ bits \<Longrightarrow> parse_uint bits (show_nat n) = Some n"
  unfolding parse_uint_def
proof (rule from_str_radix_show)
  have "48 \<le> byte_of (hd (show_nat n))"
    using show_nat_digit [of "hd (show_nat n)" n] by simp
  then show "hd (show_nat n) \<noteq> CHR ''+''"
    by (metis (no_types) plus_below_digits)
qed (simp_all add: digits_val_show)

subsection \<open>Character boundaries of the encoding\<close>

definition is_char_boundary :: "string \<Rightarrow> nat \<Rightarrow> bool" where
  "is_char_boundary s i =
     (i = 0 \<or> i = length s \<or> i < length s \<and> \<not> (128 \<le> byte_of (s ! i) \<and> byte_of (s ! i) < 192))"

end
