(* ===== verification/Utf8.thy ===== *)
theory Utf8
  imports Complex_Main RustStr
begin

text \<open>
  UTF-8 validity and lossy decoding as \<^verbatim>\<open>core::str\<close> defines them, and the
  truncating conversions from \<^verbatim>\<open>f64\<close>. \<open>utf8_step\<close> reads one well-formed sequence, or the
  maximal prefix that \<^verbatim>\<open>from_utf8_lossy\<close> replaces by one replacement character.
\<close>

definition cont_byte :: "nat \<Rightarrow> bool" where
  "cont_byte b = (128 \<le> b \<and> b < 192)"

text \<open>The allowed second bytes of a lead byte, with the number of continuation bytes after it.\<close>

definition utf8_second :: "nat \<Rightarrow> (nat \<times> nat \<times> nat) option" where
  "utf8_second a =
     (if 194 \<le> a \<and> a \<le> 223 then Some (128, 191, 0)
      else if a = 224 then Some (160, 191, 1)
      else if a = 237 then Some (128, 159, 1)
      else if 225 \<le> a \<and> a \<le> 239 then Some (128, 191, 1)
      else if a = 240 then Some (144, 191, 2)
      else if 241 \<le> a \<and> a \<le> 243 then Some (128, 191, 2)
      else if a = 244 then Some (128, 143, 2)
      else None)"

text \<open>How many of the next \<open>n\<close> bytes are continuation bytes.\<close>

fun cont_run :: "nat \<Rightarrow> string \<Rightarrow> nat" where
  "cont_run 0 s = 0"
| "cont_run (Suc n) [] = 0"
| "cont_run (Suc n) (c # s) = (if cont_byte (byte_of c) then Suc (cont_run n s) else 0)"

text \<open>Length of the sequence read, and whether it is well formed.\<close>

fun utf8_step :: "string \<Rightarrow> nat \<times> bool" where
  "utf8_step [] = (0, True)"
| "utf8_step (c # s) =
     (if byte_of c < 128 then (1, True)
      else (case utf8_second (byte_of c) of
          None \<Rightarrow> (1, False)
        | Some (lo, hi, more) \<Rightarrow>
            (case s of
               [] \<Rightarrow> (1, False)
             | d # t \<Rightarrow>
                 if \<not> (lo \<le> byte_of d \<and> byte_of d \<le> hi) then (1, False)
                 else (let n = cont_run more t in (2 + n, n = more)))))"

lemma utf8_step_pos: "s \<noteq> [] \<Longrightarrow> 0 < fst (utf8_step s)"
  by (cases s) (auto simp: Let_def split: option.splits prod.splits list.splits)

lemma utf8_step_drop: "s \<noteq> [] \<Longrightarrow> length (drop (fst (utf8_step s)) s) < length s"
  using utf8_step_pos [of s] by (cases s) auto

function utf8_valid :: "string \<Rightarrow> bool" where
  "utf8_valid s =
     (if s = [] then True
      else if snd (utf8_step s) then utf8_valid (drop (fst (utf8_step s)) s) else False)"
  by pat_completeness auto
termination
  by (relation "measure length") (auto intro: utf8_step_drop simp del: length_drop)

function from_utf8_lossy :: "string \<Rightarrow> string" where
  "from_utf8_lossy s =
     (if s = [] then []
      else (if snd (utf8_step s) then take (fst (utf8_step s)) s
            else [byte_char 239, byte_char 191, byte_char 189])
           @ from_utf8_lossy (drop (fst (utf8_step s)) s))"
  by pat_completeness auto
termination
  by (relation "measure length") (auto intro: utf8_step_drop simp del: length_drop)

declare utf8_valid.simps [simp del] and from_utf8_lossy.simps [simp del]

lemma utf8_valid_Nil [simp]: "utf8_valid []"
  by (simp add: utf8_valid.simps)

lemma utf8_valid_ascii_Cons [simp]: "byte_of c < 128 \<Longrightarrow> utf8_valid (c # s) = utf8_valid s"
  by (simp add: utf8_valid.simps [of "c # s"])

lemma utf8_valid_ascii: "\<forall>c\<in>set s. byte_of c < 128 \<Longrightarrow> utf8_valid s"
  by (induction s) auto

text \<open>\<^verbatim>\<open>String::from_utf8_lossy\<close> leaves a valid string alone.\<close>

lemma from_utf8_lossy_valid: "utf8_valid s \<Longrightarrow> from_utf8_lossy s = s"
proof (induction s rule: from_utf8_lossy.induct)
  case (1 s)
  show ?case
  proof (cases "s = []")
    case False
    with "1.prems" have step: "snd (utf8_step s)" "utf8_valid (drop (fst (utf8_step s)) s)"
      by (simp_all add: utf8_valid.simps [of s] split: if_splits)
    have "from_utf8_lossy s = take (fst (utf8_step s)) s @ from_utf8_lossy (drop (fst (utf8_step s)) s)"
      using False step by (simp add: from_utf8_lossy.simps [of s])
    with "1.IH" [OF False step(2)] show ?thesis by simp
  qed (simp add: from_utf8_lossy.simps)
qed

subsection \<open>Floating-point numbers as the sources read them\<close>

text \<open>
  The sources only ever truncate an \<^verbatim>\<open>f64\<close> to an unsigned integer, with Rust's saturating
  \<^verbatim>\<open>as\<close>; a finite number is its exact rational value.
\<close>

datatype f64 = F_NaN | F_PosInf | F_NegInf | F_Fin rat

definition f64_as :: "f64 \<Rightarrow> 'a::len word" where
  "f64_as x =
     (case x of
        F_NaN \<Rightarrow> 0
      | F_PosInf \<Rightarrow> - 1
      | F_NegInf \<Rightarrow> 0
      | F_Fin q \<Rightarrow> of_nat (min (nat \<lfloor>q\<rfloor>) (2 ^ LENGTH('a) - 1)))"

fun bit_count :: "nat \<Rightarrow> nat" where
  "bit_count n = (if n = 0 then 0 else Suc (bit_count (n div 2)))"

declare bit_count.simps [simp del]

text \<open>Rounding an integer to the nearest number with 53 significant bits, ties to even.\<close>

definition round53 :: "nat \<Rightarrow> nat" where
  "round53 n =
     (let e = bit_count n - 53 in
      if e = 0 then n
      else let q = n div 2 ^ e; r = n mod 2 ^ e; h = 2 ^ (e - 1)
           in (if h < r \<or> r = h \<and> odd q then q + 1 else q) * 2 ^ e)"

definition f64_of_i64 :: "int \<Rightarrow> f64" where
  "f64_of_i64 i = F_Fin (if i < 0 then - of_nat (round53 (nat (- i))) else of_nat (round53 (nat i)))"

lemma bit_count_le: "n < 2 ^ k \<Longrightarrow> bit_count n \<le> k"
proof (induction n arbitrary: k rule: bit_count.induct)
  case (1 n)
  show ?case
  proof (cases k)
    case 0
    with 1 show ?thesis by (simp add: bit_count.simps)
  next
    case (Suc j)
    with 1 show ?thesis by (subst bit_count.simps) auto
  qed
qed

lemma round53_exact: "n < 2 ^ 53 \<Longrightarrow> round53 n = n"
  using bit_count_le [of n 53] by (simp add: round53_def Let_def)

lemma f64_as_Fin:
  "unat (f64_as (F_Fin q) :: 'a::len word) = min (nat \<lfloor>q\<rfloor>) (2 ^ LENGTH('a) - 1)"
proof -
  have "min (nat \<lfloor>q\<rfloor>) (2 ^ LENGTH('a) - 1) < 2 ^ LENGTH('a)"
    by (simp add: min_less_iff_disj)
  then show ?thesis unfolding f64_as_def by (simp only: f64.case unat_of_nat mod_less)
qed

lemma f64_as_neg: "q < 1 \<Longrightarrow> f64_as (F_Fin q) = (0 :: 'a::len word)"
proof -
  assume "q < 1"
  then have "nat \<lfloor>q\<rfloor> = 0" by (simp add: floor_less_iff)
  then show ?thesis by (simp add: f64_as_def)
qed

lemma f64_as_int:
  assumes "i < 2 ^ 53"
  shows "unat (f64_as (f64_of_i64 i) :: 'a::len word) = min (nat i) (2 ^ LENGTH('a) - 1)"
proof (cases "i < 0")
  case True
  then have "f64_as (f64_of_i64 i) = (0 :: 'a word)"
    unfolding f64_of_i64_def by (simp add: f64_as_neg)
  with True show ?thesis by simp
next
  case False
  with assms have "nat i < 2 ^ 53" by (simp add: nat_less_iff)
  then have "f64_of_i64 i = F_Fin (of_nat (nat i))"
    using False by (simp add: f64_of_i64_def round53_exact)
  then show ?thesis by (simp add: f64_as_Fin)
qed

end
