(* ===== verification/LuaValue.thy ===== *)
theory LuaValue
  imports Utf8
begin

text \<open>
  Values of the embedded script interpreter, a third-party library. A table is an opaque
  \<open>'t\<close>; what the sources ask of one is a field of \<open>lua_ops\<close>: a key lookup
  (\<open>None\<close> is an error), the pairs and sequence iterators with the conversion of each
  item (\<open>None\<close> or \<open>Inl\<close> is a failed conversion). A string is a byte string.
\<close>

datatype 't lua_value =
    L_Nil
  | L_Boolean bool
  | L_Integer int
  | L_Number f64
  | L_String string
  | L_Table 't
  | L_Function
  | L_Other

record 't lua_ops =
  lo_get :: "'t \<Rightarrow> string \<Rightarrow> 't lua_value option"
  lo_pairs :: "'t \<Rightarrow> (string \<times> string) option list"
  lo_strings :: "'t \<Rightarrow> string option list"
  lo_ints :: "'t \<Rightarrow> int option list"
  lo_tables :: "'t \<Rightarrow> (string + 't) list"

text \<open>The readers \<^verbatim>\<open>vnum\<close>, \<^verbatim>\<open>vstr\<close> of \<^verbatim>\<open>lua/api.rs\<close>.\<close>

definition vnum :: "'t lua_ops \<Rightarrow> 't \<Rightarrow> string \<Rightarrow> f64 option" where
  "vnum L t key =
     (case lo_get L t key of
        Some (L_Integer i) \<Rightarrow> Some (f64_of_i64 i)
      | Some (L_Number n) \<Rightarrow> Some n
      | _ \<Rightarrow> None)"

definition vstr :: "'t lua_ops \<Rightarrow> 't \<Rightarrow> string \<Rightarrow> string option" where
  "vstr L t key =
     (case lo_get L t key of
        Some (L_String s) \<Rightarrow> if utf8_valid s then Some s else None
      | _ \<Rightarrow> None)"

definition flatten :: "'a option list \<Rightarrow> 'a list" where
  "flatten xs = List.map_filter id xs"

text \<open>\<^verbatim>\<open>Option::unwrap_or\<close>\<close>

definition unwrap_or :: "'a option \<Rightarrow> 'a \<Rightarrow> 'a" where
  "unwrap_or x d = (case x of Some v \<Rightarrow> v | None \<Rightarrow> d)"

lemma unwrap_or_simps [simp]: "unwrap_or None d = d" "unwrap_or (Some v) d = v"
  by (simp_all add: unwrap_or_def)

lemma vnum_Integer: "lo_get L t key = Some (L_Integer i) \<Longrightarrow> vnum L t key = Some (f64_of_i64 i)"
  by (simp add: vnum_def)

lemma vstr_utf8: "vstr L t key = Some s \<Longrightarrow> utf8_valid s"
  by (auto simp: vstr_def split: option.splits lua_value.splits if_splits)

subsection \<open>Plain tables\<close>

text \<open>
  Tables with string keys and a sequence part, enough to run the readers on concrete scripts.
\<close>

datatype plain_table = Plain "(string \<times> plain_table lua_value) list" "plain_table lua_value list"

fun plain_get :: "plain_table \<Rightarrow> string \<Rightarrow> plain_table lua_value option" where
  "plain_get (Plain kv _) key = Some (case map_of kv key of Some v \<Rightarrow> v | None \<Rightarrow> L_Nil)"

fun as_lua_string :: "'t lua_value \<Rightarrow> string option" where
  "as_lua_string (L_String s) = (if utf8_valid s then Some s else None)"
| "as_lua_string _ = None"

fun plain_pairs :: "plain_table \<Rightarrow> (string \<times> string) option list" where
  "plain_pairs (Plain kv _) = map (\<lambda>(k, v). map_option (Pair k) (as_lua_string v)) kv"

fun plain_strings :: "plain_table \<Rightarrow> string option list" where
  "plain_strings (Plain _ xs) = map as_lua_string xs"

fun plain_ints :: "plain_table \<Rightarrow> int option list" where
  "plain_ints (Plain _ xs) = map (\<lambda>v. case v of L_Integer i \<Rightarrow> Some i | _ \<Rightarrow> None) xs"

fun plain_tables :: "plain_table \<Rightarrow> (string + plain_table) list" where
  "plain_tables (Plain _ xs) =
     map (\<lambda>v. case v of L_Table t \<Rightarrow> Inr t | _ \<Rightarrow> Inl ''error converting Lua value to table'') xs"

definition plain_ops :: "plain_table lua_ops" where
  "plain_ops = \<lparr>lo_get = plain_get, lo_pairs = plain_pairs, lo_strings = plain_strings,
     lo_ints = plain_ints, lo_tables = plain_tables\<rparr>"

lemma plain_ops_simps [simp]:
  "lo_get plain_ops = plain_get" "lo_pairs plain_ops = plain_pairs" "lo_strings plain_ops = plain_strings"
  "lo_ints plain_ops = plain_ints" "lo_tables plain_ops = plain_tables"
  by (simp_all add: plain_ops_def)

end
