(* ===== verification/Http.thy ===== *)
theory Http
  imports Utf8 LuaValue
begin

text \<open>
  The vocabulary of the HTTP libraries. A header map is an opaque \<open>'h\<close> with the operations of
  \<open>header_ops\<close>; \<open>header_laws\<close> is their documented behaviour, stated on the list of values
  of a name in insertion order (\<open>header_vals\<close>). Header names are in their canonical lower-case form, values are
  byte strings. \<open>plain_headers\<close> is an instance by lists that meets the laws.
\<close>

record 'h header_ops =
  ho_empty :: 'h
  ho_iter :: "'h \<Rightarrow> (string \<times> string) list"
  ho_get :: "'h \<Rightarrow> string \<Rightarrow> string option"
  ho_insert :: "string \<Rightarrow> string \<Rightarrow> 'h \<Rightarrow> 'h"
  ho_append :: "string \<Rightarrow> string \<Rightarrow> 'h \<Rightarrow> 'h"
  ho_remove :: "string \<Rightarrow> 'h \<Rightarrow> 'h"
  ho_name :: "string \<Rightarrow> string option"
  ho_value_bytes :: "string \<Rightarrow> bool"
  ho_value_str :: "string \<Rightarrow> bool"
  ho_to_str :: "string \<Rightarrow> bool"

definition header_vals :: "'h header_ops \<Rightarrow> 'h \<Rightarrow> string \<Rightarrow> string list" where
  "header_vals H h n = map snd (filter (\<lambda>e. fst e = n) (ho_iter H h))"

text \<open>Lower-case letters, digits and dashes: the names written as literals in the sources.\<close>

definition literal_name :: "string \<Rightarrow> bool" where
  "literal_name n =
     (n \<noteq> [] \<and> (\<forall>c\<in>set n. 97 \<le> byte_of c \<and> byte_of c \<le> 122 \<or> 48 \<le> byte_of c \<and> byte_of c \<le> 57 \<or> byte_of c = 45))"

definition visible_ascii :: "string \<Rightarrow> bool" where
  "visible_ascii s = (\<forall>c\<in>set s. 32 \<le> byte_of c \<and> byte_of c < 127)"

text \<open>A name and a value as a header map takes them: canonical and valid.\<close>

definition header_ok :: "'h header_ops \<Rightarrow> string \<Rightarrow> string \<Rightarrow> bool" where
  "header_ok H n v = (ho_name H n = Some n \<and> ho_value_bytes H v)"

definition header_laws :: "'h header_ops \<Rightarrow> bool" where
  "header_laws H =
     ((\<forall>n. header_vals H (ho_empty H) n = [])
      \<and> (\<forall>n v h m. header_ok H n v \<longrightarrow>
           header_vals H (ho_append H n v h) m = header_vals H h m @ (if m = n then [v] else []))
      \<and> (\<forall>n v h m. header_ok H n v \<longrightarrow>
           header_vals H (ho_insert H n v h) m = (if m = n then [v] else header_vals H h m))
      \<and> (\<forall>n h m. ho_name H n = Some n \<longrightarrow>
           header_vals H (ho_remove H n h) m = (if m = n then [] else header_vals H h m))
      \<and> (\<forall>n h. ho_name H n = Some n \<longrightarrow>
           ho_get H h n = (case header_vals H h n of [] \<Rightarrow> None | v # vs \<Rightarrow> Some v))
      \<and> (\<forall>h n v. (n, v) \<in> set (ho_iter H h) \<longrightarrow> header_ok H n v)
      \<and> (\<forall>n. literal_name n \<longrightarrow> ho_name H n = Some n)
      \<and> (\<forall>n m. ho_name H n = Some m \<longrightarrow> ho_name H m = Some m)
      \<and> (\<forall>v. visible_ascii v \<longrightarrow> ho_value_str H v \<and> ho_to_str H v)
      \<and> (\<forall>v. ho_value_str H v \<longrightarrow> ho_value_bytes H v))"

lemma header_lawsD:
  assumes "header_laws H"
  shows header_vals_empty: "header_vals H (ho_empty H) n = []"
    and header_vals_append: "header_ok H n v \<Longrightarrow>
      header_vals H (ho_append H n v h) m = header_vals H h m @ (if m = n then [v] else [])"
    and header_vals_insert: "header_ok H n v \<Longrightarrow>
      header_vals H (ho_insert H n v h) m = (if m = n then [v] else header_vals H h m)"
    and header_vals_remove: "ho_name H n = Some n \<Longrightarrow>
      header_vals H (ho_remove H n h) m = (if m = n then [] else header_vals H h m)"
    and ho_get_vals: "ho_name H n = Some n \<Longrightarrow>
      ho_get H h n = (case header_vals H h n of [] \<Rightarrow> None | v # vs \<Rightarrow> Some v)"
    and ho_iter_ok: "(n, v) \<in> set (ho_iter H h) \<Longrightarrow> header_ok H n v"
    and literal_name_ok: "literal_name n \<Longrightarrow> ho_name H n = Some n"
    and ascii_value_ok: "visible_ascii v \<Longrightarrow> ho_value_str H v \<and> ho_to_str H v"
    and value_str_bytes: "ho_value_str H v \<Longrightarrow> ho_value_bytes H v"
  using assms by (simp_all add: header_laws_def)

lemma ho_name_idem: "header_laws H \<Longrightarrow> ho_name H n = Some m \<Longrightarrow> ho_name H m = Some m"
  unfolding header_laws_def by blast

lemma literal_header_ok:
  assumes "header_laws H" and "literal_name n" and "visible_ascii v"
  shows "header_ok H n v"
  using assms by (simp add: header_ok_def literal_name_ok ascii_value_ok value_str_bytes)

text \<open>Copying the entries that pass a test, in order.\<close>

definition copy_headers_if :: "'h header_ops \<Rightarrow> (string \<Rightarrow> bool) \<Rightarrow> (string \<times> string) list \<Rightarrow> 'h \<Rightarrow> 'h" where
  "copy_headers_if H keep es h = fold (\<lambda>(n, v) a. if keep n then ho_append H n v a else a) es h"

lemma header_vals_copy:
  assumes "header_laws H" and "\<forall>(n, v)\<in>set es. header_ok H n v"
  shows "header_vals H (copy_headers_if H keep es h) m =
    header_vals H h m @ (if keep m then map snd (filter (\<lambda>e. fst e = m) es) else [])"
  using assms(2)
proof (induction es arbitrary: h)
  case (Cons e es)
  obtain n v where e: "e = (n, v)" by force
  with Cons show ?case
    by (auto simp: copy_headers_if_def header_vals_append [OF assms(1)])
qed (simp add: copy_headers_if_def)

lemma header_vals_copy_map:
  assumes "header_laws H"
  shows "header_vals H (copy_headers_if H keep (ho_iter H g) h) m =
    header_vals H h m @ (if keep m then header_vals H g m else [])"
proof -
  have "\<forall>(n, v)\<in>set (ho_iter H g). header_ok H n v"
    using ho_iter_ok [OF assms] by blast
  from header_vals_copy [OF assms this] show ?thesis by (simp add: header_vals_def)
qed

text \<open>Overriding by every entry of another map: the last value of a repeated name remains.\<close>

definition insert_all :: "'h header_ops \<Rightarrow> (string \<times> string) list \<Rightarrow> 'h \<Rightarrow> 'h" where
  "insert_all H es h = fold (\<lambda>(n, v). ho_insert H n v) es h"

lemma header_vals_insert_all:
  assumes "header_laws H" and "\<forall>(n, v)\<in>set es. header_ok H n v"
  shows "header_vals H (insert_all H es h) m =
    (let vs = map snd (filter (\<lambda>e. fst e = m) es) in if vs = [] then header_vals H h m else [last vs])"
  using assms(2)
proof (induction es arbitrary: h)
  case (Cons e es)
  obtain n v where e: "e = (n, v)" by force
  with Cons have "header_vals H (insert_all H (e # es) h) m =
      (let vs = map snd (filter (\<lambda>e. fst e = m) es)
       in if vs = [] then (if m = n then [v] else header_vals H h m) else [last vs])"
    by (simp add: insert_all_def header_vals_insert [OF assms(1)])
  with e show ?case by (auto simp: Let_def)
qed (simp add: insert_all_def)

subsection \<open>Status codes and methods\<close>

text \<open>\<^verbatim>\<open>StatusCode::from_u16\<close> accepts 100 to 999.\<close>

definition status_from_u16 :: "u16 \<Rightarrow> u16 option" where
  "status_from_u16 s = (if 100 \<le> s \<and> s < 1000 then Some s else None)"

definition BAD_GATEWAY :: u16 where "BAD_GATEWAY = 502"
definition BAD_REQUEST :: u16 where "BAD_REQUEST = 400"
definition STATUS_OK :: u16 where "STATUS_OK = 200"

subsection \<open>Lists of headers\<close>

definition lower_token :: "string \<Rightarrow> string option" where
  "lower_token s =
     (if s \<noteq> [] \<and> (\<forall>c\<in>set s. graphic c) then Some (to_ascii_lowercase s) else None)"

definition visible :: "string \<Rightarrow> bool" where
  "visible s = (\<forall>c\<in>set s. 32 \<le> byte_of c \<and> byte_of c \<noteq> 127 \<or> byte_of c = 9)"

typedef plain_header_map = "{es :: (string \<times> string) list. \<forall>(n, v)\<in>set es. lower_token n = Some n \<and> visible v}"
  by (rule exI [of _ "[]"]) simp

setup_lifting type_definition_plain_header_map

lift_definition ph_empty :: plain_header_map is "[]" by simp

lift_definition ph_iter :: "plain_header_map \<Rightarrow> (string \<times> string) list" is "\<lambda>es. es" .

lift_definition ph_insert :: "string \<Rightarrow> string \<Rightarrow> plain_header_map \<Rightarrow> plain_header_map" is
  "\<lambda>n v es. filter (\<lambda>e. fst e \<noteq> n) es @ (if lower_token n = Some n \<and> visible v then [(n, v)] else [])"
  by auto

lift_definition ph_append :: "string \<Rightarrow> string \<Rightarrow> plain_header_map \<Rightarrow> plain_header_map" is
  "\<lambda>n v es. es @ (if lower_token n = Some n \<and> visible v then [(n, v)] else [])"
  by auto

lift_definition ph_remove :: "string \<Rightarrow> plain_header_map \<Rightarrow> plain_header_map" is
  "\<lambda>n es. filter (\<lambda>e. fst e \<noteq> n) es"
  by auto

definition plain_headers :: "plain_header_map header_ops" where
  "plain_headers =
     \<lparr>ho_empty = ph_empty, ho_iter = ph_iter,
      ho_get = (\<lambda>h n. map_of (ph_iter h) n),
      ho_insert = ph_insert, ho_append = ph_append, ho_remove = ph_remove,
      ho_name = lower_token, ho_value_bytes = visible, ho_value_str = visible_ascii, ho_to_str = visible_ascii\<rparr>"

lemma map_of_vals:
  "map_of es n = (case map snd (filter (\<lambda>e. fst e = n) es) of [] \<Rightarrow> None | v # vs \<Rightarrow> Some v)"
  by (induction es) auto

lemma graphic_lower: "graphic c \<Longrightarrow> graphic (ascii_lower_char c)"
  by (auto simp: graphic_def ascii_lower_char_def)

lemma lower_token_idem: "lower_token n = Some m \<Longrightarrow> lower_token m = Some m"
  by (auto simp: lower_token_def to_ascii_lowercase_def graphic_lower split: if_splits)

lemma ascii_lower_literal:
  "97 \<le> byte_of c \<or> byte_of c < 65 \<Longrightarrow> ascii_lower_char c = c"
  by (auto simp: ascii_lower_char_def)

lemma literal_lower_token:
  assumes "literal_name n"
  shows "lower_token n = Some n"
proof -
  have "graphic c \<and> ascii_lower_char c = c" if "c \<in> set n" for c
  proof -
    have "97 \<le> byte_of c \<and> byte_of c \<le> 122 \<or> 48 \<le> byte_of c \<and> byte_of c \<le> 57 \<or> byte_of c = 45"
      using assms that unfolding literal_name_def by blast
    then have "33 \<le> byte_of c \<and> byte_of c \<le> 126 \<and> (97 \<le> byte_of c \<or> byte_of c < 65)" by linarith
    then show ?thesis by (simp add: graphic_def ascii_lower_literal)
  qed
  moreover have "n \<noteq> []" using assms by (simp add: literal_name_def)
  ultimately show ?thesis
    by (simp add: lower_token_def to_ascii_lowercase_def map_idI)
qed

lemma visible_ascii_visible: "visible_ascii v \<Longrightarrow> visible v"
  by (auto simp: visible_def visible_ascii_def)

lemma plain_headers_laws: "header_laws plain_headers"
proof -
  have empty: "header_vals plain_headers ph_empty n = []" for n
    by (simp add: header_vals_def plain_headers_def ph_empty.rep_eq ph_iter.rep_eq)
  have app: "header_vals plain_headers (ph_append n v h) m = header_vals plain_headers h m @ (if m = n then [v] else [])"
    if "lower_token n = Some n" "visible v" for n v h m
    using that by (simp add: header_vals_def plain_headers_def ph_append.rep_eq ph_iter.rep_eq)
  have ins: "header_vals plain_headers (ph_insert n v h) m = (if m = n then [v] else header_vals plain_headers h m)"
    if "lower_token n = Some n" "visible v" for n v h m
    using that by (auto simp: header_vals_def plain_headers_def ph_insert.rep_eq ph_iter.rep_eq intro: arg_cong [of _ _ "map snd"] filter_cong)
  have rem: "header_vals plain_headers (ph_remove n h) m = (if m = n then [] else header_vals plain_headers h m)" for n h m
    by (auto simp: header_vals_def plain_headers_def ph_remove.rep_eq ph_iter.rep_eq intro: arg_cong [of _ _ "map snd"] filter_cong)
  have get: "map_of (ph_iter h) n = (case header_vals plain_headers h n of [] \<Rightarrow> None | v # vs \<Rightarrow> Some v)" for h n
    by (simp add: header_vals_def plain_headers_def map_of_vals [of _ n])
  have it: "lower_token n = Some n \<and> visible v" if "(n, v) \<in> set (ph_iter h)" for h n v
    using that by transfer blast
  have ops: "ho_empty plain_headers = ph_empty" "ho_iter plain_headers = ph_iter"
    "ho_get plain_headers = (\<lambda>h n. map_of (ph_iter h) n)" "ho_insert plain_headers = ph_insert"
    "ho_append plain_headers = ph_append" "ho_remove plain_headers = ph_remove"
    "ho_name plain_headers = lower_token" "ho_value_bytes plain_headers = visible"
    "ho_value_str plain_headers = visible_ascii" "ho_to_str plain_headers = visible_ascii"
    by (simp_all add: plain_headers_def)
  show ?thesis
    unfolding header_laws_def header_ok_def ops
    by (intro conjI allI impI; (elim conjE)?)
      (simp_all only: empty app ins rem get it literal_lower_token lower_token_idem visible_ascii_visible)
qed

end
