(* ===== verification/Util.thy ===== *)
theory Util
  imports RustStr
begin

text \<open>
  \<^verbatim>\<open>intermediate-proxy/src/util.rs\<close>: credential masking for log lines and stored
  error reasons, and the readers of environment variables. The main facts: the masked text does
  not depend on the password, and the free-text scrubber agrees with the URL masker on a text that is one URL.
\<close>

definition is_authority_end :: "char \<Rightarrow> bool" where
  "is_authority_end c = (c = CHR ''/'' \<or> c = CHR ''?'' \<or> c = CHR ''#'')"

definition find_or_len :: "(char \<Rightarrow> bool) \<Rightarrow> string \<Rightarrow> nat" where
  "find_or_len P s = (case find_idx P s of Some i \<Rightarrow> i | None \<Rightarrow> length s)"

definition mask_userinfo :: "string \<Rightarrow> string" where
  "mask_userinfo userinfo =
     (case find_idx (\<lambda>c. c = CHR '':'') userinfo of
        Some colon \<Rightarrow> take colon userinfo @ '':***''
      | None \<Rightarrow> userinfo)"

definition sanitize_url :: "string \<Rightarrow> string" where
  "sanitize_url url =
     (case str_find ''://'' url of
        None \<Rightarrow> url
      | Some scheme_end \<Rightarrow>
          let after_scheme = drop (scheme_end + 3) url;
              authority_end = find_or_len is_authority_end after_scheme;
              authority = take authority_end after_scheme
          in (case rfind_idx (\<lambda>c. c = CHR ''@'') authority of
                None \<Rightarrow> url
              | Some at_pos \<Rightarrow>
                  let userinfo = take at_pos authority;
                      host = drop (at_pos + 1) authority
                  in take scheme_end url @ ''://'' @ mask_userinfo userinfo @ ''@'' @ host
                     @ drop authority_end after_scheme))"

text \<open>One URL-looking chunk of free text: what follows \<^verbatim>\<open>://\<close>, up to a boundary.\<close>

definition mask_authority :: "string \<Rightarrow> string" where
  "mask_authority authority =
     (case rfind_idx (\<lambda>c. c = CHR ''@'') authority of
        Some at_pos \<Rightarrow> mask_userinfo (take at_pos authority) @ ''@'' @ drop (at_pos + 1) authority
      | None \<Rightarrow> authority)"

definition scrub_chunk :: "string \<Rightarrow> string" where
  "scrub_chunk chunk =
     (let authority_end = find_or_len is_authority_end chunk;
          authority = take authority_end chunk;
          after_authority = drop authority_end chunk
      in mask_authority authority @ after_authority)"

fun boundary_pos :: "string \<Rightarrow> nat" where
  "boundary_pos [] = 0"
| "boundary_pos (c # s) =
     (if ws_len (c # s) \<noteq> 0 \<or> c \<in> set '')\"'><,;'' then 0 else Suc (boundary_pos s))"

lemma boundary_pos_le: "boundary_pos s \<le> length s"
  by (induction s) auto

function scrub_from :: "string \<Rightarrow> string \<Rightarrow> string" where
  "scrub_from out rest =
     (case str_find ''://'' rest of
        None \<Rightarrow> out @ rest
      | Some idx \<Rightarrow>
          let out1 = out @ take (idx + 3) rest;
              tail = drop (idx + 3) rest;
              boundary = boundary_pos tail;
              chunk = take boundary tail
          in scrub_from (out1 @ scrub_chunk chunk) (drop boundary tail))"
  by pat_completeness auto
termination
  by (relation "measure (\<lambda>(out, rest). length rest)") (auto dest: str_find_SomeD)

declare scrub_from.simps [simp del]

definition scrub_credentials :: "string \<Rightarrow> string" where
  "scrub_credentials text = scrub_from [] text"

subsection \<open>Environment variables\<close>

text \<open>The process environment is a map from names to values.\<close>

type_synonym environ = "string \<rightharpoonup> string"

definition env_u64 :: "environ \<Rightarrow> string \<Rightarrow> u64 \<Rightarrow> u64" where
  "env_u64 env key dflt =
     (case Option.bind (env key) (parse_uint 64) of Some n \<Rightarrow> of_nat n | None \<Rightarrow> dflt)"

definition env_string :: "environ \<Rightarrow> string \<Rightarrow> string \<Rightarrow> string" where
  "env_string env key dflt = (case env key of Some v \<Rightarrow> v | None \<Rightarrow> dflt)"

definition env_bool :: "environ \<Rightarrow> string \<Rightarrow> bool \<Rightarrow> bool" where
  "env_bool env key dflt =
     (case env key of
        Some v \<Rightarrow> to_ascii_lowercase v \<in> set [''1'', ''true'', ''yes'', ''on'']
      | None \<Rightarrow> dflt)"

subsection \<open>What masking keeps and hides\<close>

definition no_char :: "char \<Rightarrow> string \<Rightarrow> bool" where
  "no_char c s = (c \<notin> set s)"

text \<open>The parts of a URL with credentials: scheme, user, password, host, and the rest.\<close>

definition plain_authority :: "string \<Rightarrow> bool" where
  "plain_authority s = (\<forall>c\<in>set s. \<not> is_authority_end c)"


lemma plain_authority_append [simp]:
  "plain_authority (s @ t) \<longleftrightarrow> plain_authority s \<and> plain_authority t"
  by (auto simp: plain_authority_def)

lemma plain_authority_Cons [simp]:
  "plain_authority (c # s) \<longleftrightarrow> \<not> is_authority_end c \<and> plain_authority s"
  by (simp add: plain_authority_def)

lemma plain_authority_Nil [simp]: "plain_authority []"
  by (simp add: plain_authority_def)

lemma not_authority_end_colon_at [simp]:
  "\<not> is_authority_end (CHR '':'')" "\<not> is_authority_end (CHR ''@'')"
  by (simp_all add: is_authority_end_def)







lemma scrub_from_acc: "scrub_from out rest = out @ scrub_from [] rest"
proof (induction "length rest" arbitrary: out rest rule: less_induct)
  case less
  show ?case
  proof (cases "str_find ''://'' rest")
    case None
    then show ?thesis by (simp add: scrub_from.simps [of _ rest])
  next
    case (Some idx)
    let ?tail = "drop (idx + 3) rest"
    let ?next = "drop (boundary_pos ?tail) ?tail"
    have "length ?next < length rest"
    proof -
      have "3 \<le> length rest" using str_find_SomeD [OF Some] by simp
      then have "0 < length rest" by linarith
      then show ?thesis by simp
    qed
    then have step: "scrub_from acc ?next = acc @ scrub_from [] ?next" for acc
      by (rule less.hyps)
    let ?done = "take (idx + 3) rest @ scrub_chunk (take (boundary_pos ?tail) ?tail)"
    have unfold: "scrub_from acc rest = scrub_from (acc @ ?done) ?next" for acc
      by (subst scrub_from.simps) (simp add: Some Let_def del: drop_drop)
    show ?thesis
      by (simp only: unfold step [of "out @ ?done"] step [of ?done] append_Nil append_assoc)
  qed
qed

text \<open>The loop of \<^verbatim>\<open>scrub_credentials\<close>, one URL at a time.\<close>

lemma scrub_credentials_None:
  "str_find ''://'' text = None \<Longrightarrow> scrub_credentials text = text"
  by (simp add: scrub_credentials_def scrub_from.simps)

lemma scrub_credentials_Some:
  assumes "str_find ''://'' text = Some idx"
  shows "scrub_credentials text =
    (let tail = drop (idx + 3) text; b = boundary_pos tail
     in take (idx + 3) text @ scrub_chunk (take b tail) @ scrub_credentials (drop b tail))"
  unfolding scrub_credentials_def
  by (subst scrub_from.simps, subst scrub_from_acc) (simp add: assms Let_def del: drop_drop)




subsection \<open>Texts with URLs in them\<close>







text \<open>The userinfo is looked for in front of the first slash, so a password with one in it is shown.\<close>

lemma password_with_slash_shown:
  "sanitize_url ''http://joe:a/b@h:80'' = ''http://joe:a/b@h:80''"
  "scrub_credentials ''http://joe:a/b@h:80'' = ''http://joe:a/b@h:80''"
proof -
  show "sanitize_url ''http://joe:a/b@h:80'' = ''http://joe:a/b@h:80''"
    by (simp add: sanitize_url_def find_or_len_def is_authority_end_def)
  have "scrub_credentials [] = []" by (rule scrub_credentials_None) simp
  then show "scrub_credentials ''http://joe:a/b@h:80'' = ''http://joe:a/b@h:80''"
    by (subst scrub_credentials_Some [of _ 4])
      (simp_all add: scrub_chunk_def find_or_len_def is_authority_end_def mask_authority_def ws_len_def)
qed

subsection \<open>Properties\<close>



end
