(* ===== verification/ProxyCommon.thy ===== *)
theory ProxyCommon
  imports Http Util
begin

text \<open>
  The crate \<^verbatim>\<open>proxy-common\<close>: CORS headers, the header filters, the plain
  responses, the reading of a target from \<^verbatim>\<open>X-Target\<close> and of the port from the environment.
  The URL and base64 libraries are fields of \<open>libs\<close>. The filters are stated on
  \<open>header_vals\<close>: which values of which names survive.
\<close>

record 'u url_ops =
  uo_parse :: "string \<Rightarrow> 'u option"
  uo_scheme :: "'u \<Rightarrow> string"
  uo_host :: "'u \<Rightarrow> string option"
  uo_port :: "'u \<Rightarrow> u16 option"
  uo_path :: "'u \<Rightarrow> string"
  uo_query :: "'u \<Rightarrow> string option"
  uo_join :: "'u \<Rightarrow> string \<Rightarrow> 'u option"
  uo_string :: "'u \<Rightarrow> string"

record ('h, 'u) libs =
  lb_headers :: "'h header_ops"
  lb_url :: "'u url_ops"
  lb_b64_encode :: "string \<Rightarrow> string"
  lb_b64_decode :: "string \<Rightarrow> string option"

subsection \<open>Responses\<close>

text \<open>
  A reply to the client. Its body is text, or the output of a streaming task of type
  \<open>'j\<close> that runs after the reply has been handed over.
\<close>

datatype 'j reply_body = RB_Full string | RB_Piped 'j

record ('h, 'j) reply =
  rp_status :: u16
  rp_headers :: 'h
  rp_body :: "'j reply_body"

definition cors_headers :: "(string \<times> string) list" where
  "cors_headers =
     [(''access-control-allow-origin'', ''*''),
      (''access-control-allow-methods'', ''GET, POST, PUT, DELETE, OPTIONS''),
      (''access-control-allow-headers'', ''*'')]"

text \<open>\<^verbatim>\<open>(status, String).into_response()\<close>, then the CORS headers and the content type.\<close>

definition typed_response :: "'h header_ops \<Rightarrow> string \<Rightarrow> u16 \<Rightarrow> string \<Rightarrow> ('h, 'j) reply" where
  "typed_response H ctype status body =
     \<lparr>rp_status = status,
      rp_headers =
        ho_insert H ''content-type'' ctype
          (insert_all H cors_headers
            (ho_insert H ''content-type'' ''text/plain; charset=utf-8'' (ho_empty H))),
      rp_body = RB_Full body\<rparr>"

definition text_response :: "'h header_ops \<Rightarrow> u16 \<Rightarrow> string \<Rightarrow> ('h, 'j) reply" where
  "text_response H = typed_response H ''text/plain''"

definition json_response :: "'h header_ops \<Rightarrow> u16 \<Rightarrow> string \<Rightarrow> ('h, 'j) reply" where
  "json_response H = typed_response H ''application/json''"

subsection \<open>Header filters\<close>

definition SKIP_REQUEST_HEADERS :: "string list" where
  "SKIP_REQUEST_HEADERS =
     [''x-target'', ''x-proxy-auth'', ''host'', ''accept-encoding'', ''cf-connecting-ip'', ''cf-ipcountry'',
      ''cf-ray'', ''cf-visitor'', ''x-forwarded-for'', ''x-forwarded-proto'', ''x-real-ip'']"

definition SKIP_RESPONSE_HEADERS :: "string list" where
  "SKIP_RESPONSE_HEADERS =
     [''content-security-policy'', ''x-frame-options'', ''content-encoding'', ''content-length'', ''transfer-encoding'']"

definition filter_request_headers :: "'h header_ops \<Rightarrow> 'h \<Rightarrow> string \<Rightarrow> 'h" where
  "filter_request_headers H headers target_host =
     (let f1 = copy_headers_if H (\<lambda>n. n \<notin> set SKIP_REQUEST_HEADERS) (ho_iter H headers) (ho_empty H);
          f2 = (if ho_value_str H target_host then ho_insert H ''host'' target_host f1 else f1)
      in ho_insert H ''accept-encoding'' ''identity'' f2)"

definition filter_response_headers :: "'h header_ops \<Rightarrow> 'h \<Rightarrow> 'h" where
  "filter_response_headers H headers =
     copy_headers_if H (\<lambda>n. n \<notin> set SKIP_RESPONSE_HEADERS) (ho_iter H headers) (ho_empty H)"

subsection \<open>Targets and ports\<close>

definition is_http_url :: "string \<Rightarrow> bool" where
  "is_http_url u = (starts_with u ''http://'' \<or> starts_with u ''https://'')"

definition decode_target :: "('h, 'u) libs \<Rightarrow> string \<Rightarrow> string option" where
  "decode_target E header_value =
     (case lb_b64_decode E header_value of
        None \<Rightarrow> None
      | Some decoded \<Rightarrow>
          if \<not> utf8_valid decoded then None
          else if is_http_url decoded then Some decoded else None)"

definition port_from_env :: "environ \<Rightarrow> u16 \<Rightarrow> u16" where
  "port_from_env env dflt =
     (case Option.bind (env ''PORT'') (parse_uint 16) of Some n \<Rightarrow> of_nat n | None \<Rightarrow> dflt)"

text \<open>\<^verbatim>\<open>headers.get(name).and_then(|v| v.to_str().ok())\<close>\<close>

definition get_str :: "'h header_ops \<Rightarrow> 'h \<Rightarrow> string \<Rightarrow> string option" where
  "get_str H h n =
     (case ho_get H h n of Some v \<Rightarrow> if ho_to_str H v then Some v else None | None \<Rightarrow> None)"

subsection \<open>Lemmas\<close>

lemma header_vals_filter_request:
  assumes H: "header_laws H"
  shows "header_vals H (filter_request_headers H h host) n =
    (if n = ''accept-encoding'' then [''identity'']
     else if n = ''host'' then (if ho_value_str H host then [host] else [])
     else if n \<in> set SKIP_REQUEST_HEADERS then [] else header_vals H h n)"
proof -
  have ae: "header_ok H ''accept-encoding'' ''identity''"
    by (rule literal_header_ok [OF H]) (simp_all add: literal_name_def visible_ascii_def)
  have host: "header_ok H ''host'' host" if "ho_value_str H host"
    using that H by (simp add: header_ok_def literal_name_ok literal_name_def value_str_bytes)
  show ?thesis
    using host
    by (simp add: filter_request_headers_def Let_def header_vals_insert [OF H ae] header_vals_insert [OF H]
        header_vals_copy_map [OF H] header_vals_empty [OF H])
      (simp add: SKIP_REQUEST_HEADERS_def)
qed

lemma header_vals_filter_response:
  assumes H: "header_laws H"
  shows "header_vals H (filter_response_headers H h) n =
    (if n \<in> set SKIP_RESPONSE_HEADERS then [] else header_vals H h n)"
  by (simp add: filter_response_headers_def header_vals_copy_map [OF H] header_vals_empty [OF H])

lemma decode_target_http: "decode_target E v = Some u \<Longrightarrow> is_http_url u \<and> utf8_valid u"
  by (auto simp: decode_target_def split: option.splits if_splits)

lemma get_str_vals:
  assumes "header_laws H" and "literal_name n"
  shows "get_str H h n =
    (case header_vals H h n of [] \<Rightarrow> None | v # vs \<Rightarrow> if ho_to_str H v then Some v else None)"
  using assms by (simp add: get_str_def ho_get_vals literal_name_ok split: list.split)

lemma cors_headers_ok:
  assumes "header_laws H"
  shows "\<forall>(n, v)\<in>set cors_headers. header_ok H n v"
  using assms
  by (auto simp: cors_headers_def intro!: literal_header_ok) (simp_all add: literal_name_def visible_ascii_def)

end
