(* ===== verification/Upstream.thy ===== *)
theory Upstream
  imports Util
begin

text \<open>
  \<^verbatim>\<open>intermediate-proxy/src/upstream/mod.rs\<close>: the kind of an upstream proxy, read off its
  URL scheme, with the settings of the HTTP client built for it. Building a client and parsing a
  proxy URL are calls into the HTTP library; whether they succeed is a parameter
  (\<open>proxy_all_ok\<close>, \<open>build_ok\<close>), and where the source says \<^verbatim>\<open>expect\<close> their
  failure is a panic, which the release profile turns into an abort of the process.
\<close>

datatype panic = Panic string

datatype proxy_setting = SystemProxy | NoProxy | ProxyAll string

record client_cfg =
  cc_http1_only :: bool
  cc_connect_timeout_s :: nat
  cc_pool_max_idle_per_host :: nat
  cc_pool_idle_timeout_s :: nat
  cc_tcp_keepalive_s :: nat
  cc_tcp_nodelay :: bool
  cc_follow_redirects :: bool
  cc_proxy :: proxy_setting

datatype upstream_kind =
    Endpoint string client_cfg
  | HttpProxy client_cfg
  | Socks5 client_cfg

record upstream =
  us_kind :: upstream_kind

definition base_client_builder :: client_cfg where
  "base_client_builder =
     \<lparr>cc_http1_only = True, cc_connect_timeout_s = 5, cc_pool_max_idle_per_host = 256,
      cc_pool_idle_timeout_s = 90, cc_tcp_keepalive_s = 30, cc_tcp_nodelay = True,
      cc_follow_redirects = False, cc_proxy = SystemProxy\<rparr>"

definition proxied_client :: "(string \<Rightarrow> bool) \<Rightarrow> (client_cfg \<Rightarrow> bool) \<Rightarrow> string \<Rightarrow> string \<Rightarrow> string
    \<Rightarrow> panic + client_cfg" where
  "proxied_client proxy_all_ok build_ok url bad_url bad_build =
     (if \<not> proxy_all_ok url then Inl (Panic bad_url)
      else let cfg = base_client_builder\<lparr>cc_proxy := ProxyAll url\<rparr>
           in if build_ok cfg then Inr cfg else Inl (Panic bad_build))"

definition parse_upstream :: "(string \<Rightarrow> bool) \<Rightarrow> (client_cfg \<Rightarrow> bool) \<Rightarrow> string \<Rightarrow> panic + upstream" where
  "parse_upstream proxy_all_ok build_ok url =
     (let url_trimmed = trim url in
      if starts_with url_trimmed ''socks5://'' then
        (case proxied_client proxy_all_ok build_ok url_trimmed
            ''invalid socks5 proxy URL'' ''failed to build socks5 client'' of
           Inl p \<Rightarrow> Inl p
         | Inr c \<Rightarrow> Inr \<lparr>us_kind = Socks5 c\<rparr>)
      else if starts_with url_trimmed ''forward://'' then
        (case proxied_client proxy_all_ok build_ok
            (''http://'' @ drop (length ''forward://'') url_trimmed)
            ''invalid forward proxy URL'' ''failed to build http proxy client'' of
           Inl p \<Rightarrow> Inl p
         | Inr c \<Rightarrow> Inr \<lparr>us_kind = HttpProxy c\<rparr>)
      else
        (let cfg = base_client_builder\<lparr>cc_proxy := NoProxy\<rparr>
         in if build_ok cfg then Inr \<lparr>us_kind = Endpoint url_trimmed cfg\<rparr>
            else Inl (Panic ''failed to build endpoint client'')))"

definition upstream_client :: "upstream \<Rightarrow> client_cfg" where
  "upstream_client u = (case us_kind u of Endpoint _ c \<Rightarrow> c | HttpProxy c \<Rightarrow> c | Socks5 c \<Rightarrow> c)"

lemma proxied_client_cfg:
  "proxied_client pa bo url e1 e2 = Inr c \<Longrightarrow> c = base_client_builder\<lparr>cc_proxy := ProxyAll url\<rparr>"
  by (auto simp: proxied_client_def Let_def split: if_splits)

lemma parse_upstream_client:
  assumes "parse_upstream pa bo url = Inr u"
  shows "cc_http1_only (upstream_client u) \<and> \<not> cc_follow_redirects (upstream_client u)
       \<and> cc_proxy (upstream_client u) \<noteq> SystemProxy"
  using assms
  by (auto simp: parse_upstream_def Let_def upstream_client_def base_client_builder_def
      dest!: proxied_client_cfg split: if_splits sum.splits)

lemma parse_upstream_panic_iff:
  assumes "\<And>c. bo c"
  shows "(\<exists>p. parse_upstream pa bo url = Inl p) \<longleftrightarrow>
    (starts_with (trim url) ''socks5://'' \<and> \<not> pa (trim url))
    \<or> (\<not> starts_with (trim url) ''socks5://'' \<and> starts_with (trim url) ''forward://''
       \<and> \<not> pa (''http://'' @ drop 10 (trim url)))"
  using assms by (auto simp: parse_upstream_def Let_def proxied_client_def numeral_eq_Suc split: sum.splits if_splits)

end
