(* ===== verification/Forward.thy ===== *)
theory Forward
  imports ProxyCommon Upstream
begin

text \<open>
  \<^verbatim>\<open>intermediate-proxy/src/forward.rs\<close> and \<^verbatim>\<open>upstream/endpoint.rs\<close>,
  \<^verbatim>\<open>http_proxy.rs\<close>, \<^verbatim>\<open>socks.rs\<close>: from a client request to the request that leaves for an
  upstream. The models build that request (\<open>out_request\<close>); executing it is the HTTP library's, a parameter
  of the components that call it. A response body is the list of its chunks, an error chunk
  standing for a broken transfer.
\<close>

record http_error =
  he_chain :: "string list"
  he_connect :: bool

record 'h out_request =
  or_client :: client_cfg
  or_method :: string
  or_url :: string
  or_headers :: 'h
  or_body :: "string option"

type_synonym body_stream = "(http_error + string) list"

record 'h http_resp =
  rsp_status :: u16
  rsp_headers :: 'h
  rsp_body :: body_stream

text \<open>What a request under a timeout gives: a response, an error, or the timeout.\<close>

datatype 'h http_result = HR_Ok "'h http_resp" | HR_Err http_error | HR_Timeout

text \<open>Reading a whole body: the chunks joined, or the first error.\<close>

fun read_all :: "body_stream \<Rightarrow> http_error + string" where
  "read_all [] = Inr []"
| "read_all (Inl e # cs) = Inl e"
| "read_all (Inr b # cs) = (case read_all cs of Inl e \<Rightarrow> Inl e | Inr r \<Rightarrow> Inr (b @ r))"

subsection \<open>Describing an error\<close>

definition arrow :: string where
  "arrow = [CHR '' '', byte_char 226, byte_char 134, byte_char 146, CHR '' '']"

fun join_with :: "string \<Rightarrow> string list \<Rightarrow> string" where
  "join_with sep [] = []"
| "join_with sep [s] = s"
| "join_with sep (s # r # rs) = s @ sep @ join_with sep (r # rs)"

definition describe_reqwest_error :: "http_error \<Rightarrow> string" where
  "describe_reqwest_error err =
     (let parts = fold (\<lambda>s ps. if s \<in> set ps then ps else ps @ [s]) (he_chain err) [];
          parts1 = (if 1 < length parts then tl parts else parts)
      in join_with arrow parts1)"

subsection \<open>Endpoint upstreams\<close>

definition ENDPOINT_SKIP_HEADERS :: "string list" where
  "ENDPOINT_SKIP_HEADERS =
     [''host'', ''accept-encoding'', ''content-length'', ''transfer-encoding'', ''connection'', ''keep-alive'',
      ''proxy-connection'', ''te'', ''trailer'', ''upgrade'', ''cf-connecting-ip'', ''cf-ipcountry'', ''cf-ray'',
      ''cf-visitor'', ''x-forwarded-for'', ''x-forwarded-proto'', ''x-forwarded-host'', ''x-real-ip'']"

text \<open>The guard \<^verbatim>\<open>if let (Ok(n), Ok(v))\<close> around each copied header.\<close>

definition revalidate :: "'h header_ops \<Rightarrow> string \<times> string \<Rightarrow> (string \<times> string) option" where
  "revalidate H e =
     (case ho_name H (fst e) of
        Some n \<Rightarrow> if ho_value_bytes H (snd e) then Some (n, snd e) else None
      | None \<Rightarrow> None)"

definition with_body :: "string \<Rightarrow> string \<Rightarrow> string option" where
  "with_body meth body =
     (if meth \<noteq> ''GET'' \<and> meth \<noteq> ''HEAD'' \<and> body \<noteq> [] then Some body else None)"

definition endpoint_forward :: "'h header_ops \<Rightarrow> client_cfg \<Rightarrow> string \<Rightarrow> string \<Rightarrow> 'h \<Rightarrow> string
    \<Rightarrow> 'h option \<Rightarrow> 'h out_request" where
  "endpoint_forward H client endpoint_url meth headers body extra =
     (let copied = List.map_filter (revalidate H)
             (filter (\<lambda>e. fst e \<notin> set ENDPOINT_SKIP_HEADERS) (ho_iter H headers));
          h1 = copy_headers_if H (\<lambda>_. True) copied (ho_empty H);
          h2 = (case extra of
              Some x \<Rightarrow> insert_all H (List.map_filter (revalidate H) (ho_iter H x)) h1
            | None \<Rightarrow> h1);
          h3 = ho_insert H ''accept-encoding'' ''identity'' h2
      in \<lparr>or_client = client, or_method = meth, or_url = endpoint_url, or_headers = h3,
          or_body = with_body meth body\<rparr>)"

subsection \<open>Forward and SOCKS5 proxies\<close>

definition direct_forward :: "('h, 'u) libs \<Rightarrow> client_cfg \<Rightarrow> string \<Rightarrow> string \<Rightarrow> 'h \<Rightarrow> string
    \<Rightarrow> 'h option \<Rightarrow> 'h out_request" where
  "direct_forward E client target_url meth headers body extra =
     (let H = lb_headers E;
          host = unwrap_or (Option.bind (uo_parse (lb_url E) target_url) (uo_host (lb_url E))) [];
          filtered = filter_request_headers H headers host;
          filtered1 = (case extra of Some x \<Rightarrow> insert_all H (ho_iter H x) filtered | None \<Rightarrow> filtered);
          req_headers = copy_headers_if H (\<lambda>_. True)
            (List.map_filter (revalidate H) (ho_iter H filtered1)) (ho_empty H)
      in \<lparr>or_client = client, or_method = meth, or_url = target_url, or_headers = req_headers,
          or_body = with_body meth body\<rparr>)"

definition http_proxy_forward :: "('h, 'u) libs \<Rightarrow> client_cfg \<Rightarrow> string \<Rightarrow> string \<Rightarrow> 'h \<Rightarrow> string
    \<Rightarrow> 'h option \<Rightarrow> 'h out_request" where
  "http_proxy_forward E client target_url meth headers body extra =
     direct_forward E client target_url meth headers body extra"

definition socks_forward :: "('h, 'u) libs \<Rightarrow> client_cfg \<Rightarrow> string \<Rightarrow> string \<Rightarrow> 'h \<Rightarrow> string
    \<Rightarrow> 'h option \<Rightarrow> 'h out_request" where
  "socks_forward E client target_url meth headers body extra =
     direct_forward E client target_url meth headers body extra"

definition x_target :: "('h, 'u) libs \<Rightarrow> 'h \<Rightarrow> string" where
  "x_target E headers =
     unwrap_or (decode_target E (unwrap_or (get_str (lb_headers E) headers ''x-target'') [])) []"

definition send_to_upstream :: "('h, 'u) libs \<Rightarrow> upstream \<Rightarrow> string \<Rightarrow> 'h \<Rightarrow> string
    \<Rightarrow> 'h option \<Rightarrow> 'h out_request" where
  "send_to_upstream E u meth headers body extra =
     (case us_kind u of
        Endpoint url client \<Rightarrow> endpoint_forward (lb_headers E) client url meth headers body extra
      | HttpProxy client \<Rightarrow> http_proxy_forward E client (x_target E headers) meth headers body extra
      | Socks5 client \<Rightarrow> socks_forward E client (x_target E headers) meth headers body extra)"

subsection \<open>Probes\<close>

record probe_reply =
  pr_status :: u16
  pr_headers :: "(string \<times> string) list"
  pr_body_preview :: "string option"

text \<open>The headers of a probe.\<close>

definition probe_headers :: "('h, 'u) libs \<Rightarrow> string \<Rightarrow> (string \<times> string) list \<Rightarrow> 'h" where
  "probe_headers E probe_url extra =
     (let H = lb_headers E;
          encoded = lb_b64_encode E probe_url;
          h1 = (if ho_value_str H encoded then ho_insert H ''x-target'' encoded (ho_empty H) else ho_empty H);
          h2 = ho_insert H ''accept'' ''*/*'' h1
      in fold (\<lambda>(name, value) h.
            (case ho_name H name of
               Some n \<Rightarrow> if ho_value_str H value then ho_insert H n value h else h
             | None \<Rightarrow> h)) extra h2)"

definition str_header_pairs :: "'h header_ops \<Rightarrow> 'h \<Rightarrow> (string \<times> string) list" where
  "str_header_pairs H h =
     map (\<lambda>(k, v). (to_ascii_lowercase k, v)) (filter (\<lambda>e. ho_to_str H (snd e)) (ho_iter H h))"

text \<open>
  Reading the answer; \<open>in_time\<close> says whether the body arrived within the second timeout.
\<close>

definition probe_answer :: "('h, 'u) libs \<Rightarrow> u64 \<Rightarrow> u64 \<Rightarrow> bool \<Rightarrow> 'h http_result \<Rightarrow> string + probe_reply" where
  "probe_answer E timeout_ms capture_bytes in_time res =
     (case res of
        HR_Err e \<Rightarrow> Inl (describe_reqwest_error e)
      | HR_Timeout \<Rightarrow> Inl (''timeout '' @ show_nat (unat timeout_ms) @ ''ms'')
      | HR_Ok resp \<Rightarrow> Inr
          \<lparr>pr_status = rsp_status resp,
           pr_headers = str_header_pairs (lb_headers E) (rsp_headers resp),
           pr_body_preview =
             (if 0 < capture_bytes
              then (if in_time
                    then (case read_all (rsp_body resp) of
                        Inr b \<Rightarrow> Some (from_utf8_lossy (take (unat capture_bytes) b))
                      | Inl _ \<Rightarrow> None)
                    else None)
              else None)\<rparr>)"

definition probe_request :: "('h, 'u) libs \<Rightarrow> ('h out_request \<Rightarrow> 'h http_result \<times> bool) \<Rightarrow> upstream \<Rightarrow> string
    \<Rightarrow> u64 \<Rightarrow> u64 \<Rightarrow> (string \<times> string) list \<Rightarrow> string + probe_reply" where
  "probe_request E net u probe_url timeout_ms capture_bytes extra =
     (let (res, in_time) = net (send_to_upstream E u ''GET'' (probe_headers E probe_url extra) [] None)
      in probe_answer E timeout_ms capture_bytes in_time res)"

subsection \<open>What leaves for an upstream\<close>

lemma revalidate_iter:
  assumes "header_laws H"
  shows "List.map_filter (revalidate H) (filter P (ho_iter H h)) = filter P (ho_iter H h)"
proof -
  have "List.map_filter (revalidate H) es = es" if "\<forall>(n, v)\<in>set es. header_ok H n v" for es
    using that by (induction es) (auto simp: map_filter_simps revalidate_def header_ok_def)
  moreover have "\<forall>(n, v)\<in>set (filter P (ho_iter H h)). header_ok H n v"
    using ho_iter_ok [OF assms] by auto
  ultimately show ?thesis by blast
qed

lemma revalidate_iter_all:
  "header_laws H \<Longrightarrow> List.map_filter (revalidate H) (ho_iter H h) = ho_iter H h"
  using revalidate_iter [of H "\<lambda>_. True" h] by simp

lemma copy_filtered:
  "copy_headers_if H (\<lambda>_. True) (filter (\<lambda>e. keep (fst e)) es) h = copy_headers_if H keep es h"
  unfolding copy_headers_if_def by (induction es arbitrary: h) auto

lemma identity_ok:
  assumes "header_laws H"
  shows "header_ok H ''accept-encoding'' ''identity''"
  by (rule literal_header_ok [OF assms]) (simp_all add: literal_name_def visible_ascii_def)

lemma header_vals_insert_map:
  assumes "header_laws H"
  shows "header_vals H (insert_all H (ho_iter H x) h) n =
    (let vs = header_vals H x n in if vs = [] then header_vals H h n else [last vs])"
proof -
  have "\<forall>(n, v)\<in>set (ho_iter H x). header_ok H n v" using ho_iter_ok [OF assms] by blast
  from header_vals_insert_all [OF assms this] show ?thesis by (simp add: header_vals_def)
qed

text \<open>The extra headers override; the client's headers come through unless they are on the list.\<close>

definition override_vals :: "'h header_ops \<Rightarrow> 'h option \<Rightarrow> string \<Rightarrow> string list \<Rightarrow> string list" where
  "override_vals H extra n base =
     (case extra of
        None \<Rightarrow> base
      | Some x \<Rightarrow> (let vs = header_vals H x n in if vs = [] then base else [last vs]))"

lemma header_vals_endpoint:
  assumes "header_laws H"
  shows "header_vals H (or_headers (endpoint_forward H c u m h b extra)) n =
    (if n = ''accept-encoding'' then [''identity'']
     else override_vals H extra n (if n \<in> set ENDPOINT_SKIP_HEADERS then [] else header_vals H h n))"
  by (cases extra)
    (simp_all add: endpoint_forward_def override_vals_def Let_def header_vals_insert [OF assms identity_ok [OF assms]]
      revalidate_iter [OF assms] revalidate_iter_all [OF assms]
      copy_filtered [of H "\<lambda>n. n \<notin> set ENDPOINT_SKIP_HEADERS"] header_vals_copy_map [OF assms]
      header_vals_empty [OF assms] header_vals_insert_map [OF assms])

lemma header_vals_direct:
  assumes "header_laws (lb_headers E)"
  shows "header_vals (lb_headers E) (or_headers (direct_forward E c u m h b extra)) n =
    override_vals (lb_headers E) extra n
      (header_vals (lb_headers E)
        (filter_request_headers (lb_headers E) h
          (unwrap_or (Option.bind (uo_parse (lb_url E) u) (uo_host (lb_url E))) [])) n)"
  by (cases extra)
    (simp_all add: direct_forward_def override_vals_def Let_def revalidate_iter_all [OF assms]
      header_vals_copy_map [OF assms] header_vals_empty [OF assms] header_vals_insert_map [OF assms])

definition skip_list :: "upstream \<Rightarrow> string list" where
  "skip_list u = (case us_kind u of Endpoint _ _ \<Rightarrow> ENDPOINT_SKIP_HEADERS | _ \<Rightarrow> SKIP_REQUEST_HEADERS)"

subsection \<open>Properties\<close>

text \<open>
  C22: The request that leaves for an upstream asks for the identity encoding exactly once. Every other
  client header apart from the host arrives with all its values in order, unless it is on the skip
  list of the upstream's kind, in which case none of its values does; the client's own host never
  leaves.
\<close>

theorem upstream_request_headers:
  assumes "header_laws (lb_headers E)"
  shows "header_vals (lb_headers E) (or_headers (send_to_upstream E u meth h body None)) ''accept-encoding'' = [''identity'']
    \<and> (n \<noteq> ''accept-encoding'' \<and> n \<noteq> ''host'' \<longrightarrow>
        header_vals (lb_headers E) (or_headers (send_to_upstream E u meth h body None)) n
        = (if n \<in> set (skip_list u) then [] else header_vals (lb_headers E) h n))
    \<and> header_vals (lb_headers E) (or_headers (send_to_upstream E u meth h body None)) ''host''
        = (case us_kind u of
             Endpoint _ _ \<Rightarrow> []
           | _ \<Rightarrow> let host = unwrap_or (Option.bind (uo_parse (lb_url E) (x_target E h)) (uo_host (lb_url E))) []
                 in if ho_value_str (lb_headers E) host then [host] else [])"
proof (cases "us_kind u")
  case (Endpoint url c)
  then show ?thesis
    by (simp add: send_to_upstream_def skip_list_def header_vals_endpoint [OF assms] override_vals_def)
      (simp add: ENDPOINT_SKIP_HEADERS_def)
next
  case (HttpProxy c)
  then show ?thesis
    by (simp add: send_to_upstream_def http_proxy_forward_def skip_list_def header_vals_direct [OF assms]
        header_vals_filter_request [OF assms] override_vals_def Let_def)
next
  case (Socks5 c)
  then show ?thesis
    by (simp add: send_to_upstream_def socks_forward_def skip_list_def header_vals_direct [OF assms]
        header_vals_filter_request [OF assms] override_vals_def Let_def)
qed

text \<open>Concrete libraries: list headers, a URL parser that accepts nothing, no base64.\<close>

definition plain_libs :: "(plain_header_map, unit) libs" where
  "plain_libs =
     \<lparr>lb_headers = plain_headers,
      lb_url = \<lparr>uo_parse = (\<lambda>_. None), uo_scheme = (\<lambda>_. []), uo_host = (\<lambda>_. None), uo_port = (\<lambda>_. None),
                uo_path = (\<lambda>_. []), uo_query = (\<lambda>_. None), uo_join = (\<lambda>_ _. None),
                uo_string = (\<lambda>_. [])\<rparr>,
      lb_b64_encode = (\<lambda>s. s), lb_b64_decode = (\<lambda>s. Some s)\<rparr>"

lemma plain_libs_laws: "header_laws (lb_headers plain_libs)"
  by (simp add: plain_libs_def plain_headers_laws)

lemma upstream_request_headers_witness:
  "header_vals plain_headers
     (or_headers (send_to_upstream plain_libs \<lparr>us_kind = Socks5 base_client_builder\<rparr> ''GET''
        (ph_append ''x-proxy-auth'' ''secret'' ph_empty) [] None)) ''x-proxy-auth'' = []"
  using upstream_request_headers [OF plain_libs_laws, of "\<lparr>us_kind = Socks5 base_client_builder\<rparr>" "''GET''"
      "ph_append ''x-proxy-auth'' ''secret'' ph_empty" "[]" "''x-proxy-auth''"]
  by (simp add: plain_libs_def skip_list_def SKIP_REQUEST_HEADERS_def)

end
