(* ===== verification/Incoming.thy ===== *)
theory Incoming
  imports Forward
begin

text \<open>
  What the web framework hands to the handlers of all four servers: a request with its body still to be read, the
  reading of a body under a limit, and the class of redirect statuses.
\<close>

record 'h incoming =
  in_method :: string
  in_headers :: 'h
  in_body :: body_stream

text \<open>\<^verbatim>\<open>axum::body::to_bytes\<close>\<close>

definition to_bytes :: "nat \<Rightarrow> body_stream \<Rightarrow> string option" where
  "to_bytes limit cs = (case read_all cs of Inl _ \<Rightarrow> None | Inr b \<Rightarrow> if length b \<le> limit then Some b else None)"

definition is_redirection :: "u16 \<Rightarrow> bool" where
  "is_redirection status = (300 \<le> status \<and> status \<le> 399)"

end
