(* ===== verification/Entry.thy ===== *)
theory Entry
  imports Upstream
begin

text \<open>
  \<^verbatim>\<open>intermediate-proxy/src/proxy/entry.rs\<close>: the health of one proxy, per route
  (\<open>route_state\<close>) and overall (\<open>entry\<close>). Each operation of the source is a function from the
  old record to the new one; the clock reading of \<^verbatim>\<open>now_ms\<close> is an argument. Counters are
  words of the source's width. The lemmas: how long a ban lasts, what lifts it, the range of the
  latency average, the length of a stored reason, and the counting of transport-fatal transitions.
\<close>

type_synonym route_id = u32

subsection \<open>Statistics records\<close>

record global_stats =
  gs_success_count :: u64
  gs_error_count :: u64
  gs_usage_count :: u64
  gs_last_success_ms :: u64
  gs_last_error_ms :: u64

record route_state =
  rs_banned_until_ms :: u64
  rs_consecutive_failures :: u32
  rs_consecutive_successes :: u32
  rs_avg_latency_ms :: u64
  rs_last_latency_ms :: u64
  rs_success_count :: u64
  rs_error_count :: u64
  rs_last_success_ms :: u64
  rs_last_error_ms :: u64
  rs_last_probe_ms :: u64
  rs_ban_count :: u64
  rs_last_error_reason :: "string option"

definition global_stats_default :: global_stats where
  "global_stats_default =
     \<lparr>gs_success_count = 0, gs_error_count = 0, gs_usage_count = 0,
      gs_last_success_ms = 0, gs_last_error_ms = 0\<rparr>"

definition route_state_default :: route_state where
  "route_state_default =
     \<lparr>rs_banned_until_ms = 0, rs_consecutive_failures = 0, rs_consecutive_successes = 0,
      rs_avg_latency_ms = 0, rs_last_latency_ms = 0, rs_success_count = 0, rs_error_count = 0,
      rs_last_success_ms = 0, rs_last_error_ms = 0, rs_last_probe_ms = 0, rs_ban_count = 0,
      rs_last_error_reason = None\<rparr>"

definition EWMA_NUM :: u64 where "EWMA_NUM = 3"
definition EWMA_DEN :: u64 where "EWMA_DEN = 10"
definition REASON_MAX_LEN :: nat where "REASON_MAX_LEN = 200"

subsection \<open>Operations on a route state\<close>

definition ewma :: "u64 \<Rightarrow> u64 \<Rightarrow> u64" where
  "ewma prev sample =
     (if prev = 0 then sample
      else (EWMA_NUM * sample + (EWMA_DEN - EWMA_NUM) * prev) div EWMA_DEN)"

definition blend_latency :: "u64 \<Rightarrow> route_state \<Rightarrow> route_state" where
  "blend_latency sample_ms st = st\<lparr>rs_avg_latency_ms := ewma (rs_avg_latency_ms st) sample_ms\<rparr>"

text \<open>The loop that walks back to a character boundary; at 0 there always is one.\<close>

fun boundary_before :: "string \<Rightarrow> nat \<Rightarrow> nat" where
  "boundary_before s 0 = 0"
| "boundary_before s (Suc n) =
     (if is_char_boundary s (Suc n) then Suc n else boundary_before s n)"

text \<open>The three bytes of the ellipsis character.\<close>

definition ellipsis :: string where
  "ellipsis = [byte_char 226, byte_char 128, byte_char 166]"

definition trim_reason :: "string \<Rightarrow> string" where
  "trim_reason scrubbed =
     (if REASON_MAX_LEN < length scrubbed
      then take (boundary_before scrubbed REASON_MAX_LEN) scrubbed @ ellipsis
      else scrubbed)"

definition set_reason :: "string \<Rightarrow> route_state \<Rightarrow> route_state" where
  "set_reason reason st =
     st\<lparr>rs_last_error_reason := Some (trim_reason (scrub_credentials reason))\<rparr>"

definition is_banned :: "u64 \<Rightarrow> route_state \<Rightarrow> bool" where
  "is_banned now st = (now < rs_banned_until_ms st)"

definition ban_for :: "u64 \<Rightarrow> u64 \<Rightarrow> route_state \<Rightarrow> route_state" where
  "ban_for now ms st =
     st\<lparr>rs_banned_until_ms := sat_add now ms, rs_ban_count := rs_ban_count st + 1\<rparr>"

definition ban_permanent :: "route_state \<Rightarrow> route_state" where
  "ban_permanent st =
     st\<lparr>rs_banned_until_ms := u64_max, rs_ban_count := rs_ban_count st + 1\<rparr>"

definition clear_ban :: "route_state \<Rightarrow> route_state" where
  "clear_ban st = st\<lparr>rs_banned_until_ms := 0, rs_consecutive_failures := 0\<rparr>"

definition observe_success :: "u64 \<Rightarrow> u64 \<Rightarrow> route_state \<Rightarrow> route_state" where
  "observe_success now latency_ms st =
     blend_latency latency_ms
       (st\<lparr>rs_success_count := rs_success_count st + 1,
           rs_consecutive_failures := 0,
           rs_consecutive_successes := rs_consecutive_successes st + 1,
           rs_last_success_ms := now,
           rs_last_latency_ms := latency_ms\<rparr>)"

definition observe_failure :: "u64 \<Rightarrow> u64 option \<Rightarrow> string \<Rightarrow> u64 \<Rightarrow> route_state \<Rightarrow> route_state" where
  "observe_failure now latency_ms reason slow_ms st =
     (let st1 = st\<lparr>rs_error_count := rs_error_count st + 1,
                   rs_consecutive_successes := 0,
                   rs_consecutive_failures := rs_consecutive_failures st + 1,
                   rs_last_error_ms := now\<rparr>;
          st2 = (case latency_ms of
                   Some l \<Rightarrow> blend_latency (max l (slow_ms + 1)) (st1\<lparr>rs_last_latency_ms := l\<rparr>)
                 | None \<Rightarrow> st1)
      in set_reason reason st2)"

subsection \<open>Entries\<close>

record entry =
  en_url :: string
  en_upstream :: upstream
  en_tags :: "string list"
  en_global :: global_stats
  en_transport_fatal :: bool
  en_transport_fatal_since_ms :: u64
  en_transport_fatal_count :: u64
  en_round_robin :: u64
  en_by_route :: "route_id \<rightharpoonup> route_state"

definition entry_new :: "(string \<Rightarrow> bool) \<Rightarrow> (client_cfg \<Rightarrow> bool) \<Rightarrow> string \<Rightarrow> string list \<Rightarrow> panic + entry" where
  "entry_new proxy_all_ok build_ok url tags =
     (case parse_upstream proxy_all_ok build_ok url of
        Inl p \<Rightarrow> Inl p
      | Inr u \<Rightarrow> Inr
          \<lparr>en_url = url, en_upstream = u, en_tags = tags, en_global = global_stats_default,
           en_transport_fatal = False, en_transport_fatal_since_ms = 0,
           en_transport_fatal_count = 0, en_round_robin = 0, en_by_route = Map.empty\<rparr>)"

definition has_tag :: "string \<Rightarrow> entry \<Rightarrow> bool" where
  "has_tag tag e = (tag \<in> set (en_tags e))"

definition is_reserve :: "entry \<Rightarrow> bool" where
  "is_reserve e = has_tag ''reserve'' e"

definition set_tags :: "string list \<Rightarrow> entry \<Rightarrow> entry" where
  "set_tags tags e = e\<lparr>en_tags := tags\<rparr>"

text \<open>
  \<^verbatim>\<open>route_state\<close> hands out a shared pointer to the state of a route and creates it on
  first use. The model returns the state and the entry that now holds it; later writes through the
  pointer are \<open>upd_route_state\<close>.
\<close>

definition route_state_of :: "route_id \<Rightarrow> entry \<Rightarrow> route_state" where
  "route_state_of rid e = (case en_by_route e rid of Some s \<Rightarrow> s | None \<Rightarrow> route_state_default)"

definition get_route_state :: "route_id \<Rightarrow> entry \<Rightarrow> route_state \<times> entry" where
  "get_route_state rid e =
     (case en_by_route e rid of
        Some s \<Rightarrow> (s, e)
      | None \<Rightarrow> (route_state_default, e\<lparr>en_by_route := (en_by_route e)(rid \<mapsto> route_state_default)\<rparr>))"

definition upd_route_state :: "route_id \<Rightarrow> (route_state \<Rightarrow> route_state) \<Rightarrow> entry \<Rightarrow> entry" where
  "upd_route_state rid f e =
     (let (st, e') = get_route_state rid e in e'\<lparr>en_by_route := (en_by_route e')(rid \<mapsto> f st)\<rparr>)"

definition mark_transport_fatal :: "u64 \<Rightarrow> entry \<Rightarrow> bool \<times> entry" where
  "mark_transport_fatal now e =
     (let was = en_transport_fatal e;
          e1 = e\<lparr>en_transport_fatal := True\<rparr>;
          e2 = (if was then e1
                else e1\<lparr>en_transport_fatal_since_ms := now,
                        en_transport_fatal_count := en_transport_fatal_count e1 + 1\<rparr>)
      in (\<not> was, e2))"

definition clear_transport_fatal :: "entry \<Rightarrow> bool \<times> entry" where
  "clear_transport_fatal e =
     (let was = en_transport_fatal e;
          e1 = e\<lparr>en_transport_fatal := False\<rparr>
      in (was, if was then e1\<lparr>en_transport_fatal_since_ms := 0\<rparr> else e1))"

definition is_transport_fatal_reason :: "string \<Rightarrow> bool" where
  "is_transport_fatal_reason reason =
     (str_contains reason ''client error (Connect)''
      \<or> str_contains reason ''dns error''
      \<or> str_contains reason ''Connection refused'')"

subsection \<open>Facts on route states\<close>

named_theorems rs_defs \<open>the operations on a route state\<close>

lemmas [rs_defs] =
  blend_latency_def set_reason_def is_banned_def ban_for_def ban_permanent_def clear_ban_def
  observe_success_def observe_failure_def Let_def

lemma is_banned_ban_for:
  "is_banned t (ban_for now ms st) \<longleftrightarrow> unat t < min (unat now + unat ms) (2 ^ 64 - 1)"
  by (simp add: rs_defs word_less_nat_alt unat_sat_add)

lemma not_banned_clear [simp]: "\<not> is_banned t (clear_ban st)"
  by (simp add: rs_defs)

lemma is_banned_permanent: "is_banned t (ban_permanent st) \<longleftrightarrow> t \<noteq> u64_max"
  by (simp add: rs_defs u64_max_def word_order.not_eq_extremum)

lemma is_banned_observe [simp]:
  "is_banned t (observe_success now l st) = is_banned t st"
  "is_banned t (observe_failure now lo r s st) = is_banned t st"
  by (simp_all add: rs_defs split: option.split)

lemma failures_observe [simp]:
  "rs_consecutive_failures (observe_success now l st) = 0"
  "rs_consecutive_failures (observe_failure now lo r s st) = rs_consecutive_failures st + 1"
  by (simp_all add: rs_defs split: option.split)

lemma avg_observe [simp]:
  "rs_avg_latency_ms (observe_success now l st) = ewma (rs_avg_latency_ms st) l"
  "rs_avg_latency_ms (observe_failure now None r s st) = rs_avg_latency_ms st"
  "rs_avg_latency_ms (observe_failure now (Some l) r s st) = ewma (rs_avg_latency_ms st) (max l (s + 1))"
  by (simp_all add: rs_defs)

lemma avg_ban [simp]:
  "rs_avg_latency_ms (ban_for now ms st) = rs_avg_latency_ms st"
  "rs_avg_latency_ms (clear_ban st) = rs_avg_latency_ms st"
  by (simp_all add: rs_defs)

lemma failures_ban [simp]:
  "rs_consecutive_failures (ban_for now ms st) = rs_consecutive_failures st"
  "rs_consecutive_failures (clear_ban st) = 0"
  by (simp_all add: rs_defs)

text \<open>The average stays between the old average and the sample, as long as nothing overflows.\<close>

lemma unat_ewma:
  assumes "unat prev < 2 ^ 60" and "unat sample < 2 ^ 60"
  shows "unat (ewma prev sample) =
    (if prev = 0 then unat sample else (3 * unat sample + 7 * unat prev) div 10)"
proof -
  have "unat (3 * sample) = 3 * unat sample" "unat (7 * prev) = 7 * unat prev"
    using assms by (simp_all add: unat_word_ariths)
  moreover from this have "unat (3 * sample + 7 * prev) = 3 * unat sample + 7 * unat prev"
    using assms by (simp add: unat_word_ariths)
  ultimately show ?thesis
    by (simp add: ewma_def EWMA_NUM_def EWMA_DEN_def unat_div)
qed

lemma ewma_bounds:
  assumes "unat prev < 2 ^ 60" and "unat sample < 2 ^ 60" and "prev \<noteq> 0"
  shows "min (unat prev) (unat sample) \<le> unat (ewma prev sample)"
    and "unat (ewma prev sample) \<le> max (unat prev) (unat sample)"
  using assms by (simp_all add: unat_ewma)

lemma ewma_small:
  assumes "unat prev < 2 ^ 60" and "unat sample < 2 ^ 60"
  shows "unat (ewma prev sample) < 2 ^ 60"
  using assms by (auto simp: unat_ewma)

subsection \<open>Stored reasons\<close>

lemma boundary_before_le: "boundary_before s n \<le> n"
  by (induction n) auto

lemma boundary_before_is: "is_char_boundary s (boundary_before s n)"
  by (induction n) (auto simp: is_char_boundary_def)

lemma boundary_before_max:
  "is_char_boundary s i \<Longrightarrow> i \<le> n \<Longrightarrow> i \<le> boundary_before s n"
  by (induction n) (auto simp: le_Suc_eq)

lemma length_trim_reason: "length (trim_reason s) \<le> REASON_MAX_LEN + 3"
  using boundary_before_le [of s REASON_MAX_LEN]
  by (auto simp: trim_reason_def ellipsis_def REASON_MAX_LEN_def)

subsection \<open>Facts on entries\<close>

lemma route_state_fst [simp]: "fst (get_route_state rid e) = route_state_of rid e"
  by (simp add: get_route_state_def route_state_of_def split: option.split)

lemma route_state_of_touch [simp]: "route_state_of r (snd (get_route_state rid e)) = route_state_of r e"
  by (simp add: get_route_state_def route_state_of_def split: option.split)

lemma route_state_frame [simp]:
  "en_url (snd (get_route_state rid e)) = en_url e"
  "en_tags (snd (get_route_state rid e)) = en_tags e"
  "en_upstream (snd (get_route_state rid e)) = en_upstream e"
  "en_global (snd (get_route_state rid e)) = en_global e"
  "en_transport_fatal (snd (get_route_state rid e)) = en_transport_fatal e"
  by (simp_all add: get_route_state_def split: option.split)

lemma route_state_of_upd [simp]:
  "route_state_of r (upd_route_state rid f e) =
     (if r = rid then f (route_state_of rid e) else route_state_of r e)"
  by (simp add: upd_route_state_def get_route_state_def route_state_of_def split: option.split)

lemma upd_route_state_frame [simp]:
  "en_url (upd_route_state rid f e) = en_url e"
  "en_tags (upd_route_state rid f e) = en_tags e"
  "en_upstream (upd_route_state rid f e) = en_upstream e"
  "en_global (upd_route_state rid f e) = en_global e"
  "en_transport_fatal (upd_route_state rid f e) = en_transport_fatal e"
  by (simp_all add: upd_route_state_def get_route_state_def split: option.split)

lemma transport_fatal_mark [simp]:
  "en_transport_fatal (snd (mark_transport_fatal now e))"
  "fst (mark_transport_fatal now e) = (\<not> en_transport_fatal e)"
  "route_state_of r (snd (mark_transport_fatal now e)) = route_state_of r e"
  "en_url (snd (mark_transport_fatal now e)) = en_url e"
  "en_tags (snd (mark_transport_fatal now e)) = en_tags e"
  "en_global (snd (mark_transport_fatal now e)) = en_global e"
  by (simp_all add: mark_transport_fatal_def Let_def route_state_of_def)

lemma transport_fatal_clear [simp]:
  "\<not> en_transport_fatal (snd (clear_transport_fatal e))"
  "fst (clear_transport_fatal e) = en_transport_fatal e"
  "route_state_of r (snd (clear_transport_fatal e)) = route_state_of r e"
  "en_url (snd (clear_transport_fatal e)) = en_url e"
  "en_tags (snd (clear_transport_fatal e)) = en_tags e"
  "en_global (snd (clear_transport_fatal e)) = en_global e"
  by (simp_all add: clear_transport_fatal_def Let_def route_state_of_def)

lemma entry_new_fields:
  assumes "entry_new pa bo url tags = Inr e"
  shows "en_url e = url" and "en_tags e = tags" and "\<not> en_transport_fatal e"
    and "en_by_route e = Map.empty"
  using assms by (auto simp: entry_new_def split: sum.splits)

subsection \<open>Properties\<close>

text \<open>
  How long a ban lasts. A timed ban holds at exactly the clock readings before its end, the sum
  saturating at the largest \<^verbatim>\<open>u64\<close>; a permanent ban holds at every reading but that one; clearing
  lifts every ban; a recorded success or failure alone neither starts nor lifts one.
\<close>

theorem ban_lifecycle:
  "(is_banned t (ban_for now ms st) \<longleftrightarrow> unat t < min (unat now + unat ms) (2 ^ 64 - 1))
   \<and> (is_banned t (ban_permanent st) \<longleftrightarrow> t \<noteq> u64_max)
   \<and> is_banned t (clear_ban st) = False
   \<and> is_banned t (observe_success now lat st) = is_banned t st
   \<and> is_banned t (observe_failure now lat_opt reason slow_ms st) = is_banned t st"
  by (simp add: is_banned_ban_for is_banned_permanent)

text \<open>
  The latency average. As long as neither number reaches 2 to the 60, the new average lies
  between the old one and the sample, and the first sample is taken as it is.
\<close>

lemma latency_average_bounds:
  assumes "unat (rs_avg_latency_ms st) < 2 ^ 60" and "unat sample < 2 ^ 60"
  shows "(rs_avg_latency_ms st = 0 \<longrightarrow> rs_avg_latency_ms (blend_latency sample st) = sample)
    \<and> (rs_avg_latency_ms st \<noteq> 0 \<longrightarrow>
        min (unat (rs_avg_latency_ms st)) (unat sample) \<le> unat (rs_avg_latency_ms (blend_latency sample st))
        \<and> unat (rs_avg_latency_ms (blend_latency sample st)) \<le> max (unat (rs_avg_latency_ms st)) (unat sample))"
proof (cases "rs_avg_latency_ms st = 0")
  case True
  then show ?thesis by (simp add: blend_latency_def ewma_def)
next
  case False
  with assms show ?thesis using ewma_bounds [OF assms] by (simp add: blend_latency_def)
qed

lemma latency_average_bounds_witness:
  "min 40 (100 :: nat) \<le> unat (rs_avg_latency_ms (blend_latency 100 (observe_success 1 40 route_state_default)))"
  using latency_average_bounds [of "observe_success 1 40 route_state_default" 100]
  by (simp add: route_state_default_def ewma_def)

lemma avg_blend: "rs_avg_latency_ms (blend_latency s st) = ewma (rs_avg_latency_ms st) s"
  by (simp add: blend_latency_def)

text \<open>
  C32: The latency average stays in range. After any sequence of samples below 2 to the 60, the average that the tiers and
  the selectors read lies between the smallest and the largest sample, so the arithmetic on 64 bits never wrapped.
\<close>

theorem latency_average_in_range:
  assumes "rs_avg_latency_ms st = 0" and "samples \<noteq> []" and "\<forall>s\<in>set samples. unat s < 2 ^ 60"
  shows "Min (unat ` set samples) \<le> unat (rs_avg_latency_ms (fold blend_latency samples st))
    \<and> unat (rs_avg_latency_ms (fold blend_latency samples st)) \<le> Max (unat ` set samples)"
  using assms(2,3)
proof (induction samples rule: rev_nonempty_induct)
  case (single s)
  then show ?case by (simp add: avg_blend ewma_def assms(1))
next
  case (snoc s samples)
  let ?avg = "rs_avg_latency_ms (fold blend_latency samples st)" and ?S = "unat ` set samples"
  have S: "finite ?S" "?S \<noteq> {}" using snoc.hyps by auto
  have ih: "Min ?S \<le> unat ?avg" "unat ?avg \<le> Max ?S" using snoc by auto
  have "Max ?S < 2 ^ 60" using S snoc.prems by (subst Max_less_iff) auto
  with ih(2) have "unat ?avg < 2 ^ 60" by simp
  moreover have "unat s < 2 ^ 60" using snoc.prems by simp
  ultimately have "min (unat ?avg) (unat s) \<le> unat (ewma ?avg s)" "unat (ewma ?avg s) \<le> max (unat ?avg) (unat s)"
    using ewma_bounds [of ?avg s] by (cases "?avg = 0"; simp add: ewma_def)+
  with ih S show ?case by (simp add: avg_blend min_le_iff_disj le_max_iff_disj) linarith
qed

lemma latency_average_in_range_witness:
  "40 \<le> unat (rs_avg_latency_ms (fold blend_latency [100, 40] route_state_default))"
  using latency_average_in_range [of route_state_default "[100, 40]"] by (simp add: route_state_default_def)

text \<open>
  A stored error reason has at most 203 bytes: it is the scrubbed text, or its longest prefix
  of at most 200 bytes that ends at a character boundary, with an ellipsis.
\<close>

lemma stored_reason_bounded:
  "\<exists>r. rs_last_error_reason (set_reason reason st) = Some r \<and> length r \<le> 203
    \<and> (let s = scrub_credentials reason in
        if length s \<le> REASON_MAX_LEN then r = s
        else (\<exists>n\<le>REASON_MAX_LEN. r = take n s @ ellipsis \<and> is_char_boundary s n
               \<and> filter (\<lambda>i. is_char_boundary s i) [Suc n..<Suc REASON_MAX_LEN] = []))"
proof -
  let ?s = "scrub_credentials reason"
  let ?n = "boundary_before ?s REASON_MAX_LEN"
  have "?n \<le> REASON_MAX_LEN" and "is_char_boundary ?s ?n"
    by (simp_all add: boundary_before_le boundary_before_is)
  moreover have "filter (\<lambda>i. is_char_boundary ?s i) [Suc ?n..<Suc REASON_MAX_LEN] = []"
    using boundary_before_max [of ?s _ REASON_MAX_LEN] by (fastforce simp: filter_empty_conv simp del: upt_Suc)
  moreover have "length (trim_reason ?s) \<le> 203"
    using length_trim_reason [of ?s] by (simp add: REASON_MAX_LEN_def)
  ultimately show ?thesis
    by (auto simp: set_reason_def trim_reason_def Let_def not_le simp del: upt_Suc)
qed

end
