(* ===== verification/Loader.thy ===== *)
theory Loader
  imports Entry
begin

text \<open>
  \<^verbatim>\<open>intermediate-proxy/src/proxy/loader.rs\<close>: the parser of the proxies file. One
  line is parsed by \<open>parse_line\<close>, its tag tokens by \<open>tok_tags\<close>; \<open>merge_proxy\<close>
  is the body's last statement, which merges a repeated URL into its first occurrence. The
  lemmas: the URLs of the result are distinct, in order of first occurrence, its tags are
  distinct and exactly those of the lines of that URL, and a printed list parses back.
\<close>

record parsed_proxy =
  pp_url :: string
  pp_tags :: "string list"

definition push_tag :: "string \<Rightarrow> string list \<Rightarrow> string list" where
  "push_tag t tags = (if t \<in> set tags then tags else tags @ [t])"

definition push_trimmed :: "string \<Rightarrow> string list \<Rightarrow> string list" where
  "push_trimmed raw tags = (let t = trim raw in if t \<noteq> [] then push_tag t tags else tags)"

fun tok_tags :: "string list \<Rightarrow> string list \<Rightarrow> string list" where
  "tok_tags [] tags = tags"
| "tok_tags (tok # it) tags =
     (case strip_prefix ''tags='' tok of
        Some rest \<Rightarrow> tok_tags it (fold push_trimmed (split_on CHR '','' rest) tags)
      | None \<Rightarrow>
          if \<not> starts_with tok ''#'' \<and> tok \<notin> set tags then tok_tags it (tags @ [tok])
          else if starts_with tok ''#'' then tags
          else tok_tags it tags)"

definition parse_line :: "string \<Rightarrow> parsed_proxy option" where
  "parse_line raw =
     (let line = trim raw in
      if line = [] \<or> starts_with line ''#'' then None
      else (case split_whitespace line of
          [] \<Rightarrow> None
        | url # it \<Rightarrow>
            if \<not> str_contains url ''://'' then None
            else Some \<lparr>pp_url = url, pp_tags = tok_tags it []\<rparr>))"

fun merge_proxy :: "parsed_proxy \<Rightarrow> parsed_proxy list \<Rightarrow> parsed_proxy list" where
  "merge_proxy p [] = [p]"
| "merge_proxy p (q # out) =
     (if pp_url q = pp_url p then q\<lparr>pp_tags := fold push_tag (pp_tags p) (pp_tags q)\<rparr> # out
      else q # merge_proxy p out)"

definition parse_step :: "string \<Rightarrow> parsed_proxy list \<Rightarrow> parsed_proxy list" where
  "parse_step raw out = (case parse_line raw of None \<Rightarrow> out | Some p \<Rightarrow> merge_proxy p out)"

definition parse_proxies :: "string \<Rightarrow> parsed_proxy list" where
  "parse_proxies content = fold parse_step (str_lines content) []"

subsection \<open>Tags and URLs\<close>

lemma set_push_tag [simp]: "set (push_tag t tags) = insert t (set tags)"
  by (auto simp: push_tag_def)

lemma distinct_push_tag [simp]: "distinct tags \<Longrightarrow> distinct (push_tag t tags)"
  by (simp add: push_tag_def)

lemma distinct_fold_push_tag: "distinct tags \<Longrightarrow> distinct (fold push_tag ts tags)"
  by (induction ts arbitrary: tags) auto

lemma set_fold_push_tag [simp]: "set (fold push_tag ts tags) = set ts \<union> set tags"
  by (induction ts arbitrary: tags) auto

lemma distinct_fold_push_trimmed: "distinct tags \<Longrightarrow> distinct (fold push_trimmed ts tags)"
  by (induction ts arbitrary: tags) (auto simp: push_trimmed_def Let_def)

lemma distinct_tok_tags: "distinct tags \<Longrightarrow> distinct (tok_tags it tags)"
  by (induction it tags rule: tok_tags.induct)
    (auto simp: distinct_fold_push_trimmed split: option.splits)

lemma parse_line_facts:
  assumes "parse_line raw = Some p"
  shows "distinct (pp_tags p) \<and> str_contains (pp_url p) ''://''"
  using assms by (auto simp: parse_line_def Let_def distinct_tok_tags split: if_splits list.splits)

definition clean_proxies :: "parsed_proxy list \<Rightarrow> bool" where
  "clean_proxies ps =
     (distinct (map pp_url ps)
      \<and> (\<forall>p\<in>set ps. distinct (pp_tags p) \<and> str_contains (pp_url p) ''://''))"

lemma map_url_merge_proxy:
  "map pp_url (merge_proxy p out) = push_tag (pp_url p) (map pp_url out)"
  by (induction out) (auto simp: push_tag_def)

lemma set_merge_proxy:
  "q \<in> set (merge_proxy p out) \<Longrightarrow>
   q = p \<or> q \<in> set out \<or> (\<exists>q0\<in>set out. q = q0\<lparr>pp_tags := fold push_tag (pp_tags p) (pp_tags q0)\<rparr>)"
  by (induction out) (auto split: if_splits)

lemma clean_merge_proxy:
  assumes "clean_proxies out" and "distinct (pp_tags p)" and "str_contains (pp_url p) ''://''"
  shows "clean_proxies (merge_proxy p out)"
  using assms
  by (auto simp: clean_proxies_def map_url_merge_proxy distinct_fold_push_tag dest!: set_merge_proxy)

lemma clean_parse_step: "clean_proxies out \<Longrightarrow> clean_proxies (parse_step raw out)"
  by (auto simp: parse_step_def clean_merge_proxy dest: parse_line_facts split: option.splits)

lemma clean_fold_parse_step: "clean_proxies out \<Longrightarrow> clean_proxies (fold parse_step ls out)"
  by (induction ls arbitrary: out) (auto intro: clean_parse_step)

text \<open>The URLs and tags a file contributes, line by line.\<close>

definition line_proxies :: "string \<Rightarrow> parsed_proxy list" where
  "line_proxies content = List.map_filter parse_line (str_lines content)"

definition tags_for :: "string \<Rightarrow> parsed_proxy list \<Rightarrow> string set" where
  "tags_for url ps = (\<Union>p\<in>{p \<in> set ps. pp_url p = url}. set (pp_tags p))"

lemma tags_for_merge_proxy:
  "tags_for url (merge_proxy p out) = tags_for url (p # out)"
proof (induction out)
  case (Cons q out)
  show ?case
  proof (cases "pp_url q = pp_url p")
    case True
    then show ?thesis by (auto simp: tags_for_def)
  next
    case False
    have "tags_for url (q # merge_proxy p out) = tags_for url [q] \<union> tags_for url (merge_proxy p out)"
      by (auto simp: tags_for_def)
    with False Cons show ?thesis by (auto simp: tags_for_def)
  qed
qed simp

lemma fold_parse_step_eq:
  "fold parse_step ls out = fold merge_proxy (List.map_filter parse_line ls) out"
  by (induction ls arbitrary: out) (auto simp: parse_step_def map_filter_simps split: option.splits)

lemma fold_merge_urls:
  "map pp_url (fold merge_proxy ps out) = fold push_tag (map pp_url ps) (map pp_url out)"
  by (induction ps arbitrary: out) (auto simp: map_url_merge_proxy)

lemma fold_merge_tags:
  "tags_for url (fold merge_proxy ps out) = tags_for url ps \<union> tags_for url out"
proof (induction ps arbitrary: out)
  case (Cons p ps)
  then show ?case by (simp add: tags_for_merge_proxy) (auto simp: tags_for_def)
qed (simp add: tags_for_def)

lemma parse_proxies_eq: "parse_proxies content = fold merge_proxy (line_proxies content) []"
  by (simp add: parse_proxies_def line_proxies_def fold_parse_step_eq)

lemma clean_parse_proxies: "clean_proxies (parse_proxies content)"
proof -
  have "clean_proxies []" by (simp add: clean_proxies_def)
  then show ?thesis by (simp add: parse_proxies_def clean_fold_parse_step)
qed

subsection \<open>Printing\<close>

definition tag_ok :: "string \<Rightarrow> bool" where
  "tag_ok t = (t \<noteq> [] \<and> (\<forall>c\<in>set t. graphic c) \<and> CHR '','' \<notin> set t)"

definition url_ok :: "string \<Rightarrow> bool" where
  "url_ok u = ((\<forall>c\<in>set u. graphic c) \<and> str_contains u ''://'' \<and> \<not> starts_with u ''#'')"

definition proxy_ok :: "parsed_proxy \<Rightarrow> bool" where
  "proxy_ok p = (url_ok (pp_url p) \<and> distinct (pp_tags p) \<and> (\<forall>t\<in>set (pp_tags p). tag_ok t))"

fun join :: "char \<Rightarrow> string list \<Rightarrow> string" where
  "join d [] = []"
| "join d [s] = s"
| "join d (s # r # rs) = s @ d # join d (r # rs)"

definition print_proxy :: "parsed_proxy \<Rightarrow> string" where
  "print_proxy p = pp_url p @ (if pp_tags p = [] then [] else '' tags='' @ join CHR '','' (pp_tags p))"

definition print_proxies :: "parsed_proxy list \<Rightarrow> string" where
  "print_proxies ps = concat (map (\<lambda>p. print_proxy p @ [CHR 0x0A]) ps)"

lemma split_on_join:
  "ts \<noteq> [] \<Longrightarrow> \<forall>t\<in>set ts. d \<notin> set t \<Longrightarrow> split_on d (join d ts) = ts"
  by (induction d ts rule: join.induct) (auto simp: split_on_no_sep split_on_append_sep)

lemma set_join: "set (join d ts) \<subseteq> insert d (\<Union>t\<in>set ts. set t)"
  by (induction d ts rule: join.induct) auto

lemma fold_push_trimmed_tags:
  "\<forall>t\<in>set ts. tag_ok t \<Longrightarrow> distinct (tags @ ts) \<Longrightarrow> fold push_trimmed ts tags = tags @ ts"
proof (induction ts arbitrary: tags)
  case (Cons t ts)
  then have "push_trimmed t tags = tags @ [t]"
    by (auto simp: push_trimmed_def push_tag_def tag_ok_def trim_graphic Let_def)
  with Cons show ?case by simp
qed simp

lemma graphic_join:
  assumes "\<forall>t\<in>set ts. tag_ok t" and "c \<in> set (join CHR '','' ts)"
  shows "graphic c"
  using assms set_join [of "CHR '',''" ts] by (auto simp: tag_ok_def graphic_def)

lemma parse_line_print:
  assumes "proxy_ok p"
  shows "parse_line (print_proxy p) = Some p"
proof -
  have u: "\<forall>c\<in>set (pp_url p). graphic c" "str_contains (pp_url p) ''://''"
      "\<not> starts_with (pp_url p) ''#''" and une: "pp_url p \<noteq> []"
    using assms by (auto simp: proxy_ok_def url_ok_def str_contains_def)
  show ?thesis
  proof (cases "pp_tags p")
    case Nil
    with u une have "split_whitespace (pp_url p) = [pp_url p]"
      using split_whitespace_graphic [of "pp_url p"] by simp
    with Nil u une show ?thesis
      by (simp add: parse_line_def print_proxy_def trim_graphic Let_def)
  next
    case (Cons t ts)
    let ?w = "''tags='' @ join CHR '','' (pp_tags p)"
    have tags: "\<forall>t\<in>set (pp_tags p). tag_ok t" "distinct (pp_tags p)"
      using assms by (auto simp: proxy_ok_def)
    have w: "\<forall>c\<in>set ?w. graphic c"
      using graphic_join [OF tags(1)] by (auto simp: graphic_def)
    have split: "split_whitespace (pp_url p @ CHR '' '' # ?w) = [pp_url p, ?w]"
      using u une w by (intro split_whitespace_two) auto
    have line: "print_proxy p = pp_url p @ CHR '' '' # ?w"
      using Cons by (simp add: print_proxy_def)
    have trim: "trim (pp_url p @ CHR '' '' # ?w) = pp_url p @ CHR '' '' # ?w"
      using u une w by (intro trim_graphic_ends) auto
    have "fold push_trimmed (split_on CHR '','' (join CHR '','' (pp_tags p))) [] = pp_tags p"
    proof -
      have "split_on CHR '','' (join CHR '','' (pp_tags p)) = pp_tags p"
        using tags Cons by (intro split_on_join) (auto simp: tag_ok_def)
      with tags show ?thesis by (simp add: fold_push_trimmed_tags)
    qed
    then have "tok_tags [?w] [] = pp_tags p"
      by (simp add: strip_prefix_def)
    moreover have "\<not> starts_with (pp_url p @ CHR '' '' # ?w) ''#''"
      using u(3) une by (cases "pp_url p") (auto simp: starts_with_def)
    ultimately show ?thesis
      using u une unfolding line parse_line_def trim split Let_def by simp
  qed
qed

lemma merge_proxy_fresh: "pp_url p \<notin> pp_url ` set out \<Longrightarrow> merge_proxy p out = out @ [p]"
  by (induction out) auto

lemma fold_merge_distinct:
  "distinct (map pp_url (out @ ps)) \<Longrightarrow> fold merge_proxy ps out = out @ ps"
proof (induction ps arbitrary: out)
  case (Cons p ps)
  then have "merge_proxy p out = out @ [p]" by (intro merge_proxy_fresh) auto
  with Cons show ?case by simp
qed simp

lemma print_proxy_line:
  assumes "proxy_ok p"
  shows "CHR 0x0A \<notin> set (print_proxy p)" and "print_proxy p = [] \<or> last (print_proxy p) \<noteq> CHR 0x0D"
proof -
  have "c \<noteq> CHR 0x0A \<and> c \<noteq> CHR 0x0D" if "c \<in> set (print_proxy p)" for c
    using that assms graphic_join [of "pp_tags p" c]
    by (auto simp: print_proxy_def proxy_ok_def url_ok_def graphic_def split: if_splits)
  then show "CHR 0x0A \<notin> set (print_proxy p)" and "print_proxy p = [] \<or> last (print_proxy p) \<noteq> CHR 0x0D"
    by (blast, metis last_in_set)
qed

lemma line_proxies_print:
  "\<forall>p\<in>set ps. proxy_ok p \<Longrightarrow> line_proxies (print_proxies ps) = ps"
proof (induction ps)
  case (Cons p ps)
  then have "str_lines (print_proxies (p # ps)) = print_proxy p # str_lines (print_proxies ps)"
    by (simp add: print_proxies_def str_lines_line print_proxy_line)
  with Cons show ?case by (simp add: line_proxies_def map_filter_simps parse_line_print)
qed (simp add: line_proxies_def print_proxies_def map_filter_simps)

end
