(* ===== verification/Matcher.thy ===== *)
theory Matcher
  imports RustStr
begin

text \<open>
  \<^verbatim>\<open>intermediate-proxy/src/route/matcher.rs\<close>: the static part of a route's match. A
  compiled regular expression has the type parameter \<open>'r\<close>, and \<open>is_match\<close> is the regex
  library's matcher. \<open>glob_regex\<close> is the translation of a glob to the text of a regular
  expression; \<open>rx_tokens\<close> reads the small regex fragment it emits, \<open>glob_match\<close> is the
  reference matcher on the text of a glob, and \<open>glob_path_matches\<close> says that the two agree for an engine
  that reads the fragment so (\<open>regex_laws\<close>).
\<close>

datatype 'r host_match = HostAny | HostExact string | HostSuffix string | HostRegex 'r

datatype 'r path_match = PathAny | PathPrefix string | PathGlob 'r | PathRegex 'r

record 'r matcher =
  mt_host :: "'r host_match"
  mt_path :: "'r path_match"
  mt_methods :: "string list option"
  mt_has_predicate :: bool

fun host_matches :: "('r \<Rightarrow> string \<Rightarrow> bool) \<Rightarrow> 'r host_match \<Rightarrow> string \<Rightarrow> bool" where
  "host_matches is_match HostAny host = True"
| "host_matches is_match (HostExact h) host = eq_ignore_ascii_case host h"
| "host_matches is_match (HostSuffix sfx) host =
     (let apex = (case strip_prefix ''.'' sfx of Some r \<Rightarrow> r | None \<Rightarrow> sfx)
      in eq_ignore_ascii_case host apex
         \<or> ends_with (to_ascii_lowercase host) (to_ascii_lowercase sfx))"
| "host_matches is_match (HostRegex re) host = is_match re host"

fun path_matches :: "('r \<Rightarrow> string \<Rightarrow> bool) \<Rightarrow> 'r path_match \<Rightarrow> string \<Rightarrow> bool" where
  "path_matches is_match PathAny path = True"
| "path_matches is_match (PathPrefix p) path = starts_with path p"
| "path_matches is_match (PathGlob re) path = is_match re path"
| "path_matches is_match (PathRegex re) path = is_match re path"

definition matches_static :: "('r \<Rightarrow> string \<Rightarrow> bool) \<Rightarrow> 'r matcher \<Rightarrow> string \<Rightarrow> string \<Rightarrow> string \<Rightarrow> bool" where
  "matches_static is_match m host path meth =
     (if \<not> host_matches is_match (mt_host m) host then False
      else if \<not> path_matches is_match (mt_path m) path then False
      else (case mt_methods m of
              Some ms \<Rightarrow> (\<exists>x\<in>set ms. eq_ignore_ascii_case x meth)
            | None \<Rightarrow> True))"

lemma host_suffix_matches_iff:
  assumes "d \<noteq> []"
  shows "host_matches im (HostSuffix (CHR ''.'' # d)) host \<longleftrightarrow>
    (let h = to_ascii_lowercase host; s = to_ascii_lowercase d
     in h = s \<or> (\<exists>sub. h = sub @ CHR ''.'' # s))"
proof -
  have dot: "ascii_lower_char (CHR ''.'') = CHR ''.''"
    by (simp add: ascii_lower_char_def)
  have "prefix (rev (CHR ''.'' # s)) (rev h) \<longleftrightarrow> (\<exists>sub. h = sub @ CHR ''.'' # s)" for s h :: string
    by (metis append.assoc append_Cons append_Nil prefix_def rev.simps(2) rev_append rev_rev_ident suffix_def suffix_to_prefix)
  then show ?thesis
    by (simp add: strip_prefix_def eq_ignore_ascii_case_def ends_with_def Let_def dot del: rev.simps)
qed

subsection \<open>Globs\<close>

text \<open>\<^verbatim>\<open>byte as char\<close> reads a byte as the code point of that number; \<^verbatim>\<open>push\<close> encodes it.\<close>

definition push_byte_as_char :: "char \<Rightarrow> string" where
  "push_byte_as_char c =
     (if byte_of c < 128 then [c]
      else [byte_char (192 + byte_of c div 64), byte_char (128 + byte_of c mod 64)])"

definition rx_special :: "char \<Rightarrow> bool" where
  "rx_special c = (c \<in> set (''.+()|[]{}^$'' @ [CHR 0x5C]))"

fun glob_body :: "string \<Rightarrow> string" where
  "glob_body [] = []"
| "glob_body (c # s) =
     (if c = CHR ''*'' then
        (case s of
           [] \<Rightarrow> ''[^/]*''
         | d # t \<Rightarrow> if d = CHR ''*'' then ''.*'' @ glob_body t else ''[^/]*'' @ glob_body s)
      else if c = CHR ''?'' then ''[^/]'' @ glob_body s
      else (if rx_special c then [CHR 0x5C] else []) @ push_byte_as_char c @ glob_body s)"

definition glob_regex :: "string \<Rightarrow> string" where
  "glob_regex glob = ''^'' @ glob_body glob @ ''$''"

definition glob_to_regex :: "(string \<Rightarrow> string + 'r) \<Rightarrow> string \<Rightarrow> string + 'r" where
  "glob_to_regex regex_new glob = regex_new (glob_regex glob)"

subsection \<open>What a glob means\<close>

text \<open>
  The reference: two stars stand for any text, one for any text without a slash, a question mark for one character other
  than a slash, everything else for itself.
\<close>

fun glob_match :: "string \<Rightarrow> string \<Rightarrow> bool" where
  "glob_match [] path = (path = [])"
| "glob_match (c # g) path =
     (if c = CHR ''*''
      then (if g \<noteq> [] \<and> hd g = CHR ''*''
            then list_ex (\<lambda>n. glob_match (tl g) (drop n path)) [0..<Suc (length path)]
            else list_ex (\<lambda>n. CHR ''/'' \<notin> set (take n path) \<and> glob_match g (drop n path)) [0..<Suc (length path)])
      else (case path of
          [] \<Rightarrow> False
        | d # rest \<Rightarrow> (if c = CHR ''?'' then d \<noteq> CHR ''/'' else d = c) \<and> glob_match g rest))"

subsection \<open>What the regular expression means\<close>

datatype glob_tok = GStarStar | GStar | GQuest | GLit char

text \<open>A reader of the regex fragment: \<open>.*\<close>, \<open>[^/]*\<close>, \<open>[^/]\<close>, an escape, a plain character.\<close>

function rx_tokens :: "string \<Rightarrow> glob_tok list option" where
  "rx_tokens s =
     (if s = [] then Some []
      else if prefix ''.*'' s then map_option ((#) GStarStar) (rx_tokens (drop 2 s))
      else if prefix ''[^/]*'' s then map_option ((#) GStar) (rx_tokens (drop 5 s))
      else if prefix ''[^/]'' s then map_option ((#) GQuest) (rx_tokens (drop 4 s))
      else if hd s = CHR 0x5C then
        (case tl s of [] \<Rightarrow> None | d # t \<Rightarrow> map_option ((#) (GLit d)) (rx_tokens t))
      else if rx_special (hd s) \<or> hd s = CHR ''*'' \<or> hd s = CHR ''?'' then None
      else map_option ((#) (GLit (hd s))) (rx_tokens (tl s)))"
  by pat_completeness auto
termination
proof (relation "measure length", goal_cases)
  case (5 s x21 x22)
  then show ?case by (cases s) auto
qed auto

text \<open>An expression between its anchors, and the texts it matches.\<close>

definition rx_anchored :: "string \<Rightarrow> glob_tok list option" where
  "rx_anchored s =
     (if 2 \<le> length s \<and> hd s = CHR ''^'' \<and> last s = CHR ''$'' then rx_tokens (butlast (tl s)) else None)"

fun tok_match :: "glob_tok list \<Rightarrow> string \<Rightarrow> bool" where
  "tok_match [] s = (s = [])"
| "tok_match (GStarStar # ts) s = list_ex (\<lambda>n. tok_match ts (drop n s)) [0..<Suc (length s)]"
| "tok_match (GStar # ts) s =
     list_ex (\<lambda>n. CHR ''/'' \<notin> set (take n s) \<and> tok_match ts (drop n s)) [0..<Suc (length s)]"
| "tok_match (GQuest # ts) s = (case s of [] \<Rightarrow> False | d # s1 \<Rightarrow> d \<noteq> CHR ''/'' \<and> tok_match ts s1)"
| "tok_match (GLit c # ts) s = (case s of [] \<Rightarrow> False | d # s1 \<Rightarrow> d = c \<and> tok_match ts s1)"

text \<open>What a glob of ASCII characters has to be read as.\<close>

fun glob_tokens :: "string \<Rightarrow> glob_tok list" where
  "glob_tokens [] = []"
| "glob_tokens (c # s) =
     (if c = CHR ''*'' then
        (case s of
           [] \<Rightarrow> [GStar]
         | d # t \<Rightarrow> if d = CHR ''*'' then GStarStar # glob_tokens t else GStar # glob_tokens s)
      else if c = CHR ''?'' then GQuest # glob_tokens s
      else GLit c # glob_tokens s)"

definition ascii :: "string \<Rightarrow> bool" where
  "ascii s = (\<forall>c\<in>set s. byte_of c < 128)"

lemma glob_tokens_star:
  "glob_tokens (CHR ''*'' # g) =
     (if g \<noteq> [] \<and> hd g = CHR ''*'' then GStarStar # glob_tokens (tl g) else GStar # glob_tokens g)"
  by (cases g) simp_all

lemma tok_match_glob: "tok_match (glob_tokens g) path = glob_match g path"
proof (induction g path rule: glob_match.induct)
  case (2 c g path)
  show ?case
  proof (cases "c = CHR ''*''")
    case star: True
    show ?thesis
      unfolding star glob_tokens_star glob_match.simps(2)
      using "2.IH"(1,2) by (auto simp: star list_ex_iff simp del: upt_Suc)
  next
    case False
    then show ?thesis using "2.IH"(3) by (cases path) simp_all
  qed
qed simp

text \<open>
  What the code relies on: a compiled expression of this fragment matches an ASCII text without a newline as \<open>tok_match\<close>
  says.
\<close>

definition ascii_line :: "string \<Rightarrow> bool" where
  "ascii_line s = (ascii s \<and> CHR 0x0A \<notin> set s)"

definition regex_laws :: "(string \<Rightarrow> string + 'r) \<Rightarrow> ('r \<Rightarrow> string \<Rightarrow> bool) \<Rightarrow> bool" where
  "regex_laws regex_new is_match =
     (\<forall>s ts re path. rx_anchored s = Some ts \<longrightarrow> regex_new s = Inr re \<longrightarrow> ascii_line path \<longrightarrow>
        is_match re path = tok_match ts path)"

declare rx_tokens.simps [simp del]

lemma rx_tokens_Nil [simp]: "rx_tokens [] = Some []"
  by (simp add: rx_tokens.simps)

lemma rx_tokens_starstar [simp]:
  "rx_tokens (CHR ''.'' # CHR ''*'' # s) = map_option ((#) GStarStar) (rx_tokens s)"
  by (subst rx_tokens.simps) simp

lemma rx_tokens_star [simp]:
  "rx_tokens (CHR ''['' # CHR ''^'' # CHR ''/'' # CHR '']'' # CHR ''*'' # s) =
     map_option ((#) GStar) (rx_tokens s)"
  by (subst rx_tokens.simps) simp

lemma rx_tokens_quest:
  "(s = [] \<or> hd s \<noteq> CHR ''*'') \<Longrightarrow>
   rx_tokens (CHR ''['' # CHR ''^'' # CHR ''/'' # CHR '']'' # s) = map_option ((#) GQuest) (rx_tokens s)"
  by (subst rx_tokens.simps) (cases s, auto)

lemma rx_tokens_escape [simp]:
  "rx_tokens (CHR 0x5C # d # s) = map_option ((#) (GLit d)) (rx_tokens s)"
  by (subst rx_tokens.simps) simp

definition rx_plain :: "char \<Rightarrow> bool" where
  "rx_plain c = (\<not> rx_special c \<and> c \<noteq> CHR ''*'' \<and> c \<noteq> CHR ''?'')"

lemma rx_tokens_plain [simp]:
  assumes "rx_plain c"
  shows "rx_tokens (c # s) = map_option ((#) (GLit c)) (rx_tokens s)"
proof -
  from assms have "c \<noteq> CHR ''.''" "c \<noteq> CHR ''[''" "c \<noteq> CHR 0x5C"
    by (auto simp: rx_plain_def rx_special_def)
  with assms show ?thesis
    by (subst rx_tokens.simps) (simp add: rx_plain_def)
qed

lemma byte_ge_128_plain: "128 \<le> (of_char c :: nat) \<Longrightarrow> rx_plain c"
  by (auto simp: rx_plain_def rx_special_def)

lemma rx_plain_push:
  assumes "\<not> rx_special c" "c \<noteq> CHR ''*''" "c \<noteq> CHR ''?''"
  shows "\<forall>d\<in>set (push_byte_as_char c). rx_plain d"
proof (cases "(of_char c :: nat) < 128")
  case True
  with assms show ?thesis by (simp add: push_byte_as_char_def rx_plain_def)
next
  case False
  have "(of_char c :: nat) div 64 < 4" by (simp add: less_mult_imp_div_less)
  then have "(of_char (byte_char (192 + of_char c div 64)) :: nat) = 192 + of_char c div 64"
    by (simp add: of_char_of)
  moreover have "(of_char (byte_char (128 + of_char c mod 64)) :: nat) = 128 + of_char c mod 64"
  proof -
    have "(of_char c :: nat) mod 64 < 64" by simp
    then show ?thesis by (simp add: of_char_of)
  qed
  ultimately show ?thesis
    using False by (auto simp: push_byte_as_char_def intro!: byte_ge_128_plain)
qed

lemma rx_special_ascii: "rx_special c \<Longrightarrow> push_byte_as_char c = [c]"
  by (auto simp: rx_special_def push_byte_as_char_def)

lemma rx_tokens_plains:
  "\<forall>d\<in>set ds. rx_plain d \<Longrightarrow> rx_tokens s = Some ts \<Longrightarrow> rx_tokens (ds @ s) = Some (map GLit ds @ ts)"
  by (induction ds) auto

lemma glob_body_hd: "glob_body s = [] \<or> hd (glob_body s) \<noteq> CHR ''*''"
proof (cases s)
  case (Cons c t)
  consider "c = CHR ''*''" | "c = CHR ''?''" | "rx_special c" "c \<noteq> CHR ''*''" "c \<noteq> CHR ''?''"
    | "c \<noteq> CHR ''*''" "c \<noteq> CHR ''?''" "\<not> rx_special c"
    by blast
  then show ?thesis
  proof cases
    case 1
    with Cons show ?thesis by (simp split: list.split)
  next
    case 2
    with Cons show ?thesis by simp
  next
    case 3
    with Cons show ?thesis by simp
  next
    case 4
    then have "\<forall>d\<in>set (push_byte_as_char c). rx_plain d" using rx_plain_push by blast
    moreover have "push_byte_as_char c \<noteq> []" by (simp add: push_byte_as_char_def)
    ultimately show ?thesis
      using Cons 4 by (cases "push_byte_as_char c") (simp_all add: rx_plain_def)
  qed
qed simp

lemma rx_tokens_glob_body: "ascii g \<Longrightarrow> rx_tokens (glob_body g) = Some (glob_tokens g)"
proof (induction g rule: glob_body.induct)
  case (2 c s)
  then have s: "ascii s" "ascii [c]" by (simp_all add: ascii_def)
  then have push: "push_byte_as_char c = [c]" by (simp add: push_byte_as_char_def ascii_def)
  consider "c = CHR ''*''" | "c = CHR ''?''" | "rx_special c" | "c \<noteq> CHR ''*''" "c \<noteq> CHR ''?''" "\<not> rx_special c"
    by blast
  then show ?case
  proof cases
    case 1
    have "ascii (tl s)" using s by (cases s) (simp_all add: ascii_def)
    with 1 "2.IH"(1,2) s show ?thesis by (cases s) auto
  next
    case 2
    with "2.IH" s show ?thesis
      by (simp add: rx_tokens_quest glob_body_hd)
  next
    case 3
    then have "c \<noteq> CHR ''*''" "c \<noteq> CHR ''?''" by (auto simp: rx_special_def)
    with 3 "2.IH" s push show ?thesis by simp
  next
    case 4
    with "2.IH" s push show ?thesis by (simp add: rx_plain_def)
  qed
qed simp

lemma rx_anchored_glob: "ascii g \<Longrightarrow> rx_anchored (glob_regex g) = Some (glob_tokens g)"
  by (simp add: rx_anchored_def glob_regex_def butlast_append rx_tokens_glob_body)

text \<open>
  A byte above 127 is read as the character of that number and encoded again, so such a glob does not even match itself.
\<close>

lemma glob_non_ascii:
  "rx_anchored (glob_regex [CHR 0xC3, CHR 0xA9])
    = Some (map GLit [CHR 0xC3, CHR 0x83, CHR 0xC2, CHR 0xA9])"
  by code_simp

text \<open>
  C25: A glob matches what it should. The regular expression that is compiled for an ASCII glob is anchored at both ends and reads as
  the glob with every special character taken literally; so with an engine that keeps \<open>regex_laws\<close> a path
  matches it exactly if the reference matcher matches the glob.
\<close>

theorem glob_path_matches:
  assumes "regex_laws regex_new is_match" and "glob_to_regex regex_new g = Inr re"
    and "ascii g" and "ascii_line path"
  shows "path_matches is_match (PathGlob re) path = glob_match g path
    \<and> rx_anchored (glob_regex g) = Some (glob_tokens g)"
proof -
  have rx: "rx_anchored (glob_regex g) = Some (glob_tokens g)" using assms(3) by (rule rx_anchored_glob)
  moreover have "regex_new (glob_regex g) = Inr re" using assms(2) by (simp add: glob_to_regex_def)
  ultimately have "is_match re path = tok_match (glob_tokens g) path"
    using assms(1,4) by (simp add: regex_laws_def)
  then show ?thesis by (simp add: tok_match_glob rx)
qed

text \<open>An engine for the fragment.\<close>

definition tok_is_match :: "string \<Rightarrow> string \<Rightarrow> bool" where
  "tok_is_match re path = (case rx_anchored re of Some ts \<Rightarrow> tok_match ts path | None \<Rightarrow> False)"

lemma glob_path_matches_witness:
  "path_matches tok_is_match (PathGlob (glob_regex ''/a.?/*'')) ''/a.b/cd''
   \<and> \<not> path_matches tok_is_match (PathGlob (glob_regex ''/a.?/*'')) ''/aXb/cd''"
proof -
  have laws: "regex_laws Inr tok_is_match" by (simp add: regex_laws_def tok_is_match_def)
  have re: "glob_to_regex Inr ''/a.?/*'' = Inr (glob_regex ''/a.?/*'')" by (simp add: glob_to_regex_def)
  show ?thesis
    using glob_path_matches [OF laws re, of "''/a.b/cd''"] glob_path_matches [OF laws re, of "''/aXb/cd''"]
    by (simp add: ascii_def ascii_line_def upt_rec)
qed

end
