(* ===== verification/RouteDef.thy ===== *)
theory RouteDef
  imports Matcher Entry
begin

text \<open>
  The data of a route, \<^verbatim>\<open>intermediate-proxy/src/route/config.rs\<close> lines 10 to 93: selectors,
  hedge and probe settings, hook flags and the route record itself. Sizes and times are words of
  the source's width. The route's round-robin cursor, an atomic the plan builder advances, is
  threaded through the operations that use it; the field holds its initial value.
\<close>

datatype selector_kind = KBestLatency | KRoundRobin | KRandom | KHedge

datatype selector = BestLatency | RoundRobin | Random | StickyByHeader string | Hedge

fun kind_of_selector :: "selector \<Rightarrow> selector_kind" where
  "kind_of_selector BestLatency = KBestLatency"
| "kind_of_selector RoundRobin = KRoundRobin"
| "kind_of_selector Random = KRandom"
| "kind_of_selector (StickyByHeader _) = KBestLatency"
| "kind_of_selector Hedge = KHedge"

record hedge_cfg =
  hg_max_parallel :: u64
  hg_delay_ms :: u64

record probe_cfg =
  pb_url :: string
  pb_interval_ms :: u64
  pb_ok_statuses :: "u16 list"
  pb_has_classify :: bool
  pb_headers :: "(string \<times> string) list"

record hook_flags =
  hk_on_request :: bool
  hk_on_response :: bool
  hk_on_exhausted :: bool

record 'r route =
  rd_id :: route_id
  rd_name :: string
  rd_matcher :: "'r matcher"
  rd_pool_all_tags :: "string list"
  rd_pool_any_tags :: "string list"
  rd_prefer_tags :: "string list"
  rd_exclude_tags :: "string list"
  rd_selector :: selector
  rd_hedge :: hedge_cfg
  rd_max_attempts :: u64
  rd_timeout_ms :: u64
  rd_slow_ms :: u64
  rd_fail_streak :: u32
  rd_attempt_backoff_ms :: u64
  rd_capture_body_bytes :: u64
  rd_prefer_non_reserve :: bool
  rd_default_ban_ms :: u64
  rd_hooks :: hook_flags
  rd_probe :: "probe_cfg option"
  rd_cursor :: u64

record 'r router_config =
  rc_routes :: "'r route list"

definition candidates :: "('r \<Rightarrow> string \<Rightarrow> bool) \<Rightarrow> 'r router_config \<Rightarrow> string \<Rightarrow> string \<Rightarrow> string \<Rightarrow> 'r route list" where
  "candidates is_match cfg host path meth =
     filter (\<lambda>r. matches_static is_match (rd_matcher r) host path meth) (rc_routes cfg)"

end
