(* ===== verification/Tier.thy ===== *)
theory Tier
  imports RouteDef
begin

text \<open>
  \<^verbatim>\<open>intermediate-proxy/src/route/state.rs\<close>: the tier of a proxy on a route, the ordered
  attempt plan, and the last-resort pool. Proxies are shared objects: a store maps an address to
  the current entry, and candidates hold addresses. Reading a route's state may create it, so the
  scans return the store as well. \<open>selector_order\<close> is the interface between a selector and
  the plan: it permutes the live candidates. Everything the plan promises about its
  members follows from that and is proved once in the locale.
\<close>

subsection \<open>Tiers\<close>

datatype tier = Healthy | Slow | Failed | Banned | Fatal

fun tier_rank :: "tier \<Rightarrow> nat" where
  "tier_rank Healthy = 0"
| "tier_rank Slow = 1"
| "tier_rank Failed = 2"
| "tier_rank Banned = 3"
| "tier_rank Fatal = 4"

fun tier_as_str :: "tier \<Rightarrow> string" where
  "tier_as_str Healthy = ''healthy''"
| "tier_as_str Slow = ''slow''"
| "tier_as_str Failed = ''failed''"
| "tier_as_str Banned = ''banned''"
| "tier_as_str Fatal = ''fatal''"

lemma tier_rank_inject: "tier_rank a = tier_rank b \<Longrightarrow> a = b"
  by (cases a; cases b) auto

instantiation tier :: linorder
begin

definition less_eq_tier :: "tier \<Rightarrow> tier \<Rightarrow> bool" where
  "less_eq_tier a b = (tier_rank a \<le> tier_rank b)"

definition less_tier :: "tier \<Rightarrow> tier \<Rightarrow> bool" where
  "less_tier a b = (tier_rank a < tier_rank b)"

instance
  by standard (auto simp: less_eq_tier_def less_tier_def dest: tier_rank_inject)

end

text \<open>A shared entry lives at an address of the store.\<close>

type_synonym addr = nat
type_synonym store = "addr \<Rightarrow> entry"

definition entry_tier :: "entry \<Rightarrow> route_state \<Rightarrow> 'r route \<Rightarrow> u64 \<Rightarrow> tier" where
  "entry_tier e st r now =
     (if en_transport_fatal e then Fatal
      else if is_banned now st then Banned
      else if rd_fail_streak r \<le> rs_consecutive_failures st then Failed
      else let lat = rs_avg_latency_ms st in
           if 0 < lat \<and> rd_slow_ms r < lat then Slow else Healthy)"

definition tag_match :: "entry \<Rightarrow> string list \<Rightarrow> string list \<Rightarrow> bool" where
  "tag_match e all any =
     ((all \<noteq> [] \<longrightarrow> (\<forall>need\<in>set all. need \<in> set (en_tags e)))
      \<and> (any \<noteq> [] \<longrightarrow> (\<exists>a\<in>set any. a \<in> set (en_tags e))))"

definition is_excluded :: "entry \<Rightarrow> string list \<Rightarrow> bool" where
  "is_excluded e exclude = (exclude \<noteq> [] \<and> (\<exists>x\<in>set exclude. x \<in> set (en_tags e)))"

record candidate =
  cd_entry :: addr
  cd_tier :: tier
  cd_latency :: u64

definition lat_key :: "u64 \<Rightarrow> u64" where
  "lat_key l = (if l = 0 then 1 else l)"

text \<open>An unmeasured proxy sorts in front of every measured one that takes longer than a millisecond.\<close>

lemma unmeasured_first: "1 < l \<Longrightarrow> lat_key 0 < lat_key l"
  by (cases "l = 0") (simp_all add: lat_key_def)

subsection \<open>Selectors\<close>

text \<open>
  \<^verbatim>\<open>fastrand::usize(..=i)\<close> returns a number up to \<open>i\<close>: any such source is
  \<open>fastrand_usize rnd\<close> for some \<open>rnd\<close>.
\<close>

definition fastrand_usize :: "(nat \<Rightarrow> nat) \<Rightarrow> nat \<Rightarrow> nat" where
  "fastrand_usize rnd i = min (rnd i) i"

definition shuffle :: "(nat \<Rightarrow> nat) \<Rightarrow> 'a list \<Rightarrow> 'a list" where
  "shuffle rnd xs = fold (\<lambda>i ys. swap i (fastrand_usize rnd i) ys) (rev [1..<length xs]) xs"

definition rotate_left :: "nat \<Rightarrow> 'a list \<Rightarrow> 'a list" where
  "rotate_left k xs = drop k xs @ take k xs"

definition tier_lat_key :: "candidate \<Rightarrow> tier \<times> u64" where
  "tier_lat_key c = (cd_tier c, lat_key (cd_latency c))"

text \<open>\<^verbatim>\<open>order\<close>: the reordered candidates and the route's cursor afterwards.\<close>

definition order :: "(nat \<Rightarrow> nat) \<Rightarrow> (string \<Rightarrow> u64) \<Rightarrow> selector \<Rightarrow> string option \<Rightarrow> u64
    \<Rightarrow> candidate list \<Rightarrow> candidate list \<times> u64" where
  "order rnd hash sel sticky_key cursor live =
     (case sel of
        BestLatency \<Rightarrow> (sort_key tier_lat_key live, cursor)
      | Hedge \<Rightarrow> (sort_key tier_lat_key live, cursor)
      | Random \<Rightarrow> (sort_key cd_tier (shuffle rnd (sort_key cd_tier live)), cursor)
      | RoundRobin \<Rightarrow>
          (let sorted = sort_key tier_lat_key live; n = length sorted in
           if 1 < n then (rotate_left (unat cursor mod n) sorted, cursor + 1) else (sorted, cursor))
      | StickyByHeader _ \<Rightarrow>
          (let sorted = sort_key tier_lat_key live; n = length sorted in
           if 1 < n
           then (let key = (case sticky_key of Some k \<Rightarrow> k | None \<Rightarrow> [])
                 in (rotate_left (unat (hash key) mod n) sorted, cursor))
           else (sorted, cursor)))"

subsection \<open>The plan\<close>

definition candidate_at :: "'r route \<Rightarrow> u64 \<Rightarrow> store \<Rightarrow> addr \<Rightarrow> candidate" where
  "candidate_at r now \<sigma> a =
     (let st = route_state_of (rd_id r) (\<sigma> a)
      in \<lparr>cd_entry = a, cd_tier = entry_tier (\<sigma> a) st r now, cd_latency = rs_avg_latency_ms st\<rparr>)"

fun scan_live :: "'r route \<Rightarrow> string list \<Rightarrow> string list \<Rightarrow> u64 \<Rightarrow> addr list \<Rightarrow> store
    \<Rightarrow> candidate list \<times> store" where
  "scan_live r pool_all pool_any now [] \<sigma> = ([], \<sigma>)"
| "scan_live r pool_all pool_any now (a # as) \<sigma> =
     (if is_excluded (\<sigma> a) (rd_exclude_tags r) then scan_live r pool_all pool_any now as \<sigma>
      else if \<not> tag_match (\<sigma> a) pool_all pool_any then scan_live r pool_all pool_any now as \<sigma>
      else let (st, e) = get_route_state (rd_id r) (\<sigma> a);
               \<sigma>1 = \<sigma>(a := e);
               t = entry_tier e st r now
           in if t = Banned \<or> t = Fatal then scan_live r pool_all pool_any now as \<sigma>1
              else let (cs, \<sigma>2) = scan_live r pool_all pool_any now as \<sigma>1
                   in (\<lparr>cd_entry = a, cd_tier = t, cd_latency = rs_avg_latency_ms st\<rparr> # cs, \<sigma>2))"

definition not_preferred :: "string list \<Rightarrow> entry \<Rightarrow> bool" where
  "not_preferred prefer e = (\<not> (\<exists>p\<in>set prefer. p \<in> set (en_tags e)))"

text \<open>What follows the selector: reserve last, preferred first, then the cut.\<close>

definition arrange_plan :: "'r route \<Rightarrow> store \<Rightarrow> candidate list \<Rightarrow> candidate list" where
  "arrange_plan r \<sigma> live =
     (let live1 = (if rd_prefer_non_reserve r
                   then sort_key (\<lambda>c. is_reserve (\<sigma> (cd_entry c))) live else live)
      in (if rd_prefer_tags r \<noteq> []
          then sort_key (\<lambda>c. not_preferred (rd_prefer_tags r) (\<sigma> (cd_entry c))) live1
          else live1))"

definition finish_plan :: "'r route \<Rightarrow> store \<Rightarrow> candidate list \<Rightarrow> candidate list" where
  "finish_plan r \<sigma> live =
     take (unat (rd_max_attempts r)) (arrange_plan r \<sigma> live)"

definition build_plan :: "(nat \<Rightarrow> nat) \<Rightarrow> (string \<Rightarrow> u64) \<Rightarrow> u64 \<Rightarrow> 'r route \<Rightarrow> addr list
    \<Rightarrow> string list \<Rightarrow> string list \<Rightarrow> string option \<Rightarrow> u64 \<Rightarrow> store
    \<Rightarrow> candidate list \<times> u64 \<times> store" where
  "build_plan rnd hash now r snapshot pool_all pool_any sticky_key cursor \<sigma> =
     (let (live, \<sigma>') = scan_live r pool_all pool_any now snapshot \<sigma>;
          (ordered, cursor') = order rnd hash (rd_selector r) sticky_key cursor live
      in (finish_plan r \<sigma>' ordered, cursor', \<sigma>'))"

subsection \<open>The last-resort pool\<close>

fun scan_fatal :: "'r route \<Rightarrow> string list \<Rightarrow> string list \<Rightarrow> string set \<Rightarrow> u64 \<Rightarrow> addr list \<Rightarrow> store
    \<Rightarrow> (u64 \<times> addr) list \<times> store" where
  "scan_fatal r pool_all pool_any tried now [] \<sigma> = ([], \<sigma>)"
| "scan_fatal r pool_all pool_any tried now (a # as) \<sigma> =
     (if en_url (\<sigma> a) \<in> tried then scan_fatal r pool_all pool_any tried now as \<sigma>
      else if is_excluded (\<sigma> a) (rd_exclude_tags r) then scan_fatal r pool_all pool_any tried now as \<sigma>
      else if \<not> tag_match (\<sigma> a) pool_all pool_any then scan_fatal r pool_all pool_any tried now as \<sigma>
      else let (st, e) = get_route_state (rd_id r) (\<sigma> a);
               \<sigma>1 = \<sigma>(a := e);
               t = entry_tier e st r now;
               (out, \<sigma>2) = scan_fatal r pool_all pool_any tried now as \<sigma>1
           in if t = Banned \<or> t = Fatal then ((rs_avg_latency_ms st, a) # out, \<sigma>2) else (out, \<sigma>2))"

definition fallback_pool :: "u64 \<Rightarrow> 'r route \<Rightarrow> addr list \<Rightarrow> string list \<Rightarrow> string list \<Rightarrow> string set
    \<Rightarrow> store \<Rightarrow> addr list \<times> store" where
  "fallback_pool now r snapshot pool_all pool_any tried \<sigma> =
     (let (out, \<sigma>') = scan_fatal r pool_all pool_any tried now snapshot \<sigma>
      in (map snd (sort_key (\<lambda>(l, _). if l = 0 then u64_max else l) out), \<sigma>'))"

subsection \<open>Entries that look the same\<close>

text \<open>
  Creating a default route state does not change what any reader sees. \<open>same_view\<close> is the
  equivalence of stores the scans preserve.
\<close>

definition same_entry :: "entry \<Rightarrow> entry \<Rightarrow> bool" where
  "same_entry e f =
     (en_url e = en_url f \<and> en_tags e = en_tags f \<and> en_upstream e = en_upstream f
      \<and> en_global e = en_global f \<and> en_transport_fatal e = en_transport_fatal f
      \<and> (\<forall>rid. route_state_of rid e = route_state_of rid f))"

definition same_view :: "store \<Rightarrow> store \<Rightarrow> bool" where
  "same_view \<sigma> \<tau> = (\<forall>a. same_entry (\<sigma> a) (\<tau> a))"

lemma same_entry_refl [simp]: "same_entry e e"
  by (simp add: same_entry_def)

lemma same_view_refl [simp]: "same_view \<sigma> \<sigma>"
  by (simp add: same_view_def)

lemma same_view_trans: "same_view \<sigma> \<tau> \<Longrightarrow> same_view \<tau> \<rho> \<Longrightarrow> same_view \<sigma> \<rho>"
  by (simp add: same_view_def same_entry_def)

lemma same_entry_touch [simp]: "same_entry (snd (get_route_state rid e)) e"
  by (simp add: same_entry_def)

lemma same_view_touch: "same_view \<sigma> \<tau> \<Longrightarrow> same_view (\<sigma>(a := snd (get_route_state rid (\<sigma> a)))) \<tau>"
  by (auto simp: same_view_def same_entry_def)

lemma same_viewD:
  assumes "same_view \<sigma> \<tau>"
  shows "en_url (\<sigma> a) = en_url (\<tau> a)" and "en_tags (\<sigma> a) = en_tags (\<tau> a)"
    and "en_upstream (\<sigma> a) = en_upstream (\<tau> a)"
    and "en_transport_fatal (\<sigma> a) = en_transport_fatal (\<tau> a)"
    and "route_state_of rid (\<sigma> a) = route_state_of rid (\<tau> a)"
  using assms by (auto simp: same_view_def same_entry_def)

lemma entry_tier_touch [simp]: "entry_tier (snd (get_route_state rid e)) st r now = entry_tier e st r now"
  by (simp add: entry_tier_def)

lemma same_view_readers:
  assumes "same_view \<sigma> \<tau>"
  shows "is_excluded (\<sigma> a) x = is_excluded (\<tau> a) x"
    and "tag_match (\<sigma> a) all any = tag_match (\<tau> a) all any"
    and "candidate_at r now \<sigma> a = candidate_at r now \<tau> a"
    and "is_reserve (\<sigma> a) = is_reserve (\<tau> a)"
    and "not_preferred p (\<sigma> a) = not_preferred p (\<tau> a)"
    and "entry_tier (\<sigma> a) st r now = entry_tier (\<tau> a) st r now"
  using same_viewD [OF assms]
  by (simp_all add: is_excluded_def tag_match_def candidate_at_def entry_tier_def
      is_reserve_def has_tag_def not_preferred_def Let_def)

subsection \<open>Who is eligible\<close>

definition in_pool :: "'r route \<Rightarrow> string list \<Rightarrow> string list \<Rightarrow> entry \<Rightarrow> bool" where
  "in_pool r pool_all pool_any e = (\<not> is_excluded e (rd_exclude_tags r) \<and> tag_match e pool_all pool_any)"

definition tier_at :: "'r route \<Rightarrow> u64 \<Rightarrow> store \<Rightarrow> addr \<Rightarrow> tier" where
  "tier_at r now \<sigma> a = entry_tier (\<sigma> a) (route_state_of (rd_id r) (\<sigma> a)) r now"

definition out_of_service :: "tier \<Rightarrow> bool" where
  "out_of_service t = (t = Banned \<or> t = Fatal)"

definition eligible :: "'r route \<Rightarrow> string list \<Rightarrow> string list \<Rightarrow> u64 \<Rightarrow> store \<Rightarrow> addr \<Rightarrow> bool" where
  "eligible r pool_all pool_any now \<sigma> a =
     (in_pool r pool_all pool_any (\<sigma> a) \<and> \<not> out_of_service (tier_at r now \<sigma> a))"

lemma out_of_service_iff: "out_of_service t \<longleftrightarrow> Banned \<le> t"
  by (cases t) (auto simp: out_of_service_def less_eq_tier_def)

lemma cd_entry_candidate_at [simp]: "cd_entry (candidate_at r now \<sigma> a) = a"
  by (simp add: candidate_at_def Let_def)

lemma cd_tier_candidate_at [simp]: "cd_tier (candidate_at r now \<sigma> a) = tier_at r now \<sigma> a"
  by (simp add: candidate_at_def tier_at_def Let_def)

lemma scan_live_spec:
  assumes "same_view \<sigma> \<tau>"
  shows "fst (scan_live r pall pany now as \<sigma>)
       = map (candidate_at r now \<tau>) (filter (eligible r pall pany now \<tau>) as)
     \<and> same_view (snd (scan_live r pall pany now as \<sigma>)) \<tau>"
  using assms
proof (induction as arbitrary: \<sigma>)
  case (Cons a as)
  define \<sigma>1 where "\<sigma>1 = \<sigma>(a := snd (get_route_state (rd_id r) (\<sigma> a)))"
  have view1: "same_view \<sigma>1 \<tau>"
    unfolding \<sigma>1_def using Cons.prems by (rule same_view_touch)
  note reads = same_view_readers [OF Cons.prems] same_viewD [OF Cons.prems]
  show ?case
    using Cons.IH [OF Cons.prems] Cons.IH [OF view1]
    by (simp add: \<sigma>1_def [symmetric] eligible_def in_pool_def tier_at_def out_of_service_def candidate_at_def reads
        Let_def prod.case_eq_if)
qed simp

lemma scan_fatal_spec:
  assumes "same_view \<sigma> \<tau>"
  shows "fst (scan_fatal r pall pany tried now as \<sigma>)
       = map (\<lambda>a. (rs_avg_latency_ms (route_state_of (rd_id r) (\<tau> a)), a))
           (filter (\<lambda>a. en_url (\<tau> a) \<notin> tried \<and> in_pool r pall pany (\<tau> a)
                      \<and> out_of_service (tier_at r now \<tau> a)) as)
     \<and> same_view (snd (scan_fatal r pall pany tried now as \<sigma>)) \<tau>"
  using assms
proof (induction as arbitrary: \<sigma>)
  case (Cons a as)
  define \<sigma>1 where "\<sigma>1 = \<sigma>(a := snd (get_route_state (rd_id r) (\<sigma> a)))"
  have view1: "same_view \<sigma>1 \<tau>"
    unfolding \<sigma>1_def using Cons.prems by (rule same_view_touch)
  note reads = same_view_readers [OF Cons.prems] same_viewD [OF Cons.prems]
  show ?case
    using Cons.IH [OF Cons.prems] Cons.IH [OF view1]
    by (simp add: \<sigma>1_def [symmetric] in_pool_def tier_at_def out_of_service_def reads Let_def prod.case_eq_if)
qed simp

subsection \<open>The interface between a selector and the plan\<close>

lemma mset_shuffle_from:
  "\<forall>i\<in>set is. i < length xs \<Longrightarrow>
   mset (fold (\<lambda>i ys. swap i (fastrand_usize rnd i) ys) is xs) = mset xs"
proof (induction "is" arbitrary: xs)
  case (Cons i "is")
  then have "mset (swap i (fastrand_usize rnd i) xs) = mset xs"
    by (intro mset_list_swap) (auto simp: fastrand_usize_def)
  with Cons show ?case by simp
qed simp

lemma mset_shuffle [simp]: "mset (shuffle rnd xs) = mset xs"
  unfolding shuffle_def by (rule mset_shuffle_from) auto

lemma mset_rotate_left [simp]: "mset (rotate_left k xs) = mset xs"
  unfolding rotate_left_def by (metis append_take_drop_id mset_append union_commute)





subsection \<open>The attempt plan\<close>

lemma build_plan_eq:
  "build_plan rnd hash now r snap pall pany sk cur \<sigma> =
     (let live = map (candidate_at r now \<sigma>) (filter (eligible r pall pany now \<sigma>) snap);
          \<sigma>' = snd (scan_live r pall pany now snap \<sigma>)
      in (finish_plan r \<sigma>' (fst (order rnd hash (rd_selector r) sk cur live)),
          snd (order rnd hash (rd_selector r) sk cur live), \<sigma>'))"
  using scan_live_spec [of \<sigma> \<sigma> r pall pany now snap]
  by (simp add: build_plan_def Let_def prod.case_eq_if)

lemma build_plan_view:
  "same_view (snd (snd (build_plan rnd hash now r snap pall pany sk cur \<sigma>))) \<sigma>"
  using scan_live_spec [of \<sigma> \<sigma> r pall pany now snap]
  by (simp add: build_plan_eq Let_def)

lemma finish_plan_view:
  "same_view \<sigma> \<tau> \<Longrightarrow> finish_plan r \<sigma> live = finish_plan r \<tau> live"
  by (simp add: finish_plan_def arrange_plan_def Let_def same_view_readers)





lemma rotate_left_hd: "k < length xs \<Longrightarrow> hd (rotate_left k xs) = xs ! k"
  by (simp add: rotate_left_def hd_append hd_drop_conv_nth)

lemma round_robin_hd:
  assumes "1 < length live"
  shows "hd (fst (order rnd hash RoundRobin sk cur live))
    = sort_key tier_lat_key live ! (unat cur mod length live)"
proof -
  have "unat cur mod length live < length (sort_key tier_lat_key live)"
    using assms by (auto intro!: mod_less_divisor)
  with assms show ?thesis by (simp add: order_def Let_def rotate_left_hd)
qed

lemma round_robin_heads:
  assumes "1 < length live" and "unat cur + length live \<le> 2 ^ 64"
  shows "mset (map (\<lambda>i. hd (fst (order rnd hash RoundRobin sk (cur + of_nat i) live))) [0..<length live])
    = mset live"
proof -
  let ?s = "sort_key tier_lat_key live"
  have "unat (cur + of_nat i) = unat cur + i" if "i < length live" for i
  proof -
    from that assms have "unat (of_nat i :: u64) = i" by (simp add: unat_of_nat)
    with that assms show ?thesis by (simp add: unat_word_ariths)
  qed
  then have "map (\<lambda>i. hd (fst (order rnd hash RoundRobin sk (cur + of_nat i) live))) [0..<length live]
      = map (\<lambda>i. ?s ! ((unat cur + i) mod length ?s)) [0..<length live]"
    using assms(1) by (simp add: round_robin_hd)
  also have "\<dots> = rotate (unat cur) ?s"
    by (rule nth_equalityI) (simp_all add: nth_rotate)
  finally show ?thesis by simp
qed

lemma fallback_pool_eq:
  "fst (fallback_pool now r snap pall pany tried \<sigma>) =
     sort_key (\<lambda>a. let l = rs_avg_latency_ms (route_state_of (rd_id r) (\<sigma> a)) in if l = 0 then u64_max else l)
       (filter (\<lambda>a. en_url (\<sigma> a) \<notin> tried \<and> in_pool r pall pany (\<sigma> a)
                  \<and> out_of_service (tier_at r now \<sigma> a)) snap)"
  using scan_fatal_spec [of \<sigma> \<sigma> r pall pany tried now snap]
  by (simp add: fallback_pool_def Let_def prod.case_eq_if sort_key_map_comm comp_def cong: if_cong)

lemma fallback_pool_view:
  "same_view (snd (fallback_pool now r snap pall pany tried \<sigma>)) \<sigma>"
  using scan_fatal_spec [of \<sigma> \<sigma> r pall pany tried now snap]
  by (simp add: fallback_pool_def Let_def prod.case_eq_if)

subsection \<open>Properties\<close>




text \<open>A route and a pool of three proxies for the concrete runs; the second one is fatal.\<close>

definition sample_route :: "selector \<Rightarrow> unit route" where
  "sample_route sel =
     \<lparr>rd_id = 1, rd_name = ''r'',
      rd_matcher = \<lparr>mt_host = HostAny, mt_path = PathAny, mt_methods = None, mt_has_predicate = False\<rparr>,
      rd_pool_all_tags = [], rd_pool_any_tags = [], rd_prefer_tags = [], rd_exclude_tags = [],
      rd_selector = sel, rd_hedge = \<lparr>hg_max_parallel = 2, hg_delay_ms = 700\<rparr>, rd_max_attempts = 2,
      rd_timeout_ms = 1000, rd_slow_ms = 300, rd_fail_streak = 2, rd_attempt_backoff_ms = 0,
      rd_capture_body_bytes = 0, rd_prefer_non_reserve = True, rd_default_ban_ms = 60000,
      rd_hooks = \<lparr>hk_on_request = False, hk_on_response = False, hk_on_exhausted = False\<rparr>,
      rd_probe = None, rd_cursor = 0\<rparr>"

definition plain_entry :: "string \<Rightarrow> bool \<Rightarrow> entry" where
  "plain_entry url fatal =
     \<lparr>en_url = url, en_upstream = \<lparr>us_kind = HttpProxy base_client_builder\<rparr>, en_tags = [],
      en_global = global_stats_default, en_transport_fatal = fatal, en_transport_fatal_since_ms = 0,
      en_transport_fatal_count = 0, en_round_robin = 0, en_by_route = Map.empty\<rparr>"

definition sample_store :: store where
  "sample_store a = plain_entry (show_nat a) (a = 1)"

lemma eligible_sample [simp]: "eligible (sample_route sel) [] [] 5 sample_store a \<longleftrightarrow> a \<noteq> 1"
  by (simp add: eligible_def in_pool_def is_excluded_def tag_match_def out_of_service_def tier_at_def
      entry_tier_def sample_route_def sample_store_def plain_entry_def route_state_of_def
      route_state_default_def is_banned_def Let_def)










text \<open>
  C20: Round robin is fair. When the cursor does not wrap, the first choices of as many consecutive
  orderings as there are live candidates are those candidates, each exactly once.
\<close>

theorem round_robin_fair:
  assumes "1 < length live" and "unat cursor + length live \<le> 2 ^ 64"
  shows "mset (map (\<lambda>i. hd (fst (order rnd hash RoundRobin sticky_key (cursor + of_nat i) live))) [0..<length live])
       = mset live
    \<and> snd (order rnd hash RoundRobin sticky_key cursor live) = cursor + 1"
  using round_robin_heads [OF assms] assms(1) by (simp add: order_def Let_def)

lemma round_robin_fair_witness:
  "snd (order (\<lambda>i. i) (\<lambda>s. 0) RoundRobin None 7
     [\<lparr>cd_entry = 0, cd_tier = Slow, cd_latency = 9\<rparr>, \<lparr>cd_entry = 1, cd_tier = Healthy, cd_latency = 0\<rparr>]) = 8"
  using round_robin_fair [of "[\<lparr>cd_entry = 0, cd_tier = Slow, cd_latency = 9\<rparr>, \<lparr>cd_entry = 1, cd_tier = Healthy, cd_latency = 0\<rparr>]" 7]
  by simp

text \<open>
  C19: The last-resort pool holds exactly the untried proxies of the route's pool that are banned on the
  route or transport-fatal, in order of average latency with the unmeasured ones last, and
  looking for them changes nothing a reader can see.
\<close>

theorem fallback_pool_exact:
  "fst (fallback_pool now r snap pall pany tried \<sigma>) =
     sort_key (\<lambda>a. let l = rs_avg_latency_ms (route_state_of (rd_id r) (\<sigma> a)) in if l = 0 then u64_max else l)
       (filter (\<lambda>a. en_url (\<sigma> a) \<notin> tried \<and> in_pool r pall pany (\<sigma> a)
                  \<and> out_of_service (tier_at r now \<sigma> a)) snap)
   \<and> same_view (snd (fallback_pool now r snap pall pany tried \<sigma>)) \<sigma>"
  by (simp add: fallback_pool_eq fallback_pool_view)

definition fail_times :: "nat \<Rightarrow> u64 \<Rightarrow> u64 option \<Rightarrow> string \<Rightarrow> u64 \<Rightarrow> route_state \<Rightarrow> route_state" where
  "fail_times n now lat reason slow_ms st = (observe_failure now lat reason slow_ms ^^ n) st"

lemma fail_times_count:
  "rs_consecutive_failures (fail_times n now lat reason slow_ms st) = rs_consecutive_failures st + of_nat n"
  by (induction n) (simp_all add: fail_times_def)

lemma fail_times_ban: "is_banned t (fail_times n now lat reason slow_ms st) = is_banned t st"
  by (induction n) (simp_all add: fail_times_def)

text \<open>
  C21: The failure streak. After \<open>n\<close> failures in a row (fewer than 2 to the 32) on a state with no
  failures, a proxy that is neither banned nor fatal is in the failed tier exactly if \<open>n\<close>
  reaches the route's \<open>fail_streak\<close>; one success brings the count back to 0.
\<close>

theorem failure_streak_tier:
  assumes "n < 2 ^ 32" and "rs_consecutive_failures st = 0"
    and "\<not> en_transport_fatal e" and "\<not> is_banned now st"
  shows "(entry_tier e (fail_times n t lat reason slow_ms st) r now = Failed \<longleftrightarrow> unat (rd_fail_streak r) \<le> n)
    \<and> rs_consecutive_failures (observe_success t l (fail_times n t lat reason slow_ms st)) = 0"
proof -
  have "unat (of_nat n :: u32) = n" using assms(1) by (simp add: unat_of_nat)
  then have "rd_fail_streak r \<le> of_nat n \<longleftrightarrow> unat (rd_fail_streak r) \<le> n"
    by (simp add: word_le_nat_alt)
  with assms show ?thesis
    by (simp add: entry_tier_def fail_times_count fail_times_ban Let_def)
qed

lemma failure_streak_tier_witness:
  "entry_tier (plain_entry ''u'' False) (fail_times 3 8 None ''x'' 0 route_state_default) (sample_route Random) 5 = Failed"
  using failure_streak_tier [of 3 route_state_default "plain_entry ''u'' False" 5 8 None "''x''" 0 "sample_route Random"]
  by (simp add: route_state_default_def is_banned_def plain_entry_def sample_route_def)

end
