(* ===== verification/Pool.thy ===== *)
theory Pool
  imports Loader Tier "HOL-Library.AList"
begin

text \<open>
  \<^verbatim>\<open>intermediate-proxy/src/proxy/mod.rs\<close> and \<^verbatim>\<open>watcher.rs\<close>: the pool
  of shared entries and its hot reload. Entries live in a \<open>heap\<close> (a store and the next free
  address); a clone of an \<^verbatim>\<open>Arc\<close> is a copy of the address. A
  \<^verbatim>\<open>HashMap\<close> is an association list updated by \<open>AList.update\<close>, whose length is
  the number of keys. Creating an entry can panic on a malformed proxy URL; the release profile
  aborts, so a panic ends the operation with \<open>Inl\<close>. \<open>proxy_registry\<close> is the interface
  the dispatcher and the scripts use: a lookup by URL agrees with the snapshot.
\<close>

record heap =
  hp_at :: store
  hp_next :: addr

definition heap_alloc :: "entry \<Rightarrow> heap \<Rightarrow> addr \<times> heap" where
  "heap_alloc e h = (hp_next h, h\<lparr>hp_at := (hp_at h)(hp_next h := e), hp_next := hp_next h + 1\<rparr>)"

definition heap_upd :: "addr \<Rightarrow> (entry \<Rightarrow> entry) \<Rightarrow> heap \<Rightarrow> heap" where
  "heap_upd a f h = h\<lparr>hp_at := (hp_at h)(a := f (hp_at h a))\<rparr>"

record proxy_pool =
  po_entries :: "addr list"
  po_by_url :: "(string \<times> addr) list"

subsection \<open>Operations\<close>

fun pool_new_loop :: "(string \<Rightarrow> bool) \<Rightarrow> (client_cfg \<Rightarrow> bool) \<Rightarrow> parsed_proxy list
    \<Rightarrow> proxy_pool \<Rightarrow> heap \<Rightarrow> panic + proxy_pool \<times> heap" where
  "pool_new_loop pa bo [] p h = Inr (p, h)"
| "pool_new_loop pa bo (q # qs) p h =
     (case entry_new pa bo (pp_url q) (pp_tags q) of
        Inl e \<Rightarrow> Inl e
      | Inr e \<Rightarrow>
          (let (a, h1) = heap_alloc e h
           in pool_new_loop pa bo qs
                \<lparr>po_entries = po_entries p @ [a], po_by_url = AList.update (en_url e) a (po_by_url p)\<rparr> h1))"

definition pool_new :: "(string \<Rightarrow> bool) \<Rightarrow> (client_cfg \<Rightarrow> bool) \<Rightarrow> parsed_proxy list
    \<Rightarrow> heap \<Rightarrow> panic + proxy_pool \<times> heap" where
  "pool_new pa bo parsed h = pool_new_loop pa bo parsed \<lparr>po_entries = [], po_by_url = []\<rparr> h"

definition pool_snapshot :: "proxy_pool \<Rightarrow> addr list" where
  "pool_snapshot p = po_entries p"

definition pool_find :: "proxy_pool \<Rightarrow> string \<Rightarrow> addr option" where
  "pool_find p url = map_of (po_by_url p) url"

definition pool_len :: "proxy_pool \<Rightarrow> nat" where
  "pool_len p = length (po_entries p)"

text \<open>The loop of \<^verbatim>\<open>reload\<close>: new vectors, the two counters, the heap.\<close>

record reload_acc =
  ra_pool :: proxy_pool
  ra_added :: nat
  ra_retained :: nat

definition reload_retain :: "parsed_proxy \<Rightarrow> addr \<Rightarrow> heap \<Rightarrow> heap" where
  "reload_retain q a h =
     (if en_tags (hp_at h a) \<noteq> pp_tags q then heap_upd a (set_tags (pp_tags q)) h else h)"

definition acc_push :: "string \<Rightarrow> addr \<Rightarrow> proxy_pool \<Rightarrow> proxy_pool" where
  "acc_push url a p =
     \<lparr>po_entries = po_entries p @ [a], po_by_url = AList.update url a (po_by_url p)\<rparr>"

fun reload_loop :: "(string \<Rightarrow> bool) \<Rightarrow> (client_cfg \<Rightarrow> bool) \<Rightarrow> (string \<times> addr) list
    \<Rightarrow> parsed_proxy list \<Rightarrow> reload_acc \<Rightarrow> heap \<Rightarrow> panic + reload_acc \<times> heap" where
  "reload_loop pa bo old [] acc h = Inr (acc, h)"
| "reload_loop pa bo old (q # qs) acc h =
     (case map_of old (pp_url q) of
        Some existing \<Rightarrow>
          reload_loop pa bo old qs
            (acc\<lparr>ra_pool := acc_push (pp_url q) existing (ra_pool acc), ra_retained := ra_retained acc + 1\<rparr>)
            (reload_retain q existing h)
      | None \<Rightarrow>
          (case entry_new pa bo (pp_url q) (pp_tags q) of
             Inl e \<Rightarrow> Inl e
           | Inr e \<Rightarrow>
               (let (a, h1) = heap_alloc e h
                in reload_loop pa bo old qs
                     (acc\<lparr>ra_pool := acc_push (pp_url q) a (ra_pool acc), ra_added := ra_added acc + 1\<rparr>) h1)))"

definition reload_acc0 :: reload_acc where
  "reload_acc0 = \<lparr>ra_pool = \<lparr>po_entries = [], po_by_url = []\<rparr>, ra_added = 0, ra_retained = 0\<rparr>"

definition pool_reload :: "(string \<Rightarrow> bool) \<Rightarrow> (client_cfg \<Rightarrow> bool) \<Rightarrow> parsed_proxy list
    \<Rightarrow> proxy_pool \<Rightarrow> heap \<Rightarrow> panic + proxy_pool \<times> heap" where
  "pool_reload pa bo parsed p h =
     (case reload_loop pa bo (po_by_url p) parsed reload_acc0 h of
        Inl e \<Rightarrow> Inl e
      | Inr (acc, h1) \<Rightarrow>
          (let old_len = length (po_by_url p);
               removed = old_len - ra_retained acc
           in if ra_added acc = 0 \<and> removed = 0 \<and> ra_retained acc = old_len
              then Inr (p, h1) else Inr (ra_pool acc, h1)))"

record pool_summary =
  su_total :: nat
  su_transport_fatal :: u64

definition summary :: "proxy_pool \<Rightarrow> store \<Rightarrow> pool_summary" where
  "summary p \<sigma> =
     \<lparr>su_total = length (po_entries p),
      su_transport_fatal = fold (\<lambda>a n. if en_transport_fatal (\<sigma> a) then n + 1 else n) (po_entries p) 0\<rparr>"

definition load_initial :: "string option \<Rightarrow> parsed_proxy list" where
  "load_initial file = (case file of Some content \<Rightarrow> parse_proxies content | None \<Rightarrow> [])"

text \<open>
  One turn of the watcher. \<open>meta\<close> is the answer of \<^verbatim>\<open>metadata\<close>: \<open>None\<close> for an
  error, otherwise the modification time if the platform has one; \<open>file\<close> what the read returns.
\<close>

definition watcher_tick :: "(string \<Rightarrow> bool) \<Rightarrow> (client_cfg \<Rightarrow> bool) \<Rightarrow> u64 option option \<Rightarrow> string option
    \<Rightarrow> u64 option \<Rightarrow> proxy_pool \<Rightarrow> heap \<Rightarrow> u64 option \<times> (panic + proxy_pool \<times> heap)" where
  "watcher_tick pa bo meta file last_mtime p h =
     (case meta of
        None \<Rightarrow> (last_mtime, Inr (p, h))
      | Some mtime \<Rightarrow>
          if mtime = last_mtime then (last_mtime, Inr (p, h))
          else (case file of
              Some content \<Rightarrow>
                (let parsed = parse_proxies content
                 in if parsed = [] then (mtime, Inr (p, h))
                    else (mtime, pool_reload pa bo parsed p h))
            | None \<Rightarrow> (mtime, Inr (p, h))))"

subsection \<open>The registry interface\<close>

locale proxy_registry =
  fixes find :: "'s \<Rightarrow> string \<Rightarrow> addr option"
    and members :: "'s \<Rightarrow> addr list"
    and url_of :: "'s \<Rightarrow> addr \<Rightarrow> string"
    and ok :: "'s \<Rightarrow> bool"
  assumes find_iff: "ok s \<Longrightarrow> find s u = Some a \<longleftrightarrow> a \<in> set (members s) \<and> url_of s a = u"
begin

lemma find_member: "ok s \<Longrightarrow> a \<in> set (members s) \<Longrightarrow> find s (url_of s a) = Some a"
  by (simp add: find_iff)

lemma find_url: "ok s \<Longrightarrow> find s u = Some a \<Longrightarrow> url_of s a = u"
  by (simp add: find_iff)

lemma find_None: "ok s \<Longrightarrow> find s u = None \<longleftrightarrow> u \<notin> url_of s ` set (members s)"
proof -
  assume "ok s"
  then have "(\<exists>a. find s u = Some a) \<longleftrightarrow> u \<in> url_of s ` set (members s)"
    by (auto simp: find_iff)
  then show ?thesis by (cases "find s u") auto
qed

lemma url_injective: "ok s \<Longrightarrow> inj_on (url_of s) (set (members s))"
  by (rule inj_onI) (metis find_member option.inject)

end

definition pool_ok :: "proxy_pool \<Rightarrow> heap \<Rightarrow> bool" where
  "pool_ok p h =
     (distinct (map (\<lambda>a. en_url (hp_at h a)) (po_entries p))
      \<and> (\<forall>a\<in>set (po_entries p). a < hp_next h)
      \<and> distinct (map fst (po_by_url p))
      \<and> set (po_by_url p) = (\<lambda>a. (en_url (hp_at h a), a)) ` set (po_entries p))"

lemma pool_find_iff:
  assumes "pool_ok p h"
  shows "pool_find p u = Some a \<longleftrightarrow> a \<in> set (po_entries p) \<and> en_url (hp_at h a) = u"
  using assms by (auto simp: pool_ok_def pool_find_def)

interpretation registry: proxy_registry
  "\<lambda>(p, h). pool_find p" "\<lambda>(p, h). pool_snapshot p" "\<lambda>(p, h) a. en_url (hp_at h a)" "\<lambda>(p, h). pool_ok p h"
  by unfold_locales (auto simp: pool_find_iff pool_snapshot_def)

lemma pool_ok_length:
  assumes "pool_ok p h"
  shows "length (po_by_url p) = length (po_entries p)"
proof -
  have "length (po_by_url p) = card (set (po_by_url p))"
    using assms distinct_card [of "po_by_url p"] by (simp add: pool_ok_def distinct_map)
  also have "\<dots> = card (set (po_entries p))"
    using assms by (simp add: pool_ok_def card_image inj_on_def)
  also have "\<dots> = length (po_entries p)"
    using assms distinct_card [of "po_entries p"] by (simp add: pool_ok_def distinct_map)
  finally show ?thesis .
qed

subsection \<open>What a reload establishes\<close>

lemma update_fresh: "k \<notin> fst ` set al \<Longrightarrow> AList.update k v al = al @ [(k, v)]"
  by (induction al) auto

lemma entry_new_cold:
  "entry_new pa bo u ts = Inr e \<Longrightarrow> en_url e = u \<and> en_tags e = ts \<and> en_by_route e = Map.empty
     \<and> \<not> en_transport_fatal e"
  by (auto simp: entry_new_def split: sum.splits)

text \<open>Where one parsed line ends up: the old address if its URL was known, a new one otherwise.\<close>

definition placed :: "(string \<Rightarrow> bool) \<Rightarrow> (client_cfg \<Rightarrow> bool) \<Rightarrow> (string \<times> addr) list \<Rightarrow> heap \<Rightarrow> heap
    \<Rightarrow> parsed_proxy \<Rightarrow> addr \<Rightarrow> bool" where
  "placed pa bo old h0 h q a =
     (a < hp_next h
      \<and> (case map_of old (pp_url q) of
           Some b \<Rightarrow> a = b \<and> a < hp_next h0 \<and> hp_at h a = set_tags (pp_tags q) (hp_at h0 a)
                     \<and> en_url (hp_at h0 a) = pp_url q
         | None \<Rightarrow> hp_next h0 \<le> a \<and> entry_new pa bo (pp_url q) (pp_tags q) = Inr (hp_at h a)))"

lemma placed_url: "placed pa bo old h0 h q a \<Longrightarrow> en_url (hp_at h a) = pp_url q"
  by (auto simp: placed_def set_tags_def dest: entry_new_cold split: option.splits)

lemma placed_tags: "placed pa bo old h0 h q a \<Longrightarrow> en_tags (hp_at h a) = pp_tags q"
  by (auto simp: placed_def set_tags_def dest: entry_new_cold split: option.splits)

lemma placed_frame:
  "placed pa bo old h0 h q a \<Longrightarrow> hp_at h' a = hp_at h a \<Longrightarrow> hp_next h \<le> hp_next h' \<Longrightarrow> placed pa bo old h0 h' q a"
  by (auto simp: placed_def split: option.splits)

definition reload_inv :: "(string \<Rightarrow> bool) \<Rightarrow> (client_cfg \<Rightarrow> bool) \<Rightarrow> (string \<times> addr) list \<Rightarrow> heap
    \<Rightarrow> parsed_proxy list \<Rightarrow> reload_acc \<Rightarrow> heap \<Rightarrow> bool" where
  "reload_inv pa bo old h0 ps acc h =
     (list_all2 (placed pa bo old h0 h) ps (po_entries (ra_pool acc))
      \<and> po_by_url (ra_pool acc) = zip (map pp_url ps) (po_entries (ra_pool acc))
      \<and> hp_next h0 \<le> hp_next h
      \<and> (\<forall>a<hp_next h0. a \<notin> set (po_entries (ra_pool acc)) \<longrightarrow> hp_at h a = hp_at h0 a)
      \<and> ra_retained acc = length (filter (\<lambda>q. map_of old (pp_url q) \<noteq> None) ps)
      \<and> ra_added acc = length (filter (\<lambda>q. map_of old (pp_url q) = None) ps))"

lemma list_all2_mono_set:
  "list_all2 P xs ys \<Longrightarrow> (\<And>x y. y \<in> set ys \<Longrightarrow> P x y \<Longrightarrow> Q x y) \<Longrightarrow> list_all2 Q xs ys"
  by (induction rule: list_all2_induct) auto

lemma placed_urls:
  "list_all2 (placed pa bo old h0 h) ps as \<Longrightarrow> map (\<lambda>a. en_url (hp_at h a)) as = map pp_url ps"
  by (induction rule: list_all2_induct) (auto dest: placed_url)

lemma placed_fst_zip:
  "list_all2 P ps as \<Longrightarrow> fst ` set (zip (map f ps) as) = f ` set ps"
proof (induction rule: list_all2_induct)
  case (Cons x xs y ys)
  then show ?case by simp
qed simp

lemma reload_inv_step:
  assumes inv: "reload_inv pa bo old h0 ps acc h" and new: "pp_url q \<notin> pp_url ` set ps"
    and frame: "\<And>b. b \<noteq> a \<Longrightarrow> hp_at h' b = hp_at h b" and grow: "hp_next h \<le> hp_next h'"
    and fresh: "a \<notin> set (po_entries (ra_pool acc))" and here: "placed pa bo old h0 h' q a"
    and counts: "ra_retained acc' = ra_retained acc + (if map_of old (pp_url q) \<noteq> None then 1 else 0)"
      "ra_added acc' = ra_added acc + (if map_of old (pp_url q) = None then 1 else 0)"
    and pool: "ra_pool acc' = acc_push (pp_url q) a (ra_pool acc)"
  shows "reload_inv pa bo old h0 (ps @ [q]) acc' h'"
proof -
  note I = inv [unfolded reload_inv_def]
  have len: "length ps = length (po_entries (ra_pool acc))"
    using I by (auto dest: list_all2_lengthD)
  have "list_all2 (placed pa bo old h0 h') ps (po_entries (ra_pool acc))"
  proof -
    have "placed pa bo old h0 h' x y"
      if "y \<in> set (po_entries (ra_pool acc))" "placed pa bo old h0 h x y" for x y
    proof -
      from that(1) fresh have "y \<noteq> a" by auto
      from placed_frame [OF that(2) frame [OF this] grow] show ?thesis .
    qed
    with I show ?thesis by (blast intro: list_all2_mono_set)
  qed
  then have "list_all2 (placed pa bo old h0 h') (ps @ [q]) (po_entries (ra_pool acc'))"
    using here by (simp add: pool acc_push_def list_all2_appendI)
  moreover have "po_by_url (ra_pool acc') = zip (map pp_url (ps @ [q])) (po_entries (ra_pool acc'))"
  proof -
    have "pp_url q \<notin> fst ` set (po_by_url (ra_pool acc))"
      using I new placed_fst_zip [of "placed pa bo old h0 h" ps "po_entries (ra_pool acc)" pp_url] by simp
    with I len show ?thesis by (simp add: pool acc_push_def update_fresh)
  qed
  moreover have "hp_next h0 \<le> hp_next h'" using I grow by simp
  moreover have "hp_at h' b = hp_at h0 b" if "b < hp_next h0" "b \<notin> set (po_entries (ra_pool acc'))" for b
    using that I frame by (simp add: pool acc_push_def)
  ultimately show ?thesis using I counts by (simp add: reload_inv_def)
qed

definition old_ok :: "(string \<times> addr) list \<Rightarrow> heap \<Rightarrow> bool" where
  "old_ok old h0 =
     (\<forall>u b. map_of old u = Some b \<longrightarrow> b < hp_next h0 \<and> en_url (hp_at h0 b) = u)"

lemma reload_inv_entries:
  assumes "reload_inv pa bo old h0 ps acc h" and "a \<in> set (po_entries (ra_pool acc))"
  shows "\<exists>q\<in>set ps. placed pa bo old h0 h q a"
proof -
  have "list_all2 (placed pa bo old h0 h) ps (po_entries (ra_pool acc))"
    using assms by (simp add: reload_inv_def)
  then show ?thesis using assms(2) by (induction rule: list_all2_induct) auto
qed

lemma set_tags_same: "en_tags e = ts \<Longrightarrow> set_tags ts e = e"
  by (auto simp: set_tags_def)

lemma reload_retain_at:
  "hp_at (reload_retain q a h) = (hp_at h)(a := set_tags (pp_tags q) (hp_at h a))"
  by (auto simp: reload_retain_def heap_upd_def set_tags_same)

lemma reload_retain_next [simp]: "hp_next (reload_retain q a h) = hp_next h"
  by (simp add: reload_retain_def heap_upd_def)

lemma reload_loop_inv:
  assumes "reload_loop pa bo old qs acc h = Inr (acc', h')"
    and "reload_inv pa bo old h0 ps acc h" and "distinct (map pp_url (ps @ qs))" and "old_ok old h0"
  shows "reload_inv pa bo old h0 (ps @ qs) acc' h'"
  using assms
proof (induction qs arbitrary: acc h ps)
  case (Cons q qs)
  note inv = Cons.prems(2)
  have new: "pp_url q \<notin> pp_url ` set ps" using Cons.prems(3) by auto
  have dist: "distinct (map pp_url ((ps @ [q]) @ qs))" using Cons.prems(3) by simp
  show ?case
  proof (cases "map_of old (pp_url q)")
    case (Some b)
    let ?acc1 = "acc\<lparr>ra_pool := acc_push (pp_url q) b (ra_pool acc), ra_retained := ra_retained acc + 1\<rparr>"
    have b: "b < hp_next h0" "en_url (hp_at h0 b) = pp_url q"
      using Some Cons.prems(4) by (auto simp: old_ok_def)
    have fresh: "b \<notin> set (po_entries (ra_pool acc))"
    proof
      assume "b \<in> set (po_entries (ra_pool acc))"
      then obtain q' where q': "q' \<in> set ps" "placed pa bo old h0 h q' b"
        using reload_inv_entries [OF inv] by blast
      with b have "en_url (hp_at h0 b) = pp_url q'"
        by (auto simp: placed_def split: option.splits)
      with b(2) have "pp_url q' = pp_url q" by simp
      with q'(1) new show False by (metis imageI)
    qed
    then have same: "hp_at h b = hp_at h0 b" and grow: "hp_next h0 \<le> hp_next h"
      using inv b by (auto simp: reload_inv_def)
    have "placed pa bo old h0 (reload_retain q b h) q b"
      using Some b same grow by (simp add: placed_def reload_retain_at)
    then have "reload_inv pa bo old h0 (ps @ [q]) ?acc1 (reload_retain q b h)"
      using Some fresh by (intro reload_inv_step [OF inv new]) (auto simp: reload_retain_at)
    with Cons.IH [OF _ this dist Cons.prems(4)] Cons.prems(1) Some show ?thesis by simp
  next
    case None
    with Cons.prems(1) obtain e where e: "entry_new pa bo (pp_url q) (pp_tags q) = Inr e"
      by (auto split: sum.splits)
    let ?a = "hp_next h" and ?h1 = "snd (heap_alloc e h)"
    let ?acc1 = "acc\<lparr>ra_pool := acc_push (pp_url q) ?a (ra_pool acc), ra_added := ra_added acc + 1\<rparr>"
    have fresh: "?a \<notin> set (po_entries (ra_pool acc))"
      using reload_inv_entries [OF inv] by (auto simp: placed_def)
    have grow: "hp_next h0 \<le> hp_next h" using inv by (simp add: reload_inv_def)
    have "placed pa bo old h0 ?h1 q ?a"
      using None e grow by (simp add: placed_def heap_alloc_def)
    then have "reload_inv pa bo old h0 (ps @ [q]) ?acc1 ?h1"
      using None fresh by (intro reload_inv_step [OF inv new]) (auto simp: heap_alloc_def)
    with Cons.IH [OF _ this dist Cons.prems(4)] Cons.prems(1) None e show ?thesis
      by (simp add: heap_alloc_def)
  qed
qed simp

lemma reload_inv_start: "reload_inv pa bo old h [] reload_acc0 h"
  by (simp add: reload_inv_def reload_acc0_def)

lemma reload_inv_pool_ok:
  assumes inv: "reload_inv pa bo old h0 ps acc h" and dist: "distinct (map pp_url ps)"
  shows "pool_ok (ra_pool acc) h"
proof -
  note I = inv [unfolded reload_inv_def]
  have urls: "map (\<lambda>a. en_url (hp_at h a)) (po_entries (ra_pool acc)) = map pp_url ps"
    using I placed_urls by blast
  have len: "length ps = length (po_entries (ra_pool acc))"
    using I by (auto dest: list_all2_lengthD)
  have by_url: "po_by_url (ra_pool acc) = map (\<lambda>a. (en_url (hp_at h a), a)) (po_entries (ra_pool acc))"
  proof -
    have "po_by_url (ra_pool acc) = zip (map (\<lambda>a. en_url (hp_at h a)) (po_entries (ra_pool acc))) (po_entries (ra_pool acc))"
      using I by (simp add: urls)
    then show ?thesis by (simp add: zip_map1 zip_same_conv_map)
  qed
  have "a < hp_next h" if "a \<in> set (po_entries (ra_pool acc))" for a
    using reload_inv_entries [OF inv that] by (auto simp: placed_def)
  with dist urls by_url show ?thesis
    by (simp add: pool_ok_def comp_def)
qed

lemma pool_ok_old_ok: "pool_ok p h \<Longrightarrow> old_ok (po_by_url p) h"
  by (auto simp: old_ok_def pool_ok_def dest!: map_of_SomeD)

lemma pool_new_reload:
  "pool_new_loop pa bo qs p h =
     (case reload_loop pa bo [] qs \<lparr>ra_pool = p, ra_added = n, ra_retained = m\<rparr> h of
        Inl e \<Rightarrow> Inl e | Inr (acc, h1) \<Rightarrow> Inr (ra_pool acc, h1))"
proof (induction qs arbitrary: p h n)
  case (Cons q qs)
  show ?case
  proof (cases "entry_new pa bo (pp_url q) (pp_tags q)")
    case (Inr e)
    then have "en_url e = pp_url q" using entry_new_cold by blast
    with Inr show ?thesis
      by (simp add: heap_alloc_def acc_push_def Cons.IH [of _ _ "Suc n"])
  qed simp
qed simp

lemma reload_inv_tags:
  assumes inv: "reload_inv pa bo old h0 ps acc h"
  shows "map (\<lambda>a. (en_url (hp_at h a), en_tags (hp_at h a))) (po_entries (ra_pool acc))
    = map (\<lambda>q. (pp_url q, pp_tags q)) ps"
proof -
  have "list_all2 (placed pa bo old h0 h) ps (po_entries (ra_pool acc))"
    using inv by (simp add: reload_inv_def)
  then show ?thesis by (induction rule: list_all2_induct) (auto dest: placed_url placed_tags)
qed

text \<open>The early return leaves the pool as it is; it is then already the parsed set.\<close>

lemma reload_unchanged:
  assumes ok: "pool_ok p h" and dist: "distinct (map pp_url parsed)"
    and inv: "reload_inv pa bo (po_by_url p) h parsed acc h'"
    and none: "ra_added acc = 0" and all: "ra_retained acc = length (po_by_url p)"
  shows "set (po_entries (ra_pool acc)) = set (po_entries p)"
proof -
  note I = inv [unfolded reload_inv_def]
  have known: "map_of (po_by_url p) (pp_url q) \<noteq> None" if "q \<in> set parsed" for q
    using that I none by (auto simp: filter_empty_conv)
  then have "length (filter (\<lambda>q. map_of (po_by_url p) (pp_url q) \<noteq> None) parsed) = length parsed"
    by (metis (mono_tags, lifting) filter_True)
  with I all have len: "length parsed = length (po_entries p)"
    by (simp add: pool_ok_length [OF ok])
  have sub: "set (po_entries (ra_pool acc)) \<subseteq> set (po_entries p)"
  proof
    fix a assume "a \<in> set (po_entries (ra_pool acc))"
    then obtain q where q: "q \<in> set parsed" "placed pa bo (po_by_url p) h h' q a"
      using reload_inv_entries [OF inv] by blast
    with known [OF q(1)] have "map_of (po_by_url p) (pp_url q) = Some a"
      by (auto simp: placed_def)
    then have "(pp_url q, a) \<in> set (po_by_url p)" by (rule map_of_SomeD)
    with ok show "a \<in> set (po_entries p)" by (auto simp: pool_ok_def)
  qed
  have "distinct (po_entries (ra_pool acc))" and "distinct (po_entries p)"
    using reload_inv_pool_ok [OF inv dist] ok by (auto simp: pool_ok_def distinct_map)
  moreover have "length (po_entries (ra_pool acc)) = length parsed"
    using I by (auto dest: list_all2_lengthD)
  ultimately have "card (set (po_entries (ra_pool acc))) = card (set (po_entries p))"
    using len by (simp add: distinct_card)
  with sub show ?thesis by (simp add: card_subset_eq)
qed

lemma pool_ok_same_members:
  assumes new: "pool_ok p' h'" and old: "pool_ok p h" and same: "set (po_entries p') = set (po_entries p)"
    and urls: "\<And>a. a \<in> set (po_entries p) \<Longrightarrow> en_url (hp_at h' a) = en_url (hp_at h a)"
  shows "pool_ok p h'"
proof -
  have "map (\<lambda>a. en_url (hp_at h' a)) (po_entries p) = map (\<lambda>a. en_url (hp_at h a)) (po_entries p)"
    using urls by simp
  moreover have "(\<lambda>a. (en_url (hp_at h' a), a)) ` set (po_entries p) = (\<lambda>a. (en_url (hp_at h a), a)) ` set (po_entries p)"
    using urls by (auto simp: image_iff)
  moreover have "\<forall>a\<in>set (po_entries p). a < hp_next h'"
    using new same by (auto simp: pool_ok_def)
  ultimately show ?thesis using old unfolding pool_ok_def by metis
qed

lemma placed_old_url:
  assumes "placed pa bo old h0 h q a" and "old_ok old h0" and "a < hp_next h0"
  shows "en_url (hp_at h a) = en_url (hp_at h0 a)"
  using assms by (auto simp: placed_def set_tags_def split: option.splits)

lemma pool_reload_inv:
  assumes ok: "pool_ok p h" and dist: "distinct (map pp_url parsed)"
    and run: "pool_reload pa bo parsed p h = Inr (p', h')"
  obtains acc where "reload_inv pa bo (po_by_url p) h parsed acc h'" and "pool_ok p' h'"
    and "set (po_entries p') = set (po_entries (ra_pool acc))"
proof -
  obtain acc h1 where loop: "reload_loop pa bo (po_by_url p) parsed reload_acc0 h = Inr (acc, h1)"
    using run by (auto simp: pool_reload_def split: sum.splits prod.splits)
  then have inv: "reload_inv pa bo (po_by_url p) h parsed acc h1"
    using reload_loop_inv [OF loop reload_inv_start] dist pool_ok_old_ok [OF ok] by simp
  have accok: "pool_ok (ra_pool acc) h1" using reload_inv_pool_ok [OF inv dist] .
  show thesis
  proof (cases "ra_added acc = 0 \<and> ra_retained acc = length (po_by_url p)")
    case True
    with run loop have res: "p' = p" "h' = h1" by (auto simp: pool_reload_def Let_def)
    have same: "set (po_entries (ra_pool acc)) = set (po_entries p)"
      using reload_unchanged [OF ok dist inv] True by simp
    have "en_url (hp_at h1 a) = en_url (hp_at h a)" if a: "a \<in> set (po_entries p)" for a
    proof -
      obtain q where "placed pa bo (po_by_url p) h h1 q a"
        using reload_inv_entries [OF inv] a same by blast
      moreover have "a < hp_next h" using a ok by (simp add: pool_ok_def)
      ultimately show ?thesis using placed_old_url pool_ok_old_ok [OF ok] by blast
    qed
    then have "pool_ok p h1" by (rule pool_ok_same_members [OF accok ok same])
    with that [OF inv [folded res(2)]] same res show thesis by simp
  next
    case False
    with run loop have "p' = ra_pool acc" "h' = h1"
      by (auto simp: pool_reload_def Let_def split: if_splits)
    with that inv accok show thesis by blast
  qed
qed

lemma reload_find:
  assumes inv: "reload_inv pa bo old h parsed acc h'" and ok: "pool_ok p' h'"
    and same: "set (po_entries p') = set (po_entries (ra_pool acc))" and q: "q \<in> set parsed"
  obtains a where "pool_find p' (pp_url q) = Some a" and "placed pa bo old h h' q a"
proof -
  have "list_all2 (placed pa bo old h h') parsed (po_entries (ra_pool acc))"
    using inv by (simp add: reload_inv_def)
  then have "\<exists>a\<in>set (po_entries (ra_pool acc)). placed pa bo old h h' q a"
    using q by (induction rule: list_all2_induct) auto
  then obtain a where "a \<in> set (po_entries p')" "placed pa bo old h h' q a"
    using same by blast
  with that ok show thesis by (metis placed_url pool_find_iff)
qed

subsection \<open>Properties\<close>

text \<open>
  The proxies file. Whatever the file says, the parsed list has every URL once, in order of
  first occurrence, and the tags of a URL are exactly the tags of all its lines, each once.
\<close>

lemma parse_proxies_merged:
  "map pp_url (parse_proxies content) = fold push_tag (map pp_url (line_proxies content)) []
   \<and> distinct (map pp_url (parse_proxies content))
   \<and> (\<forall>url. tags_for url (parse_proxies content) = tags_for url (line_proxies content))
   \<and> list_all (\<lambda>p. distinct (pp_tags p) \<and> str_contains (pp_url p) ''://'') (parse_proxies content)"
proof -
  have "clean_proxies (parse_proxies content)" by (rule clean_parse_proxies)
  moreover have "tags_for url [] = {}" for url by (simp add: tags_for_def)
  ultimately show ?thesis
    by (auto simp: clean_proxies_def list_all_iff parse_proxies_eq fold_merge_urls fold_merge_tags)
qed

text \<open>
  C24: Round trip of the proxies file: a list of well-formed proxies with distinct URLs, written one
  per line with \<^verbatim>\<open>tags=\<close>, parses back to itself.
\<close>

theorem parse_print_proxies:
  assumes "distinct (map pp_url ps)" and "\<forall>p\<in>set ps. proxy_ok p"
  shows "parse_proxies (print_proxies ps) = ps"
  using assms by (simp add: parse_proxies_eq line_proxies_print fold_merge_distinct)

lemma parse_print_proxies_witness:
  "parse_proxies (print_proxies
     [\<lparr>pp_url = ''http://a:1'', pp_tags = []\<rparr>, \<lparr>pp_url = ''socks5://b:2'', pp_tags = [''us'', ''x'']\<rparr>])
   = [\<lparr>pp_url = ''http://a:1'', pp_tags = []\<rparr>, \<lparr>pp_url = ''socks5://b:2'', pp_tags = [''us'', ''x'']\<rparr>]"
  by (rule parse_print_proxies)
    (simp_all add: proxy_ok_def url_ok_def tag_ok_def graphic_def str_contains_def starts_with_def)

text \<open>
  C8: Hot reload. On a consistent pool, reloading the parse of any file either aborts on a
  malformed proxy URL or gives a consistent pool whose members are exactly the parsed proxies with
  the parsed tags. A proxy already in the pool keeps its address and, its tags apart, its
  whole entry: statistics, bans and the fatal flag survive. An unknown one is a cold entry
  at a fresh address. This covers the early return of an unchanged set.
\<close>

theorem reload_keeps_state:
  assumes "pool_ok p h" and "pool_reload pa bo (parse_proxies content) p h = Inr (p', h')"
  shows "pool_ok p' h'
    \<and> (\<lambda>a. (en_url (hp_at h' a), en_tags (hp_at h' a))) ` set (pool_snapshot p')
        = (\<lambda>q. (pp_url q, pp_tags q)) ` set (parse_proxies content)
    \<and> (\<forall>q\<in>set (parse_proxies content). \<exists>a. pool_find p' (pp_url q) = Some a
         \<and> (case pool_find p (pp_url q) of
              Some b \<Rightarrow> a = b \<and> hp_at h' a = set_tags (pp_tags q) (hp_at h a)
            | None \<Rightarrow> hp_next h \<le> a \<and> entry_new pa bo (pp_url q) (pp_tags q) = Inr (hp_at h' a)))"
proof -
  have dist: "distinct (map pp_url (parse_proxies content))"
    using clean_parse_proxies by (simp add: clean_proxies_def)
  obtain acc where inv: "reload_inv pa bo (po_by_url p) h (parse_proxies content) acc h'"
    and ok: "pool_ok p' h'" and same: "set (po_entries p') = set (po_entries (ra_pool acc))"
    using pool_reload_inv [OF assms(1) dist assms(2)] by blast
  have "set (map (\<lambda>a. (en_url (hp_at h' a), en_tags (hp_at h' a))) (po_entries (ra_pool acc)))
      = set (map (\<lambda>q. (pp_url q, pp_tags q)) (parse_proxies content))"
    using reload_inv_tags [OF inv] by metis
  moreover have "\<exists>a. pool_find p' (pp_url q) = Some a
         \<and> (case pool_find p (pp_url q) of
              Some b \<Rightarrow> a = b \<and> hp_at h' a = set_tags (pp_tags q) (hp_at h a)
            | None \<Rightarrow> hp_next h \<le> a \<and> entry_new pa bo (pp_url q) (pp_tags q) = Inr (hp_at h' a))"
    if q: "q \<in> set (parse_proxies content)" for q
  proof -
    obtain a where a: "pool_find p' (pp_url q) = Some a" "placed pa bo (po_by_url p) h h' q a"
      using reload_find [OF inv ok same q] by blast
    from a(2) have "case pool_find p (pp_url q) of
              Some b \<Rightarrow> a = b \<and> hp_at h' a = set_tags (pp_tags q) (hp_at h a)
            | None \<Rightarrow> hp_next h \<le> a \<and> entry_new pa bo (pp_url q) (pp_tags q) = Inr (hp_at h' a)"
      by (simp add: placed_def pool_find_def split: option.splits)
    with a(1) show ?thesis by blast
  qed
  ultimately show ?thesis using ok same by (simp add: pool_snapshot_def)
qed

text \<open>A pool of one proxy with a learned latency, for the concrete runs.\<close>

definition sample_entry :: entry where
  "sample_entry =
     \<lparr>en_url = ''http://a:1'', en_upstream = \<lparr>us_kind = HttpProxy base_client_builder\<rparr>, en_tags = [''us''],
      en_global = global_stats_default, en_transport_fatal = True, en_transport_fatal_since_ms = 5,
      en_transport_fatal_count = 1, en_round_robin = 0,
      en_by_route = Map.empty(1 \<mapsto> observe_success 7 40 route_state_default)\<rparr>"

definition sample_heap :: heap where
  "sample_heap = \<lparr>hp_at = (\<lambda>_. sample_entry), hp_next = 1\<rparr>"

definition sample_pool :: proxy_pool where
  "sample_pool = \<lparr>po_entries = [0], po_by_url = [(''http://a:1'', 0)]\<rparr>"

definition sample_file :: string where
  "sample_file = print_proxies
     [\<lparr>pp_url = ''http://b:2'', pp_tags = []\<rparr>, \<lparr>pp_url = ''http://a:1'', pp_tags = [''eu'']\<rparr>]"

lemma sample_parse:
  "parse_proxies sample_file
    = [\<lparr>pp_url = ''http://b:2'', pp_tags = []\<rparr>, \<lparr>pp_url = ''http://a:1'', pp_tags = [''eu'']\<rparr>]"
  unfolding sample_file_def parse_proxies_eq
  by (subst line_proxies_print)
    (simp_all add: proxy_ok_def url_ok_def tag_ok_def graphic_def str_contains_def starts_with_def)

lemma sample_ok: "pool_ok sample_pool sample_heap"
  by (simp add: pool_ok_def sample_pool_def sample_heap_def sample_entry_def)

lemma sample_reload:
  "\<exists>r. pool_reload (\<lambda>_. True) (\<lambda>_. True) (parse_proxies sample_file) sample_pool sample_heap = Inr r"
  by (simp add: sample_parse pool_reload_def sample_pool_def entry_new_def parse_upstream_def Let_def
      starts_with_def trim_graphic graphic_def reload_acc0_def heap_alloc_def split: if_splits)

lemma reload_keeps_state_witness:
  "\<exists>p' h'. pool_reload (\<lambda>_. True) (\<lambda>_. True) (parse_proxies sample_file) sample_pool sample_heap = Inr (p', h')
     \<and> pool_ok p' h' \<and> pool_find p' ''http://a:1'' = Some 0
     \<and> hp_at h' 0 = set_tags [''eu''] sample_entry"
proof -
  obtain p' h' where run: "pool_reload (\<lambda>_. True) (\<lambda>_. True) (parse_proxies sample_file) sample_pool sample_heap = Inr (p', h')"
    using sample_reload by auto
  from reload_keeps_state [OF sample_ok run] run show ?thesis
    by (auto simp: sample_parse pool_find_def sample_pool_def sample_heap_def)
qed

end
