(* ===== verification/LuaApi.thy ===== *)
theory LuaApi
  imports LuaValue Prelude
begin

text \<open>
  \<^verbatim>\<open>intermediate-proxy/src/lua/api.rs\<close>: what the hooks are given and how their answers are
  read. Every malformed answer has a default, so the readers are total: a response
  verdict falls back to success, an exhausted verdict to the fatal fallback.
\<close>

record hook_ctx =
  hc_route_name :: string
  hc_target_url :: string
  hc_host :: string
  hc_path :: string
  hc_method :: string
  hc_headers :: "(string \<times> string) list"
  hc_attempt :: u32
  hc_proxy_url :: "string option"
  hc_proxy_tags :: "string list"
  hc_elapsed_ms :: u64

record hook_res =
  hr_status :: u16
  hr_headers :: "(string \<times> string) list"
  hr_body_preview :: "string option"
  hr_elapsed_ms :: u64
  hr_bytes_received :: u64

datatype response_verdict =
    RV_Success
  | RV_RetryOtherProxy u64
  | RV_RetrySameProxy u64
  | RV_ReturnAsIs
  | RV_HardFail string
  | RV_GiveUp u16 string

datatype exhausted_verdict =
    EV_TryFatal
  | EV_WaitProbe u64
  | EV_ReturnError u16 string
  | EV_RetryAll

datatype probe_outcome = PO_Ok | PO_StillBanned | PO_GiveUpRoute

record request_mods =
  rm_add_headers :: "(string \<times> string) list"
  rm_drop_headers :: "string list"
  rm_override_all_tags :: "string list option"
  rm_force_proxy :: "string option"

definition request_mods_default :: request_mods where
  "request_mods_default =
     \<lparr>rm_add_headers = [], rm_drop_headers = [], rm_override_all_tags = None, rm_force_proxy = None\<rparr>"

definition vnum_as :: "'t lua_ops \<Rightarrow> 't \<Rightarrow> string \<Rightarrow> 'a::len word \<Rightarrow> 'a word" where
  "vnum_as L t key d = unwrap_or (map_option f64_as (vnum L t key)) d"

definition parse_response_verdict :: "'t lua_ops \<Rightarrow> 't lua_value \<Rightarrow> u64 \<Rightarrow> response_verdict" where
  "parse_response_verdict L v default_ban_ms =
     (case v of
        L_Table t \<Rightarrow>
          (case vstr L t ''verdict'' of
             Some w \<Rightarrow>
               if w = ''success'' then RV_Success
               else if w = ''retry_other_proxy'' then RV_RetryOtherProxy (vnum_as L t ''ban_for_ms'' default_ban_ms)
               else if w = ''retry_same_proxy'' then RV_RetrySameProxy (vnum_as L t ''delay_ms'' 0)
               else if w = ''return_as_is'' then RV_ReturnAsIs
               else if w = ''hard_fail'' then RV_HardFail (unwrap_or (vstr L t ''reason'') ''hard_fail'')
               else if w = ''give_up''
               then RV_GiveUp (vnum_as L t ''status'' 502) (unwrap_or (vstr L t ''body'') ''proxy gave up'')
               else RV_Success
           | None \<Rightarrow> RV_Success)
      | _ \<Rightarrow> RV_Success)"

definition parse_exhausted_verdict :: "'t lua_ops \<Rightarrow> 't lua_value \<Rightarrow> exhausted_verdict" where
  "parse_exhausted_verdict L v =
     (case v of
        L_Table t \<Rightarrow>
          (case vstr L t ''verdict'' of
             Some w \<Rightarrow>
               if w = ''try_fatal'' then EV_TryFatal
               else if w = ''wait_probe'' then EV_WaitProbe (vnum_as L t ''timeout_ms'' 5000)
               else if w = ''return_error''
               then EV_ReturnError (vnum_as L t ''status'' 502) (unwrap_or (vstr L t ''body'') ''all proxies exhausted'')
               else if w = ''retry_all'' then EV_RetryAll
               else EV_TryFatal
           | None \<Rightarrow> EV_TryFatal)
      | _ \<Rightarrow> EV_TryFatal)"

definition parse_request_mods :: "'t lua_ops \<Rightarrow> 't lua_value \<Rightarrow> request_mods" where
  "parse_request_mods L v =
     (case v of
        L_Table t \<Rightarrow>
          (let m1 = (case lo_get L t ''add_headers'' of
                 Some (L_Table add) \<Rightarrow> request_mods_default
                   \<lparr>rm_add_headers := map (\<lambda>(k, x). (to_ascii_lowercase k, x)) (flatten (lo_pairs L add))\<rparr>
               | _ \<Rightarrow> request_mods_default);
             m2 = (case lo_get L t ''drop_headers'' of
                 Some (L_Table drp) \<Rightarrow>
                   m1\<lparr>rm_drop_headers := map to_ascii_lowercase (flatten (lo_strings L drp))\<rparr>
               | _ \<Rightarrow> m1);
             m3 = (case lo_get L t ''override_pool'' of
                 Some (L_Table tags) \<Rightarrow>
                   (case lo_get L tags ''tags'' of
                      Some (L_Table lst) \<Rightarrow>
                        m2\<lparr>rm_override_all_tags := Some (flatten (lo_strings L lst))\<rparr>
                    | _ \<Rightarrow> m2)
               | _ \<Rightarrow> m2)
           in (case vstr L t ''force_proxy'' of
                 Some fp \<Rightarrow> m3\<lparr>rm_force_proxy := Some fp\<rparr>
               | None \<Rightarrow> m3))
      | _ \<Rightarrow> request_mods_default)"

definition status_outcome :: "u16 list \<Rightarrow> u16 \<Rightarrow> probe_outcome" where
  "status_outcome ok_statuses status =
     (if status \<in> set ok_statuses then PO_Ok else PO_StillBanned)"

definition parse_probe_outcome :: "'t lua_value \<Rightarrow> u16 list \<Rightarrow> u16 \<Rightarrow> probe_outcome" where
  "parse_probe_outcome v ok_statuses status =
     (case v of
        L_String s \<Rightarrow>
          if s = ''ok'' then PO_Ok
          else if s = ''give_up_route'' then PO_GiveUpRoute
          else PO_StillBanned
      | L_Boolean b \<Rightarrow> if b then PO_Ok else status_outcome ok_statuses status
      | L_Nil \<Rightarrow> status_outcome ok_statuses status
      | _ \<Rightarrow> PO_StillBanned)"

subsection \<open>What the readers accept\<close>

definition verdict_names :: "string list" where
  "verdict_names = [''success'', ''retry_other_proxy'', ''retry_same_proxy'', ''return_as_is'', ''hard_fail'', ''give_up'']"

definition verdict_of :: "'t lua_ops \<Rightarrow> 't lua_value \<Rightarrow> string option" where
  "verdict_of L v = (case v of L_Table t \<Rightarrow> vstr L t ''verdict'' | _ \<Rightarrow> None)"

lemma vnum_as_int:
  assumes "lo_get L t key = Some (L_Integer i)" and "i < 2 ^ 53"
  shows "unat (vnum_as L t key d :: 'a::len word) = min (nat i) (2 ^ LENGTH('a) - 1)"
  using assms by (simp add: vnum_as_def vnum_Integer f64_as_int)

lemma fail_open:
  assumes "\<And>w. verdict_of L v = Some w \<Longrightarrow> w \<notin> set verdict_names"
  shows "parse_response_verdict L v d = RV_Success"
  using assms
  by (auto simp: parse_response_verdict_def verdict_of_def verdict_names_def split: lua_value.split option.split)

lemma probe_give_up_iff:
  "parse_probe_outcome v oks s = PO_GiveUpRoute \<longleftrightarrow> v = L_String ''give_up_route''"
  by (auto simp: parse_probe_outcome_def status_outcome_def split: lua_value.split)

lemma probe_ok_iff:
  "parse_probe_outcome v oks s = PO_Ok \<longleftrightarrow>
     v = L_String ''ok'' \<or> v = L_Boolean True \<or> (v = L_Nil \<or> v = L_Boolean False) \<and> s \<in> set oks"
  by (auto simp: parse_probe_outcome_def status_outcome_def split: lua_value.split)

subsection \<open>Properties\<close>

text \<open>
  Response verdicts fail open: an answer that is not a table, or whose \<open>verdict\<close> is missing,
  not a valid string or unknown, counts as success.
\<close>

lemma response_verdict_fail_open:
  assumes "\<And>w. verdict_of L v = Some w \<Longrightarrow> w \<notin> set verdict_names"
  shows "parse_response_verdict L v default_ban_ms = RV_Success"
  using assms by (rule fail_open)

lemma response_verdict_fail_open_witness:
  "parse_response_verdict plain_ops
     (L_Table (Plain [(''verdict'', L_String ''retry''), (''ban_for_ms'', L_Integer 5)] [])) 7 = RV_Success"
  by (rule response_verdict_fail_open)
    (simp add: verdict_of_def vstr_def verdict_names_def utf8_valid_ascii)

text \<open>
  A retry verdict bans for exactly the number of milliseconds the script gave, as long as it
  is an integer below 2 to the 53, with a negative number read as 0; without the key the
  route's default is used.
\<close>

lemma retry_verdict_ban:
  assumes "vstr L t ''verdict'' = Some ''retry_other_proxy''"
  shows "\<exists>ms. parse_response_verdict L (L_Table t) default_ban_ms = RV_RetryOtherProxy ms
    \<and> (lo_get L t ''ban_for_ms'' = Some L_Nil \<longrightarrow> ms = default_ban_ms)
    \<and> (\<forall>i. lo_get L t ''ban_for_ms'' = Some (L_Integer i) \<and> i < 2 ^ 53 \<longrightarrow> unat ms = nat i)"
proof -
  let ?ms = "vnum_as L t ''ban_for_ms'' default_ban_ms"
  have "unat ?ms = nat i" if "lo_get L t ''ban_for_ms'' = Some (L_Integer i)" "i < 2 ^ 53" for i
  proof -
    from that(2) have "nat i \<le> 2 ^ 64 - 1" by simp
    with vnum_as_int [OF that, where 'a = 64] show ?thesis by simp
  qed
  moreover have "?ms = default_ban_ms" if "lo_get L t ''ban_for_ms'' = Some L_Nil"
    using that by (simp add: vnum_as_def vnum_def)
  moreover have "parse_response_verdict L (L_Table t) default_ban_ms = RV_RetryOtherProxy ?ms"
    using assms by (simp add: parse_response_verdict_def)
  ultimately show ?thesis by blast
qed

lemma retry_verdict_ban_witness:
  "\<exists>ms. parse_response_verdict plain_ops
      (L_Table (Plain [(''verdict'', L_String ''retry_other_proxy''), (''ban_for_ms'', L_Integer 60000)] [])) 7
      = RV_RetryOtherProxy ms \<and> unat ms = 60000"
  using retry_verdict_ban [of plain_ops
      "Plain [(''verdict'', L_String ''retry_other_proxy''), (''ban_for_ms'', L_Integer 60000)] []" 7]
  by (auto simp: vstr_def utf8_valid_ascii)

end
