(* ===== verification/RouteConfig.thy ===== *)
theory RouteConfig
  imports RouteDef LuaApi
begin

text \<open>
  \<^verbatim>\<open>intermediate-proxy/src/route/config.rs\<close> lines 106 to 408: reading the table that the
  routes script returns. Readers of single keys never fail; a missing \<open>match\<close>, an invalid
  regex, a non-table route and an empty route list do. \<open>route_wf\<close> is what the rest of the program
  relies on: at least one attempt, at least one parallel request, ids counted from 1.
\<close>

record defaults =
  df_max_attempts :: u64
  df_timeout_ms :: u64
  df_slow_ms :: u64
  df_fail_streak :: u32
  df_attempt_backoff_ms :: u64
  df_capture_body_bytes :: u64
  df_prefer_non_reserve :: bool
  df_prefer_tags :: "string list"
  df_exclude_tags :: "string list"
  df_default_ban_ms :: u64
  df_selector :: selector
  df_hedge :: hedge_cfg

definition get_num :: "'t lua_ops \<Rightarrow> 't \<Rightarrow> string \<Rightarrow> f64 option" where
  "get_num L t key =
     (case lo_get L t key of
        Some (L_Integer i) \<Rightarrow> Some (f64_of_i64 i)
      | Some (L_Number n) \<Rightarrow> Some n
      | _ \<Rightarrow> None)"

definition get_u64 :: "'t lua_ops \<Rightarrow> 't \<Rightarrow> string \<Rightarrow> u64 \<Rightarrow> u64" where
  "get_u64 L t key d = unwrap_or (map_option f64_as (get_num L t key)) d"

definition get_usize :: "'t lua_ops \<Rightarrow> 't \<Rightarrow> string \<Rightarrow> u64 \<Rightarrow> u64" where
  "get_usize L t key d = unwrap_or (map_option f64_as (get_num L t key)) d"

definition get_bool :: "'t lua_ops \<Rightarrow> 't \<Rightarrow> string \<Rightarrow> bool \<Rightarrow> bool" where
  "get_bool L t key d = (case lo_get L t key of Some (L_Boolean b) \<Rightarrow> b | _ \<Rightarrow> d)"

definition get_string :: "'t lua_ops \<Rightarrow> 't \<Rightarrow> string \<Rightarrow> string option" where
  "get_string L t key =
     (case lo_get L t key of
        Some (L_String s) \<Rightarrow> if utf8_valid s then Some s else None
      | _ \<Rightarrow> None)"

definition get_string_list :: "'t lua_ops \<Rightarrow> 't \<Rightarrow> string \<Rightarrow> string list" where
  "get_string_list L t key =
     (case lo_get L t key of Some (L_Table lst) \<Rightarrow> flatten (lo_strings L lst) | _ \<Rightarrow> [])"

definition is_function :: "'t lua_ops \<Rightarrow> 't \<Rightarrow> string \<Rightarrow> bool" where
  "is_function L t key = (lo_get L t key = Some L_Function)"

definition parse_selector :: "'t lua_ops \<Rightarrow> 't \<Rightarrow> selector \<Rightarrow> selector" where
  "parse_selector L t d =
     (case get_string L t ''selector'' of
        Some w \<Rightarrow>
          if w = ''best_latency'' then BestLatency
          else if w = ''round_robin'' then RoundRobin
          else if w = ''random'' then Random
          else if w = ''hedge'' then Hedge
          else if w = ''sticky_by_header''
          then StickyByHeader (to_ascii_lowercase (unwrap_or (get_string L t ''sticky_header'') ''authorization''))
          else d
      | None \<Rightarrow> d)"

definition parse_hedge :: "'t lua_ops \<Rightarrow> 't \<Rightarrow> hedge_cfg \<Rightarrow> hedge_cfg" where
  "parse_hedge L t d =
     (case lo_get L t ''hedge'' of
        Some (L_Table h) \<Rightarrow>
          \<lparr>hg_max_parallel = max (get_usize L h ''max_parallel'' (hg_max_parallel d)) 1,
           hg_delay_ms = get_u64 L h ''delay_ms'' (hg_delay_ms d)\<rparr>
      | _ \<Rightarrow> d)"

definition parse_host :: "(string \<Rightarrow> string + 'r) \<Rightarrow> 't lua_ops \<Rightarrow> 't \<Rightarrow> string + 'r host_match" where
  "parse_host regex_new L m =
     (case get_string L m ''host_regex'' of
        Some re \<Rightarrow>
          (case regex_new re of Inl e \<Rightarrow> Inl (''host_regex: '' @ e) | Inr r \<Rightarrow> Inr (HostRegex r))
      | None \<Rightarrow>
          (case get_string L m ''host'' of
             Some h \<Rightarrow>
               if h = ''*'' then Inr HostAny
               else (case strip_prefix ''*.'' h of
                   Some rest \<Rightarrow> Inr (HostSuffix (CHR ''.'' # rest))
                 | None \<Rightarrow> Inr (HostExact h))
           | None \<Rightarrow> Inr HostAny))"

definition parse_path :: "(string \<Rightarrow> string + 'r) \<Rightarrow> 't lua_ops \<Rightarrow> 't \<Rightarrow> string + 'r path_match" where
  "parse_path regex_new L m =
     (case get_string L m ''path_regex'' of
        Some re \<Rightarrow>
          (case regex_new re of Inl e \<Rightarrow> Inl (''path_regex: '' @ e) | Inr r \<Rightarrow> Inr (PathRegex r))
      | None \<Rightarrow>
          (case get_string L m ''path'' of
             Some g \<Rightarrow>
               if g = ''*'' \<or> g = ''/**'' then Inr PathAny
               else (let pre = take (length g - 3) g in
                 if ends_with g ''/**'' \<and> \<not> (\<exists>c\<in>set pre. c = CHR ''*'' \<or> c = CHR ''?'')
                 then Inr (PathPrefix pre)
                 else (case glob_to_regex regex_new g of
                     Inl e \<Rightarrow> Inl (''path glob: '' @ e)
                   | Inr r \<Rightarrow> Inr (PathGlob r)))
           | None \<Rightarrow> Inr PathAny))"

definition parse_methods :: "'t lua_ops \<Rightarrow> 't \<Rightarrow> string list option" where
  "parse_methods L m =
     (case lo_get L m ''methods'' of
        Some (L_Table lst) \<Rightarrow>
          (let v = flatten (lo_strings L lst) in if v = [] then None else Some v)
      | _ \<Rightarrow> None)"

definition parse_matcher :: "(string \<Rightarrow> string + 'r) \<Rightarrow> 't lua_ops \<Rightarrow> 't \<Rightarrow> string + 'r matcher" where
  "parse_matcher regex_new L route =
     (case lo_get L route ''match'' of
        Some (L_Table m) \<Rightarrow>
          (case parse_host regex_new L m of
             Inl e \<Rightarrow> Inl e
           | Inr host \<Rightarrow>
               (case parse_path regex_new L m of
                  Inl e \<Rightarrow> Inl e
                | Inr path \<Rightarrow>
                    Inr \<lparr>mt_host = host, mt_path = path, mt_methods = parse_methods L m,
                         mt_has_predicate = is_function L m ''predicate''\<rparr>))
      | _ \<Rightarrow> Inl ''route.match missing or not a table'')"

definition base_hedge :: hedge_cfg where
  "base_hedge = \<lparr>hg_max_parallel = 4, hg_delay_ms = 700\<rparr>"

definition parse_defaults :: "'t lua_ops \<Rightarrow> 't \<Rightarrow> defaults" where
  "parse_defaults L cfg =
     (case lo_get L cfg ''defaults'' of
        Some (L_Table d) \<Rightarrow>
          \<lparr>df_max_attempts = max (get_usize L d ''max_attempts'' 5) 1,
           df_timeout_ms = get_u64 L d ''timeout_ms'' 10000,
           df_slow_ms = get_u64 L d ''slow_ms'' 3000,
           df_fail_streak = ucast (get_u64 L d ''fail_streak'' 2),
           df_attempt_backoff_ms = get_u64 L d ''attempt_backoff_ms'' 0,
           df_capture_body_bytes = get_usize L d ''capture_body_bytes'' 0,
           df_prefer_non_reserve = get_bool L d ''prefer_non_reserve'' True,
           df_prefer_tags = get_string_list L d ''prefer_tags'',
           df_exclude_tags = get_string_list L d ''exclude_tags'',
           df_default_ban_ms = get_u64 L d ''default_ban_ms'' (5 * 60000),
           df_selector = parse_selector L d BestLatency,
           df_hedge = parse_hedge L d base_hedge\<rparr>
      | _ \<Rightarrow>
          \<lparr>df_max_attempts = 5, df_timeout_ms = 10000, df_slow_ms = 3000, df_fail_streak = 2,
           df_attempt_backoff_ms = 0, df_capture_body_bytes = 0, df_prefer_non_reserve = True,
           df_prefer_tags = [], df_exclude_tags = [], df_default_ban_ms = 5 * 60000,
           df_selector = BestLatency, df_hedge = \<lparr>hg_max_parallel = 4, hg_delay_ms = 700\<rparr>\<rparr>)"

definition parse_probe :: "'t lua_ops \<Rightarrow> 't \<Rightarrow> probe_cfg option" where
  "parse_probe L route =
     (case lo_get L route ''probe'' of
        Some (L_Table p) \<Rightarrow>
          (case get_string L p ''url'' of
             None \<Rightarrow> None
           | Some url \<Rightarrow>
               Some \<lparr>pb_url = url,
                 pb_interval_ms = get_u64 L p ''interval_ms'' (10 * 60000),
                 pb_ok_statuses = (case lo_get L p ''ok_statuses'' of
                     Some (L_Table lst) \<Rightarrow> map word_of_int (flatten (lo_ints L lst))
                   | _ \<Rightarrow> [200]),
                 pb_has_classify = is_function L p ''classify'',
                 pb_headers = (case lo_get L p ''headers'' of
                     Some (L_Table t) \<Rightarrow> map (\<lambda>(k, v). (to_ascii_lowercase k, v)) (flatten (lo_pairs L t))
                   | _ \<Rightarrow> [])\<rparr>)
      | _ \<Rightarrow> None)"

definition is_table :: "'t lua_ops \<Rightarrow> 't \<Rightarrow> string \<Rightarrow> bool" where
  "is_table L t key = (case lo_get L t key of Some (L_Table _) \<Rightarrow> True | _ \<Rightarrow> False)"

definition parse_route :: "(string \<Rightarrow> string + 'r) \<Rightarrow> 't lua_ops \<Rightarrow> defaults \<Rightarrow> nat \<Rightarrow> 't \<Rightarrow> string + 'r route" where
  "parse_route regex_new L df i route =
     (let idx = of_nat (i + 1) :: u32;
          name = unwrap_or (get_string L route ''name'') (''route-'' @ show_nat (unat idx))
      in (case parse_matcher regex_new L route of
            Inl e \<Rightarrow> Inl (''route '' @ CHR 0x27 # name @ CHR 0x27 # '': '' @ e)
          | Inr m \<Rightarrow> Inr
             \<lparr>rd_id = idx, rd_name = name, rd_matcher = m,
              rd_pool_all_tags = (case lo_get L route ''pool'' of
                  Some (L_Table p) \<Rightarrow> get_string_list L p ''tags'' | _ \<Rightarrow> []),
              rd_pool_any_tags = (case lo_get L route ''pool'' of
                  Some (L_Table p) \<Rightarrow> get_string_list L p ''any_tags'' | _ \<Rightarrow> []),
              rd_prefer_tags = (if is_table L route ''prefer_tags''
                  then get_string_list L route ''prefer_tags'' else df_prefer_tags df),
              rd_exclude_tags = (if is_table L route ''exclude_tags''
                  then get_string_list L route ''exclude_tags'' else df_exclude_tags df),
              rd_selector = parse_selector L route (df_selector df),
              rd_hedge = parse_hedge L route (df_hedge df),
              rd_max_attempts = max (get_usize L route ''max_attempts'' (df_max_attempts df)) 1,
              rd_timeout_ms = get_u64 L route ''timeout_ms'' (df_timeout_ms df),
              rd_slow_ms = get_u64 L route ''slow_ms'' (df_slow_ms df),
              rd_fail_streak = ucast (get_u64 L route ''fail_streak'' (ucast (df_fail_streak df))),
              rd_attempt_backoff_ms = get_u64 L route ''attempt_backoff_ms'' (df_attempt_backoff_ms df),
              rd_capture_body_bytes = get_usize L route ''capture_body_bytes'' (df_capture_body_bytes df),
              rd_prefer_non_reserve = get_bool L route ''prefer_non_reserve'' (df_prefer_non_reserve df),
              rd_default_ban_ms = get_u64 L route ''default_ban_ms'' (df_default_ban_ms df),
              rd_hooks = \<lparr>hk_on_request = is_function L route ''on_request'',
                          hk_on_response = is_function L route ''on_response'',
                          hk_on_exhausted = is_function L route ''on_exhausted''\<rparr>,
              rd_probe = parse_probe L route,
              rd_cursor = 0\<rparr>))"

fun parse_routes :: "(string \<Rightarrow> string + 'r) \<Rightarrow> 't lua_ops \<Rightarrow> defaults \<Rightarrow> nat \<Rightarrow> (string + 't) list
    \<Rightarrow> string + 'r route list" where
  "parse_routes regex_new L df i [] = Inr []"
| "parse_routes regex_new L df i (rv # rvs) =
     (case rv of
        Inl e \<Rightarrow> Inl (''route #'' @ show_nat (unat (of_nat (i + 1) :: u32)) @ '': '' @ e)
      | Inr t \<Rightarrow>
          (case parse_route regex_new L df i t of
             Inl e \<Rightarrow> Inl e
           | Inr r \<Rightarrow>
               (case parse_routes regex_new L df (i + 1) rvs of
                  Inl e \<Rightarrow> Inl e
                | Inr rs \<Rightarrow> Inr (r # rs))))"

definition parse_router_config :: "(string \<Rightarrow> string + 'r) \<Rightarrow> 't lua_ops \<Rightarrow> 't \<Rightarrow> string + 'r router_config" where
  "parse_router_config regex_new L cfg =
     (let df = parse_defaults L cfg in
      case lo_get L cfg ''routes'' of
        Some (L_Table tbl) \<Rightarrow>
          (case parse_routes regex_new L df 0 (lo_tables L tbl) of
             Inl e \<Rightarrow> Inl e
           | Inr rs \<Rightarrow> if rs = [] then Inl ''config.routes is empty'' else Inr \<lparr>rc_routes = rs\<rparr>)
      | _ \<Rightarrow> Inl ''config.routes missing or not a table'')"

subsection \<open>Well-formed routes\<close>

definition route_wf :: "'r route \<Rightarrow> bool" where
  "route_wf r =
     (1 \<le> rd_max_attempts r \<and> 1 \<le> hg_max_parallel (rd_hedge r) \<and> rd_cursor r = 0
      \<and> (case rd_selector r of StickyByHeader h \<Rightarrow> to_ascii_lowercase h = h | _ \<Rightarrow> True)
      \<and> mt_methods (rd_matcher r) \<noteq> Some [])"

definition defaults_wf :: "defaults \<Rightarrow> bool" where
  "defaults_wf df =
     (1 \<le> df_max_attempts df \<and> 1 \<le> hg_max_parallel (df_hedge df)
      \<and> (case df_selector df of StickyByHeader h \<Rightarrow> to_ascii_lowercase h = h | _ \<Rightarrow> True))"

lemma parse_hedge_ge: "1 \<le> hg_max_parallel d \<Longrightarrow> 1 \<le> hg_max_parallel (parse_hedge L t d)"
  by (simp add: parse_hedge_def split: option.split lua_value.split)

lemma parse_selector_lower:
  "case d of StickyByHeader h \<Rightarrow> to_ascii_lowercase h = h | _ \<Rightarrow> True \<Longrightarrow>
   case parse_selector L t d of StickyByHeader h \<Rightarrow> to_ascii_lowercase h = h | _ \<Rightarrow> True"
  by (simp add: parse_selector_def to_ascii_lowercase_idem split: option.split)

lemma parse_defaults_wf: "defaults_wf (parse_defaults L cfg)"
proof -
  have "1 \<le> hg_max_parallel base_hedge" by (simp add: base_hedge_def)
  then show ?thesis
    by (simp add: parse_defaults_def defaults_wf_def parse_hedge_ge parse_selector_lower
        split: option.split lua_value.split)
qed

lemma parse_matcher_methods: "parse_matcher rx L t = Inr m \<Longrightarrow> mt_methods m \<noteq> Some []"
  by (auto simp: parse_matcher_def parse_methods_def Let_def
      split: option.splits lua_value.splits sum.splits if_splits)

lemma parse_route_wf:
  assumes "parse_route rx L df i t = Inr r" and "defaults_wf df"
  shows "route_wf r \<and> rd_id r = of_nat (i + 1)"
  using assms
  by (auto simp: parse_route_def defaults_wf_def route_wf_def Let_def parse_hedge_ge parse_selector_lower
      dest: parse_matcher_methods split: sum.splits)

lemma parse_routes_wf:
  assumes "parse_routes rx L df i rvs = Inr rs" and "defaults_wf df"
  shows "(\<forall>r\<in>set rs. route_wf r) \<and> map rd_id rs = map (\<lambda>k. of_nat (k + 1)) [i..<i + length rs]
    \<and> length rs = length rvs"
  using assms
proof (induction rvs arbitrary: i rs)
  case (Cons rv rvs)
  then obtain t r rs' where t: "rv = Inr t" and r: "parse_route rx L df i t = Inr r"
    and rs': "parse_routes rx L df (i + 1) rvs = Inr rs'" and rs: "rs = r # rs'"
    by (auto split: sum.splits)
  have "[i..<i + length rs] = i # [i + 1..<(i + 1) + length rs']"
    by (cases rs') (simp_all add: rs upt_conv_Cons del: upt_Suc)
  with Cons.IH [OF rs' Cons.prems(2)] parse_route_wf [OF r Cons.prems(2)] show ?case
    by (simp add: rs)
qed simp

subsection \<open>Properties\<close>

text \<open>A script with one route whose numbers are out of range.\<close>

definition sample_script :: plain_table where
  "sample_script = Plain
     [(''routes'', L_Table (Plain [] [L_Table (Plain
        [(''match'', L_Table (Plain [(''host'', L_String ''*.example.com'')] [])),
         (''max_attempts'', L_Integer (- 3)),
         (''hedge'', L_Table (Plain [(''max_parallel'', L_Number F_NaN)] []))] [])]))] []"

lemma sample_script_parses:
  "\<exists>c. parse_router_config (\<lambda>s. Inr s :: string + string) plain_ops sample_script = Inr c"
  by (simp add: parse_router_config_def sample_script_def parse_route_def parse_matcher_def
      parse_host_def parse_path_def get_string_def utf8_valid_ascii strip_prefix_def Let_def)

lemma parse_router_config_wf:
  assumes "parse_router_config rx L cfg = Inr c"
  shows "rc_routes c \<noteq> []
    \<and> map rd_id (rc_routes c) = map (\<lambda>k. of_nat (k + 1)) [0..<length (rc_routes c)]
    \<and> list_all route_wf (rc_routes c)"
proof -
  obtain tbl where "parse_routes rx L (parse_defaults L cfg) 0 (lo_tables L tbl) = Inr (rc_routes c)"
    and "rc_routes c \<noteq> []"
    using assms by (auto simp: parse_router_config_def Let_def
        split: option.splits lua_value.splits sum.splits if_splits)
  with parse_routes_wf [OF _ parse_defaults_wf] show ?thesis
    by (fastforce simp: list_all_iff)
qed

text \<open>
  C23: A routes table that parses gives at least one route, the routes numbered from 1 in file
  order (the number addresses the hooks), and every route allows at least one attempt
  and one parallel request, whatever numbers the script wrote.
\<close>

theorem router_config_wf:
  assumes "parse_router_config rx L cfg = Inr c"
  shows "rc_routes c \<noteq> []
    \<and> map rd_id (rc_routes c) = map (\<lambda>k. of_nat (k + 1)) [0..<length (rc_routes c)]
    \<and> list_all route_wf (rc_routes c)"
  by (rule parse_router_config_wf [OF assms])

lemma router_config_wf_witness:
  "\<exists>c. parse_router_config (\<lambda>s. Inr s :: string + string) plain_ops sample_script = Inr c \<and> list_all route_wf (rc_routes c)"
proof -
  obtain c where "parse_router_config (\<lambda>s. Inr s :: string + string) plain_ops sample_script = Inr c"
    using sample_script_parses ..
  from this router_config_wf [OF this] show ?thesis by blast
qed

text \<open>
  A path pattern that ends in \<^verbatim>\<open>/**\<close> and has no other wildcard is read as a plain string
  prefix: it also accepts paths that continue the last segment, such as
  \<^verbatim>\<open>/apixyz\<close> for \<^verbatim>\<open>/api/**\<close>.
\<close>

lemma prefix_shortcut_is_plain_prefix:
  assumes "get_string L m ''path_regex'' = None" and "get_string L m ''path'' = Some (p @ ''/**'')"
    and "p \<noteq> []" and "CHR ''*'' \<notin> set p" and "CHR ''?'' \<notin> set p"
  shows "parse_path regex_new L m = Inr (PathPrefix p)
    \<and> path_matches is_match (PathPrefix p) (p @ rest)"
proof -
  have "p @ ''/**'' \<noteq> ''*''" and "p @ ''/**'' \<noteq> ''/**''"
    using assms(3) by (auto simp: append_eq_Cons_conv)
  then show ?thesis
    using assms by (auto simp: parse_path_def ends_with_def starts_with_def Let_def)
qed

lemma prefix_shortcut_is_plain_prefix_witness:
  "parse_path (\<lambda>s. Inr s) plain_ops (Plain [(''path'', L_String ''/api/**'')] []) = Inr (PathPrefix ''/api'')
   \<and> path_matches (\<lambda>re s. re = s) (PathPrefix ''/api'') ''/apixyz''"
  using prefix_shortcut_is_plain_prefix
    [of plain_ops "Plain [(''path'', L_String ''/api/**'')] []" "''/api''" "\<lambda>s. Inr s" "\<lambda>re s. re = s" "''xyz''"]
  by (simp add: get_string_def utf8_valid_ascii)

end
