(* ===== verification/LuaPool.thy ===== *)
theory LuaPool
  imports RouteConfig
begin

text \<open>
  \<^verbatim>\<open>intermediate-proxy/src/lua/mod.rs\<close> and \<^verbatim>\<open>route/mod.rs\<close>: the pool of
  script VMs, the hook calls with the default of each failure, the reload of the routes script and the
  selection of a route. Running a script is the interpreter's: \<open>sc_call\<close> answers a hook call and may change
  the scripts' own state \<open>'x\<close>, \<open>sc_locked\<close> tells which VMs are busy, \<open>new_vm\<close> loads a source.
\<close>

subsection \<open>Hook tables\<close>

definition named_hooks :: "'t lua_ops \<Rightarrow> 't \<Rightarrow> string list" where
  "named_hooks L r = filter (is_function L r) [''on_request'', ''on_response'', ''on_exhausted'']"

definition nested_hook :: "'t lua_ops \<Rightarrow> 't \<Rightarrow> string \<Rightarrow> string \<Rightarrow> string \<Rightarrow> string list" where
  "nested_hook L r tbl key name =
     (case lo_get L r tbl of Some (L_Table m) \<Rightarrow> if is_function L m key then [name] else [] | _ \<Rightarrow> [])"

definition route_hooks :: "'t lua_ops \<Rightarrow> 't \<Rightarrow> string list" where
  "route_hooks L r =
     named_hooks L r @ nested_hook L r ''match'' ''predicate'' ''predicate''
       @ nested_hook L r ''probe'' ''classify'' ''probe_classify''"

fun build_hooks_loop :: "'t lua_ops \<Rightarrow> (string + 't) list \<Rightarrow> string + string list list" where
  "build_hooks_loop L [] = Inr []"
| "build_hooks_loop L (rv # rvs) =
     (case rv of
        Inl e \<Rightarrow> Inl e
      | Inr r \<Rightarrow>
          (case build_hooks_loop L rvs of Inl e \<Rightarrow> Inl e | Inr hs \<Rightarrow> Inr (route_hooks L r # hs)))"

definition build_hooks :: "'t lua_ops \<Rightarrow> 't \<Rightarrow> string + string list list" where
  "build_hooks L cfg =
     (case lo_get L cfg ''routes'' of
        Some (L_Table routes) \<Rightarrow> build_hooks_loop L (lo_tables L routes)
      | _ \<Rightarrow> Inr [])"

subsection \<open>Building and reloading the pool\<close>

record ('m, 'r) lua_pool =
  lp_vms :: "'m list"
  lp_rr :: u64
  lp_config :: "'r router_config"
  lp_instr_limit :: u32
  lp_routes_dir :: string

type_synonym ('m, 't) vm_loader = "string \<Rightarrow> string \<Rightarrow> u32 \<Rightarrow> nat \<Rightarrow> string + 'm \<times> 't"

text \<open>The loop of \<^verbatim>\<open>build\<close> and \<^verbatim>\<open>reload\<close>: VM \<open>k\<close> up to \<open>n - 1\<close>, the configuration from VM 0.\<close>

fun load_vms :: "(string \<Rightarrow> string + 'r) \<Rightarrow> 't lua_ops \<Rightarrow> ('m, 't) vm_loader \<Rightarrow> string \<Rightarrow> string \<Rightarrow> u32
    \<Rightarrow> nat \<Rightarrow> nat \<Rightarrow> 'r router_config option \<Rightarrow> string + 'm list \<times> 'r router_config option" where
  "load_vms rx L new_vm source dir limit k 0 config = Inr ([], config)"
| "load_vms rx L new_vm source dir limit k (Suc n) config =
     (case new_vm source dir limit k of
        Inl e \<Rightarrow> Inl e
      | Inr (lua, cfg) \<Rightarrow>
          (case (if k = 0 then map_sum id Some (parse_router_config rx L cfg) else Inr config) of
             Inl e \<Rightarrow> Inl e
           | Inr config1 \<Rightarrow>
               (case load_vms rx L new_vm source dir limit (Suc k) n config1 of
                  Inl e \<Rightarrow> Inl e
                | Inr (vms, c) \<Rightarrow> Inr (lua # vms, c))))"

definition routes_dir_of :: "(string \<Rightarrow> string option) \<Rightarrow> string \<Rightarrow> string" where
  "routes_dir_of parent_dir routes_path =
     (case parent_dir routes_path of
        Some d \<Rightarrow> if utf8_valid d \<and> d \<noteq> [] then d else ''.''
      | None \<Rightarrow> ''.'')"

definition lua_build :: "(string \<Rightarrow> string + 'r) \<Rightarrow> 't lua_ops \<Rightarrow> (string \<Rightarrow> string option) \<Rightarrow> ('m, 't) vm_loader
    \<Rightarrow> string \<Rightarrow> string \<Rightarrow> nat \<Rightarrow> u32 \<Rightarrow> string + ('m, 'r) lua_pool" where
  "lua_build rx L parent_dir new_vm source routes_path vm_count limit =
     (let dir = routes_dir_of parent_dir routes_path; n = max vm_count 1 in
      case load_vms rx L new_vm source dir limit 0 n None of
        Inl e \<Rightarrow> Inl e
      | Inr (vms, None) \<Rightarrow> Inl ''no vm built''
      | Inr (vms, Some c) \<Rightarrow> Inr
          \<lparr>lp_vms = vms, lp_rr = 0, lp_config = c, lp_instr_limit = limit, lp_routes_dir = dir\<rparr>)"

text \<open>The result of a reload, and the pool afterwards.\<close>

definition lua_reload :: "(string \<Rightarrow> string + 'r) \<Rightarrow> 't lua_ops \<Rightarrow> ('m, 't) vm_loader
    \<Rightarrow> string \<Rightarrow> ('m, 'r) lua_pool \<Rightarrow> (string + unit) \<times> ('m, 'r) lua_pool" where
  "lua_reload rx L new_vm source p =
     (let n = max (length (lp_vms p)) 1 in
      case load_vms rx L new_vm source (lp_routes_dir p) (lp_instr_limit p) 0 n None of
        Inl e \<Rightarrow> (Inl e, p)
      | Inr (vms, None) \<Rightarrow> (Inl ''no vm built'', p)
      | Inr (vms, Some c) \<Rightarrow> (Inr (), p\<lparr>lp_config := c, lp_vms := vms\<rparr>))"

definition build_from_file :: "(string \<Rightarrow> string + 'r) \<Rightarrow> 't lua_ops \<Rightarrow> (string \<Rightarrow> string option) \<Rightarrow> ('m, 't) vm_loader
    \<Rightarrow> (string + string) \<Rightarrow> string \<Rightarrow> nat \<Rightarrow> u32 \<Rightarrow> string + ('m, 'r) lua_pool" where
  "build_from_file rx L parent_dir new_vm file path vm_count limit =
     (case file of
        Inl e \<Rightarrow> Inl (''cannot read routes file '' @ path @ '': '' @ e)
      | Inr source \<Rightarrow> lua_build rx L parent_dir new_vm source path vm_count limit)"

definition routes_tick :: "(string \<Rightarrow> string + 'r) \<Rightarrow> 't lua_ops \<Rightarrow> ('m, 't) vm_loader \<Rightarrow> u64 option option
    \<Rightarrow> string option \<Rightarrow> u64 option \<Rightarrow> ('m, 'r) lua_pool \<Rightarrow> u64 option \<times> ('m, 'r) lua_pool" where
  "routes_tick rx L new_vm meta file last_mtime p =
     (case meta of
        None \<Rightarrow> (last_mtime, p)
      | Some mtime \<Rightarrow>
          if mtime = last_mtime then (last_mtime, p)
          else (case file of
              Some src \<Rightarrow> (mtime, snd (lua_reload rx L new_vm src p))
            | None \<Rightarrow> (mtime, p)))"

subsection \<open>Picking a VM\<close>

text \<open>The first free VM from the cursor on, around the ring; the cursor's own if all are busy.\<close>

definition pick_vm :: "(nat \<Rightarrow> bool) \<Rightarrow> ('m, 'r) lua_pool \<Rightarrow> nat \<times> ('m, 'r) lua_pool" where
  "pick_vm locked p =
     (let n = length (lp_vms p);
          start = unat (lp_rr p) mod n;
          free = filter (\<lambda>i. \<not> locked i) (map (\<lambda>off. (start + off) mod n) [0..<n])
      in (case free of i # is \<Rightarrow> i | [] \<Rightarrow> start, p\<lparr>lp_rr := lp_rr p + 1\<rparr>))"

subsection \<open>Hook calls\<close>

datatype hook_args =
    HK_Ctx hook_ctx
  | HK_CtxRes hook_ctx hook_res
  | HK_Probe u16 "(string \<times> string) list" string

datatype 't hook_answer = HA_NoHook | HA_BadArgs | HA_Value "'t lua_value" | HA_Error string

record ('t, 'x) script =
  sc_ops :: "'t lua_ops"
  sc_locked :: "'x \<Rightarrow> nat \<Rightarrow> bool"
  sc_call :: "nat \<Rightarrow> route_id \<Rightarrow> string \<Rightarrow> hook_args \<Rightarrow> 'x \<Rightarrow> 't hook_answer \<times> 'x"

definition call_hook :: "('t, 'x) script \<Rightarrow> route_id \<Rightarrow> string \<Rightarrow> hook_args \<Rightarrow> ('m, 'r) lua_pool \<Rightarrow> 'x
    \<Rightarrow> 't hook_answer \<times> ('m, 'r) lua_pool \<times> 'x" where
  "call_hook S rid name args p x =
     (let (vm, p') = pick_vm (sc_locked S x) p;
          (ans, x') = sc_call S vm rid name args x
      in (ans, p', x'))"

definition predicate_answer :: "'t hook_answer \<Rightarrow> bool" where
  "predicate_answer ans =
     (case ans of
        HA_NoHook \<Rightarrow> True
      | HA_BadArgs \<Rightarrow> True
      | HA_Value v \<Rightarrow> (case v of L_Boolean b \<Rightarrow> b | L_Nil \<Rightarrow> False | _ \<Rightarrow> True)
      | HA_Error e \<Rightarrow> False)"

definition eval_predicate :: "('t, 'x) script \<Rightarrow> route_id \<Rightarrow> hook_ctx \<Rightarrow> ('m, 'r) lua_pool \<Rightarrow> 'x
    \<Rightarrow> bool \<times> ('m, 'r) lua_pool \<times> 'x" where
  "eval_predicate S rid ctx p x =
     (let (ans, p', x') = call_hook S rid ''predicate'' (HK_Ctx ctx) p x in (predicate_answer ans, p', x'))"

definition on_request :: "('t, 'x) script \<Rightarrow> route_id \<Rightarrow> hook_ctx \<Rightarrow> ('m, 'r) lua_pool \<Rightarrow> 'x
    \<Rightarrow> request_mods \<times> ('m, 'r) lua_pool \<times> 'x" where
  "on_request S rid ctx p x =
     (let (ans, p', x') = call_hook S rid ''on_request'' (HK_Ctx ctx) p x
      in (case ans of HA_Value v \<Rightarrow> parse_request_mods (sc_ops S) v | _ \<Rightarrow> request_mods_default, p', x'))"

definition on_response :: "('t, 'x) script \<Rightarrow> route_id \<Rightarrow> hook_ctx \<Rightarrow> hook_res \<Rightarrow> u64 \<Rightarrow> ('m, 'r) lua_pool \<Rightarrow> 'x
    \<Rightarrow> response_verdict \<times> ('m, 'r) lua_pool \<times> 'x" where
  "on_response S rid ctx res default_ban_ms p x =
     (let (ans, p', x') = call_hook S rid ''on_response'' (HK_CtxRes ctx res) p x
      in (case ans of HA_Value v \<Rightarrow> parse_response_verdict (sc_ops S) v default_ban_ms | _ \<Rightarrow> RV_Success, p', x'))"

definition on_exhausted :: "('t, 'x) script \<Rightarrow> route_id \<Rightarrow> hook_ctx \<Rightarrow> ('m, 'r) lua_pool \<Rightarrow> 'x
    \<Rightarrow> exhausted_verdict \<times> ('m, 'r) lua_pool \<times> 'x" where
  "on_exhausted S rid ctx p x =
     (let (ans, p', x') = call_hook S rid ''on_exhausted'' (HK_Ctx ctx) p x
      in (case ans of HA_Value v \<Rightarrow> parse_exhausted_verdict (sc_ops S) v | _ \<Rightarrow> EV_TryFatal, p', x'))"

definition probe_classify :: "('t, 'x) script \<Rightarrow> route_id \<Rightarrow> u16 \<Rightarrow> (string \<times> string) list \<Rightarrow> string option \<Rightarrow> u16 list
    \<Rightarrow> ('m, 'r) lua_pool \<Rightarrow> 'x \<Rightarrow> probe_outcome \<times> ('m, 'r) lua_pool \<times> 'x" where
  "probe_classify S rid status headers body_preview ok_statuses p x =
     (let (ans, p', x') = call_hook S rid ''probe_classify''
              (HK_Probe status headers (unwrap_or body_preview [])) p x
      in (case ans of
            HA_NoHook \<Rightarrow> status_outcome ok_statuses status
          | HA_BadArgs \<Rightarrow> PO_StillBanned
          | HA_Value v \<Rightarrow> parse_probe_outcome v ok_statuses status
          | HA_Error e \<Rightarrow> PO_StillBanned, p', x'))"

subsection \<open>Selecting a route\<close>

fun select_from :: "('t, 'x) script \<Rightarrow> hook_ctx \<Rightarrow> 'r route list \<Rightarrow> ('m, 'r) lua_pool \<Rightarrow> 'x
    \<Rightarrow> 'r route option \<times> ('m, 'r) lua_pool \<times> 'x" where
  "select_from S ctx [] p x = (None, p, x)"
| "select_from S ctx (r # rs) p x =
     (if mt_has_predicate (rd_matcher r)
      then (let (ok, p', x') = eval_predicate S (rd_id r) ctx p x
            in if \<not> ok then select_from S ctx rs p' x' else (Some r, p', x'))
      else (Some r, p, x))"

definition select_route :: "('r \<Rightarrow> string \<Rightarrow> bool) \<Rightarrow> ('t, 'x) script \<Rightarrow> 'r router_config \<Rightarrow> string \<Rightarrow> string \<Rightarrow> string
    \<Rightarrow> hook_ctx \<Rightarrow> ('m, 'r) lua_pool \<Rightarrow> 'x \<Rightarrow> 'r route option \<times> ('m, 'r) lua_pool \<times> 'x" where
  "select_route is_match S cfg host path meth ctx p x =
     select_from S ctx (candidates is_match cfg host path meth) p x"

subsection \<open>Lemmas\<close>

lemma load_vms_length:
  "load_vms rx L nv src dir budget k n c = Inr (vms, c') \<Longrightarrow> length vms = n"
  by (induction n arbitrary: k c vms c') (auto split: sum.splits prod.splits)

lemma load_vms_map:
  "load_vms rx L nv src dir budget k n c = Inr (vms, c') \<Longrightarrow>
   \<exists>cfgs. length cfgs = length vms \<and> map (nv src dir budget) [k..<k + length vms] = map Inr (zip vms cfgs)"
proof (induction n arbitrary: k c vms)
  case (Suc n)
  from Suc.prems obtain lua cfg c1 vms1 where nv: "nv src dir budget k = Inr (lua, cfg)"
    and rest: "load_vms rx L nv src dir budget (Suc k) n c1 = Inr (vms1, c')" and vms: "vms = lua # vms1"
    by (auto split: sum.splits prod.splits)
  from Suc.IH [OF rest] obtain cfgs where "length cfgs = length vms1"
    and "map (nv src dir budget) [Suc k..<Suc k + length vms1] = map Inr (zip vms1 cfgs)" by blast
  with nv show ?case by (intro exI [of _ "cfg # cfgs"]) (simp add: vms upt_conv_Cons del: upt_Suc)
qed simp

lemma load_vms_config:
  "load_vms rx L nv src dir budget (Suc k) n c = Inr (vms, c') \<Longrightarrow> c' = c"
  by (induction n arbitrary: k c vms c') (auto split: sum.splits prod.splits)

lemma load_vms_config0:
  assumes "load_vms rx L nv src dir budget 0 (Suc n) None = Inr (vms, c')"
  obtains lua cfg c where "nv src dir budget 0 = Inr (lua, cfg)" and "parse_router_config rx L cfg = Inr c"
    and "c' = Some c"
proof (cases "nv src dir budget 0")
  case (Inl e)
  with assms show ?thesis by simp
next
  case (Inr r)
  obtain lua cfg where r: "r = (lua, cfg)" by force
  show ?thesis
  proof (cases "parse_router_config rx L cfg")
    case (Inl e)
    with assms \<open>nv src dir budget 0 = Inr r\<close> r show ?thesis by simp
  next
    case (Inr c)
    with assms \<open>nv src dir budget 0 = Inr r\<close> r obtain vms'
      where "load_vms rx L nv src dir budget (Suc 0) n (Some c) = Inr (vms', c')"
      by (auto split: sum.splits prod.splits)
    from load_vms_config [OF this] show ?thesis
      using that [of lua cfg c] Inr \<open>nv src dir budget 0 = Inr r\<close> r by simp
  qed
qed

lemma pick_vm_index:
  assumes "lp_vms p \<noteq> []"
  shows "fst (pick_vm locked p) < length (lp_vms p)"
    and "(\<exists>i<length (lp_vms p). \<not> locked i) \<Longrightarrow> \<not> locked (fst (pick_vm locked p))"
proof -
  let ?n = "length (lp_vms p)" and ?start = "unat (lp_rr p) mod length (lp_vms p)"
  let ?free = "filter (\<lambda>i. \<not> locked i) (map (\<lambda>off. (?start + off) mod ?n) [0..<?n])"
  have n: "0 < ?n" using assms by simp
  have fst: "fst (pick_vm locked p) = (case ?free of i # is \<Rightarrow> i | [] \<Rightarrow> ?start)"
    by (simp add: pick_vm_def Let_def)
  have in_free: "i < ?n \<and> \<not> locked i" if "i \<in> set ?free" for i
  proof -
    from that obtain off where "i = (?start + off) mod ?n" "\<not> locked i"
      unfolding set_filter set_map by blast
    with n show ?thesis by simp
  qed
  show "fst (pick_vm locked p) < ?n"
  proof (cases ?free)
    case Nil
    then show ?thesis unfolding fst using n by simp
  next
    case (Cons j js)
    with in_free [of j] show ?thesis unfolding fst by simp
  qed
  show "\<not> locked (fst (pick_vm locked p))" if free: "\<exists>i<?n. \<not> locked i"
  proof -
    obtain i where i: "i < ?n" "\<not> locked i" using free by blast
    have start: "?start < ?n" using n by simp
    have "\<exists>off<?n. (?start + off) mod ?n = i"
    proof (cases "?start \<le> i")
      case True
      then have "(?start + (i - ?start)) mod ?n = i" "i - ?start < ?n" using i by simp_all
      then show ?thesis by blast
    next
      case False
      then have "?start + (i + ?n - ?start) = i + ?n" "i + ?n - ?start < ?n" using start by simp_all
      then have "(?start + (i + ?n - ?start)) mod ?n = i" using i by simp
      with \<open>i + ?n - ?start < ?n\<close> show ?thesis by blast
    qed
    with i(2) have "i \<in> set ?free" unfolding set_filter set_map by force
    then obtain j js where "?free = j # js" by (cases ?free) auto
    with in_free [of j] show ?thesis unfolding fst by simp
  qed
qed

lemma build_hooks_loop_eq:
  "build_hooks_loop L rvs = Inr hs \<Longrightarrow> parse_routes rx L df i rvs = Inr rs \<Longrightarrow>
   list_all2 (\<lambda>r h. \<exists>t. h = route_hooks L t \<and> (\<exists>j. parse_route rx L df j t = Inr r)) rs hs"
proof (induction rvs arbitrary: hs rs i)
  case (Cons rv rvs)
  then show ?case by (fastforce split: sum.splits)
qed simp

lemma route_hooks_mem:
  "''on_request'' \<in> set (route_hooks L t) \<longleftrightarrow> is_function L t ''on_request''"
  "''on_response'' \<in> set (route_hooks L t) \<longleftrightarrow> is_function L t ''on_response''"
  "''on_exhausted'' \<in> set (route_hooks L t) \<longleftrightarrow> is_function L t ''on_exhausted''"
  "''predicate'' \<in> set (route_hooks L t) \<longleftrightarrow>
     (\<exists>m. lo_get L t ''match'' = Some (L_Table m) \<and> is_function L m ''predicate'')"
  "''probe_classify'' \<in> set (route_hooks L t) \<longleftrightarrow>
     (\<exists>m. lo_get L t ''probe'' = Some (L_Table m) \<and> is_function L m ''classify'')"
  by (simp_all add: route_hooks_def named_hooks_def nested_hook_def split: option.split lua_value.split) metis+

lemma parse_route_hooks:
  assumes "parse_route rx L df j t = Inr r"
  shows "rd_hooks r = \<lparr>hk_on_request = is_function L t ''on_request'', hk_on_response = is_function L t ''on_response'',
        hk_on_exhausted = is_function L t ''on_exhausted''\<rparr>"
    and "rd_probe r = parse_probe L t" and "parse_matcher rx L t = Inr (rd_matcher r)"
  using assms by (auto simp: parse_route_def Let_def split: sum.splits)

lemma parse_matcher_predicate:
  assumes "parse_matcher rx L t = Inr m"
  shows "mt_has_predicate m \<longleftrightarrow>
    (\<exists>tb. lo_get L t ''match'' = Some (L_Table tb) \<and> is_function L tb ''predicate'')"
  using assms unfolding parse_matcher_def
  by (auto split: option.splits lua_value.splits sum.splits)

lemma parse_probe_classify:
  assumes "parse_probe L t = Some p"
  shows "pb_has_classify p \<longleftrightarrow>
    (\<exists>tb. lo_get L t ''probe'' = Some (L_Table tb) \<and> is_function L tb ''classify'')"
proof -
  obtain tb where tb: "lo_get L t ''probe'' = Some (L_Table tb)"
    using assms unfolding parse_probe_def by (simp split: option.splits lua_value.splits)
  then have "pb_has_classify p = is_function L tb ''classify''"
    using assms unfolding parse_probe_def by (cases "get_string L tb ''url''") auto
  with tb show ?thesis by simp
qed

definition hooks_agree :: "'r route \<Rightarrow> string list \<Rightarrow> bool" where
  "hooks_agree r h =
     ((''on_request'' \<in> set h \<longleftrightarrow> hk_on_request (rd_hooks r))
      \<and> (''on_response'' \<in> set h \<longleftrightarrow> hk_on_response (rd_hooks r))
      \<and> (''on_exhausted'' \<in> set h \<longleftrightarrow> hk_on_exhausted (rd_hooks r))
      \<and> (''predicate'' \<in> set h \<longleftrightarrow> mt_has_predicate (rd_matcher r))
      \<and> (\<forall>p. rd_probe r = Some p \<longrightarrow> (''probe_classify'' \<in> set h \<longleftrightarrow> pb_has_classify p)))"

lemma route_hooks_flags:
  assumes "parse_route rx L df j t = Inr r"
  shows "hooks_agree r (route_hooks L t)"
  using parse_route_hooks [OF assms] parse_matcher_predicate [OF parse_route_hooks(3) [OF assms]]
  unfolding hooks_agree_def
  by (simp only: route_hooks_mem hook_flags.select_convs) (simp add: parse_probe_classify)

lemma select_from_find:
  assumes "\<And>vm rid x. fst (sc_call S vm rid ''predicate'' (HK_Ctx ctx) x) = ans rid"
  shows "fst (select_from S ctx rs p x)
    = List.find (\<lambda>r. mt_has_predicate (rd_matcher r) \<longrightarrow> predicate_answer (ans (rd_id r))) rs"
proof (induction rs arbitrary: p x)
  case (Cons r rs)
  have "fst (eval_predicate S (rd_id r) ctx p x) = predicate_answer (ans (rd_id r))"
    using assms by (simp add: eval_predicate_def call_hook_def prod.case_eq_if Let_def)
  with Cons show ?case by (simp add: prod.case_eq_if Let_def)
qed simp

lemma find_filter: "List.find P (filter Q xs) = List.find (\<lambda>x. Q x \<and> P x) xs"
  by (induction xs) auto

subsection \<open>Properties\<close>

text \<open>
  C28: Reloading the routes script is all or nothing: on any failure the pool is what it was; on
  success every VM of the pool is one loaded from the new source (there are as many as before, at least one), the new
  configuration is the one parsed from the first of them, and nothing else of the pool changes.
\<close>

theorem lua_reload_atomic:
  "case lua_reload rx L new_vm source p of
     (Inl e, p') \<Rightarrow> p' = p
   | (Inr u, p') \<Rightarrow>
       length (lp_vms p') = max (length (lp_vms p)) 1
       \<and> (\<exists>cfgs. length cfgs = length (lp_vms p')
            \<and> map (new_vm source (lp_routes_dir p) (lp_instr_limit p)) [0..<length (lp_vms p')] = map Inr (zip (lp_vms p') cfgs)
            \<and> parse_router_config rx L (cfgs ! 0) = Inr (lp_config p'))
       \<and> p' = p\<lparr>lp_vms := lp_vms p', lp_config := lp_config p'\<rparr>"
proof -
  obtain n where n: "max (length (lp_vms p)) 1 = Suc n" by (cases "max (length (lp_vms p)) 1") auto
  show ?thesis
  proof (cases "load_vms rx L new_vm source (lp_routes_dir p) (lp_instr_limit p) 0 (Suc n) None")
    case (Inl e)
    show ?thesis unfolding lua_reload_def Let_def n Inl by simp
  next
    case (Inr r)
    obtain vms c' where r: "r = (vms, c')" by force
    with Inr have run: "load_vms rx L new_vm source (lp_routes_dir p) (lp_instr_limit p) 0 (Suc n) None = Inr (vms, c')"
      by simp
    obtain lua cfg c where first: "new_vm source (lp_routes_dir p) (lp_instr_limit p) 0 = Inr (lua, cfg)"
      "parse_router_config rx L cfg = Inr c" "c' = Some c"
      using run by (rule load_vms_config0)
    have len: "length vms = Suc n" using load_vms_length [OF run] .
    obtain cfgs where cfgs: "length cfgs = length vms"
      and loaded: "map (new_vm source (lp_routes_dir p) (lp_instr_limit p)) [0..<length vms] = map Inr (zip vms cfgs)"
      using load_vms_map [OF run] by auto
    have "new_vm source (lp_routes_dir p) (lp_instr_limit p) 0 = Inr (vms ! 0, cfgs ! 0)"
      using arg_cong [OF loaded, of "\<lambda>xs. xs ! 0"] len cfgs by (simp del: upt_Suc)
    with first have "parse_router_config rx L (cfgs ! 0) = Inr c" by simp
    with cfgs loaded len first(3) show ?thesis unfolding lua_reload_def Let_def n run
      by (simp del: upt_Suc) blast
  qed
qed

text \<open>
  A hook call always gets a VM of the pool, and a free one if there is any; the cursor
  moves by one.
\<close>

lemma pick_vm_free:
  assumes "lp_vms p \<noteq> []"
  shows "fst (pick_vm locked p) < length (lp_vms p)
    \<and> ((\<exists>i<length (lp_vms p). \<not> locked i) \<longrightarrow> \<not> locked (fst (pick_vm locked p)))
    \<and> lp_rr (snd (pick_vm locked p)) = lp_rr p + 1"
  using pick_vm_index [OF assms, of locked] by (auto simp: pick_vm_def Let_def)

lemma pick_vm_free_witness:
  "fst (pick_vm (\<lambda>i. i \<noteq> 1)
     \<lparr>lp_vms = [(), (), ()], lp_rr = - 1, lp_config = \<lparr>rc_routes = [] :: unit route list\<rparr>, lp_instr_limit = 0,
      lp_routes_dir = []\<rparr>) = 1"
  using pick_vm_free
    [of "\<lparr>lp_vms = [(), (), ()], lp_rr = - 1, lp_config = \<lparr>rc_routes = [] :: unit route list\<rparr>,
         lp_instr_limit = 0, lp_routes_dir = []\<rparr>" "\<lambda>i. i \<noteq> 1"]
  by auto

text \<open>
  C31: Route selection. When the answer of a route's predicate depends only on the route and the request,
  the selected route is the first of the file whose static matcher accepts the request and
  whose predicate, if it has one, does not reject it.
\<close>

theorem select_route_first:
  assumes "\<And>vm rid x. fst (sc_call S vm rid ''predicate'' (HK_Ctx ctx) x) = ans rid"
  shows "fst (select_route is_match S cfg host path meth ctx p x)
    = List.find (\<lambda>r. matches_static is_match (rd_matcher r) host path meth
        \<and> (mt_has_predicate (rd_matcher r) \<longrightarrow> predicate_answer (ans (rd_id r)))) (rc_routes cfg)"
  unfolding select_route_def select_from_find [OF assms] candidates_def find_filter ..

definition predicate_route :: "route_id \<Rightarrow> unit route" where
  "predicate_route i =
     \<lparr>rd_id = i, rd_name = ''r'',
      rd_matcher = \<lparr>mt_host = HostExact ''h'', mt_path = PathPrefix ''/a'', mt_methods = Some [''GET''], mt_has_predicate = True\<rparr>,
      rd_pool_all_tags = [], rd_pool_any_tags = [], rd_prefer_tags = [], rd_exclude_tags = [],
      rd_selector = Random, rd_hedge = \<lparr>hg_max_parallel = 2, hg_delay_ms = 700\<rparr>, rd_max_attempts = 2,
      rd_timeout_ms = 1000, rd_slow_ms = 300, rd_fail_streak = 2, rd_attempt_backoff_ms = 0,
      rd_capture_body_bytes = 0, rd_prefer_non_reserve = True, rd_default_ban_ms = 60000,
      rd_hooks = \<lparr>hk_on_request = False, hk_on_response = False, hk_on_exhausted = False\<rparr>,
      rd_probe = None, rd_cursor = 0\<rparr>"

text \<open>The predicate of route 0 rejects, the one of route 1 accepts.\<close>

definition predicate_script :: "(plain_table, unit) script" where
  "predicate_script =
     \<lparr>sc_ops = plain_ops, sc_locked = (\<lambda>_ _. False),
      sc_call = (\<lambda>_ rid _ _ x. (HA_Value (L_Boolean (rid = 1)), x))\<rparr>"

lemma predicate_route_simps:
  "rd_id (predicate_route i) = i" "mt_has_predicate (rd_matcher (predicate_route i))"
  "matches_static im (rd_matcher (predicate_route i)) ''h'' ''/ab'' ''GET''"
  by (simp_all add: predicate_route_def matches_static_def starts_with_def)

lemma select_route_first_witness:
  "\<forall>ctx p. fst (select_route (\<lambda>_ _. False) predicate_script \<lparr>rc_routes = [predicate_route 0, predicate_route 1]\<rparr>
     ''h'' ''/ab'' ''GET'' ctx p ()) = Some (predicate_route 1)"
proof (intro allI)
  fix ctx p
  have call: "fst (sc_call predicate_script vm rid ''predicate'' (HK_Ctx ctx) x) = HA_Value (L_Boolean (rid = 1))" for vm rid x
    by (simp add: predicate_script_def)
  show "fst (select_route (\<lambda>_ _. False) predicate_script \<lparr>rc_routes = [predicate_route 0, predicate_route 1]\<rparr>
     ''h'' ''/ab'' ''GET'' ctx p ()) = Some (predicate_route 1)"
    unfolding select_route_first [of predicate_script ctx, OF call]
    by (simp add: predicate_route_simps predicate_answer_def)
qed

text \<open>
  The two readings of the routes script agree: for every route that parses, a hook is in the VMs'
  table exactly if the route's flag for it is set.
\<close>

theorem hook_flags_agree:
  assumes "build_hooks L cfg = Inr hs" and "parse_router_config rx L cfg = Inr c"
  shows "list_all2 hooks_agree (rc_routes c) hs"
proof -
  obtain tbl where "lo_get L cfg ''routes'' = Some (L_Table tbl)"
    and routes: "parse_routes rx L (parse_defaults L cfg) 0 (lo_tables L tbl) = Inr (rc_routes c)"
    using assms(2) by (auto simp: parse_router_config_def Let_def
        split: option.splits lua_value.splits sum.splits if_splits)
  with assms(1) have "build_hooks_loop L (lo_tables L tbl) = Inr hs" by (simp add: build_hooks_def)
  from build_hooks_loop_eq [OF this routes] show ?thesis
    by (rule list_all2_mono) (elim exE conjE, hypsubst, erule route_hooks_flags)
qed

lemma hook_flags_agree_witness:
  "\<exists>hs c. build_hooks plain_ops sample_script = Inr hs
     \<and> parse_router_config (\<lambda>s. Inr s :: string + string) plain_ops sample_script = Inr c \<and> length hs = length (rc_routes c)"
proof -
  have "\<exists>hs. build_hooks plain_ops sample_script = Inr hs"
    by (simp add: build_hooks_def sample_script_def)
  then obtain hs where hs: "build_hooks plain_ops sample_script = Inr hs" ..
  obtain c where c: "parse_router_config (\<lambda>s. Inr s :: string + string) plain_ops sample_script = Inr c"
    using sample_script_parses ..
  from hook_flags_agree [OF hs c] have "length (rc_routes c) = length hs" by (rule list_all2_lengthD)
  then show ?thesis using hs c by (intro exI [of _ hs] exI [of _ c] conjI) (assumption | rule sym)+
qed

end
