(* ===== verification/World.thy ===== *)
theory World
  imports Pool LuaPool Forward
begin

text \<open>
  The state a request is served in, and its surroundings. \<open>world\<close> holds the shared state of the
  program: the heap of proxy entries, the pool, the script VMs, the round-robin cursor of the route being served,
  and \<open>'x\<close> for the rest of the outside. A section of code between two awaits runs on the world as one step; at
  an await any other task may run, so \<open>env\<close> gives every await as a function that may return any world at
  all. Clock readings, random numbers and hashes are fields of \<open>env\<close> too.
\<close>

record ('r, 'm, 'x) world =
  wo_heap :: heap
  wo_pool :: proxy_pool
  wo_lua :: "('m, 'r) lua_pool"
  wo_cursor :: u64
  wo_ext :: 'x

text \<open>
  \<open>ev_now k w\<close> is the \<open>k\<close>-th clock reading of a step; \<open>ev_since\<close> the milliseconds since the start
  of the request; \<open>ev_send\<close> executes a request under a timeout and returns the result, the elapsed
  milliseconds and the world after it; \<open>ev_sleep\<close> is a timer; \<open>ev_read\<close> is an await without a
  result of its own, the reading of a body or the wait of a hedged dispatch for its attempts or its timer.
\<close>

record ('h, 'u, 't, 'r, 'm, 'x) env =
  ev_libs :: "('h, 'u) libs"
  ev_script :: "('t, 'x) script"
  ev_now :: "nat \<Rightarrow> ('r, 'm, 'x) world \<Rightarrow> u64"
  ev_since :: "('r, 'm, 'x) world \<Rightarrow> u64"
  ev_send :: "'h out_request \<Rightarrow> u64 \<Rightarrow> ('r, 'm, 'x) world \<Rightarrow> 'h http_result \<times> u64 \<times> ('r, 'm, 'x) world"
  ev_sleep :: "u64 \<Rightarrow> ('r, 'm, 'x) world \<Rightarrow> ('r, 'm, 'x) world"
  ev_read :: "('r, 'm, 'x) world \<Rightarrow> ('r, 'm, 'x) world"
  ev_random :: "nat \<Rightarrow> nat"
  ev_hash :: "string \<Rightarrow> u64"

abbreviation ev_headers :: "('h, 'u, 't, 'r, 'm, 'x) env \<Rightarrow> 'h header_ops" where
  "ev_headers E \<equiv> lb_headers (ev_libs E)"

definition entry_at :: "('r, 'm, 'x) world \<Rightarrow> addr \<Rightarrow> entry" where
  "entry_at w a = hp_at (wo_heap w) a"

definition upd_entry :: "addr \<Rightarrow> (entry \<Rightarrow> entry) \<Rightarrow> ('r, 'm, 'x) world \<Rightarrow> ('r, 'm, 'x) world" where
  "upd_entry a f w = w\<lparr>wo_heap := heap_upd a f (wo_heap w)\<rparr>"

definition set_store :: "store \<Rightarrow> ('r, 'm, 'x) world \<Rightarrow> ('r, 'm, 'x) world" where
  "set_store \<sigma> w = w\<lparr>wo_heap := (wo_heap w)\<lparr>hp_at := \<sigma>\<rparr>\<rparr>"

lemma entry_at_upd [simp]: "entry_at (upd_entry a f w) b = (if b = a then f (entry_at w a) else entry_at w b)"
  by (simp add: entry_at_def upd_entry_def heap_upd_def)

lemma upd_entry_frame [simp]:
  "wo_pool (upd_entry a f w) = wo_pool w" "wo_lua (upd_entry a f w) = wo_lua w"
  "wo_cursor (upd_entry a f w) = wo_cursor w" "wo_ext (upd_entry a f w) = wo_ext w"
  by (simp_all add: upd_entry_def)

text \<open>A client request, as the dispatcher receives it.\<close>

record 'h request =
  rq_method :: string
  rq_headers :: 'h
  rq_body :: string
  rq_target_url :: string
  rq_host :: string
  rq_path :: string

text \<open>A hook call on the world.\<close>

definition with_lua :: "(('m, 'r) lua_pool \<Rightarrow> 'x \<Rightarrow> 'a \<times> ('m, 'r) lua_pool \<times> 'x) \<Rightarrow> ('r, 'm, 'x) world
    \<Rightarrow> 'a \<times> ('r, 'm, 'x) world" where
  "with_lua f w = (let (v, p, x) = f (wo_lua w) (wo_ext w) in (v, w\<lparr>wo_lua := p, wo_ext := x\<rparr>))"

lemma with_lua_heap [simp]: "wo_heap (snd (with_lua f w)) = wo_heap w"
  by (simp add: with_lua_def prod.case_eq_if Let_def)

subsection \<open>Relaying a response\<close>

text \<open>The first half of \<^verbatim>\<open>intermediate-proxy/src/stream.rs\<close>.\<close>

definition STREAM_SKIP_HEADERS :: "string list" where
  "STREAM_SKIP_HEADERS =
     [''content-encoding'', ''content-length'', ''transfer-encoding'', ''access-control-allow-origin'',
      ''access-control-allow-methods'', ''access-control-allow-headers'', ''access-control-allow-credentials'',
      ''access-control-expose-headers'', ''access-control-max-age'', ''cf-ray'', ''cf-cache-status'',
      ''cf-request-id'', ''cf-apo-via'', ''cf-bgj'', ''cf-polished'', ''cf-edge-cache'', ''report-to'',
      ''reporting-endpoints'', ''nel'', ''expect-ct'', ''server-timing'', ''alt-svc'', ''alternate-protocol'',
      ''content-security-policy'', ''content-security-policy-report-only'', ''x-frame-options'']"

definition is_html_type :: "string \<Rightarrow> bool" where
  "is_html_type ct =
     (let l = to_ascii_lowercase ct in starts_with l ''text/html'' \<or> starts_with l ''application/xhtml'')"

definition is_html_response :: "'h header_ops \<Rightarrow> 'h \<Rightarrow> bool" where
  "is_html_response H headers =
     (case get_str H headers ''content-type'' of Some ct \<Rightarrow> is_html_type ct | None \<Rightarrow> False)"

definition contains_key :: "'h header_ops \<Rightarrow> 'h \<Rightarrow> string \<Rightarrow> bool" where
  "contains_key H h n = (ho_get H h n \<noteq> None)"

definition can_recover_stream :: "'h header_ops \<Rightarrow> 'h \<Rightarrow> 'h http_resp \<Rightarrow> bool" where
  "can_recover_stream H req_headers response =
     (let has_cache_headers = contains_key H req_headers ''cache-control'' \<or> contains_key H req_headers ''pragma''
            \<or> contains_key H req_headers ''if-none-match'' \<or> contains_key H req_headers ''if-modified-since'';
          content_type = unwrap_or (get_str H (rsp_headers response) ''content-type'') [];
          is_media = starts_with content_type ''audio/'' \<or> starts_with content_type ''video/''
      in has_cache_headers \<or> is_media)"

definition copy_headers :: "'h header_ops \<Rightarrow> 'h \<Rightarrow> 'h" where
  "copy_headers H resp_headers =
     copy_headers_if H (\<lambda>n. n \<notin> set STREAM_SKIP_HEADERS) (ho_iter H resp_headers)
       (insert_all H cors_headers (ho_empty H))"

text \<open>What the streaming task is started with.\<close>

record 'h pump_job =
  pj_stream :: body_stream
  pj_used_url :: string
  pj_method :: string
  pj_headers :: 'h
  pj_body :: string
  pj_can_recover :: bool
  pj_tried :: "string set"

definition buffered_response :: "'h header_ops \<Rightarrow> u16 \<Rightarrow> 'h \<Rightarrow> string \<Rightarrow> ('h, 'h pump_job) reply" where
  "buffered_response H status resp_headers body =
     \<lparr>rp_status = status, rp_headers = copy_headers H resp_headers, rp_body = RB_Full body\<rparr>"

definition build_streaming_response :: "'h header_ops \<Rightarrow> 'h http_resp \<Rightarrow> string \<Rightarrow> string \<Rightarrow> 'h \<Rightarrow> string \<Rightarrow> bool
    \<Rightarrow> string set \<Rightarrow> ('h, 'h pump_job) reply" where
  "build_streaming_response H response used_url meth original_headers original_body can_recover tried =
     \<lparr>rp_status = rsp_status response, rp_headers = copy_headers H (rsp_headers response),
      rp_body = RB_Piped
        \<lparr>pj_stream = rsp_body response, pj_used_url = used_url, pj_method = meth, pj_headers = original_headers,
         pj_body = original_body, pj_can_recover = can_recover, pj_tried = tried\<rparr>\<rparr>"

lemma header_vals_copy_headers:
  assumes "header_laws H"
  shows "header_vals H (copy_headers H h) n =
    (if n \<in> fst ` set cors_headers then [snd (hd (filter (\<lambda>e. fst e = n) cors_headers))] else [])
     @ (if n \<in> set STREAM_SKIP_HEADERS then [] else header_vals H h n)"
  by (simp add: copy_headers_def header_vals_copy_map [OF assms]
      header_vals_insert_all [OF assms cors_headers_ok [OF assms]] header_vals_empty [OF assms])
    (simp add: cors_headers_def)

subsection \<open>A concrete surrounding\<close>

text \<open>Every request gets the same answer, every hook call too, and nothing else happens.\<close>

definition sample_env :: "plain_header_map http_result \<Rightarrow> plain_table hook_answer
    \<Rightarrow> (plain_header_map, unit, plain_table, unit, unit, unit) env" where
  "sample_env res ans =
     \<lparr>ev_libs = plain_libs,
      ev_script = \<lparr>sc_ops = plain_ops, sc_locked = (\<lambda>_ _. False), sc_call = (\<lambda>_ _ _ _ x. (ans, x))\<rparr>,
      ev_now = (\<lambda>_ _. 5), ev_since = (\<lambda>_. 1), ev_send = (\<lambda>_ _ w. (res, 40, w)),
      ev_sleep = (\<lambda>_ w. w), ev_read = (\<lambda>w. w), ev_random = (\<lambda>_. 0), ev_hash = (\<lambda>_. 0)\<rparr>"

definition sample_world :: "addr list \<Rightarrow> (unit, unit, unit) world" where
  "sample_world as =
     \<lparr>wo_heap = \<lparr>hp_at = sample_store, hp_next = 3\<rparr>,
      wo_pool = \<lparr>po_entries = as, po_by_url = map (\<lambda>a. (show_nat a, a)) as\<rparr>,
      wo_lua = \<lparr>lp_vms = [()], lp_rr = 0, lp_config = \<lparr>rc_routes = []\<rparr>, lp_instr_limit = 0, lp_routes_dir = []\<rparr>,
      wo_cursor = 0, wo_ext = ()\<rparr>"

definition sample_request :: "plain_header_map request" where
  "sample_request =
     \<lparr>rq_method = ''GET'', rq_headers = ph_empty, rq_body = [], rq_target_url = ''http://t/'',
      rq_host = ''t'', rq_path = ''/''\<rparr>"

lemma sample_env_simps [simp]:
  "ev_libs (sample_env res ans) = plain_libs" "ev_now (sample_env res ans) k w = 5"
  "ev_since (sample_env res ans) w = 1" "ev_send (sample_env res ans) out ms w = (res, 40, w)"
  "ev_sleep (sample_env res ans) ms w = w" "ev_read (sample_env res ans) w = w"
  "ev_random (sample_env res ans) i = 0" "ev_hash (sample_env res ans) s = 0"
  by (simp_all add: sample_env_def)

end
