(* ===== verification/Attempt.thy ===== *)
theory Attempt
  imports World
begin

text \<open>
  \<^verbatim>\<open>intermediate-proxy/src/dispatch/mod.rs\<close> lines 1 to 454: one attempt through one proxy, with the
  statistics it records, the verdict on the response, and the collection of failed responses. The two
  paths of the source are \<open>capture_attempt\<close> (the route inspects bodies) and
  \<open>stream_attempt\<close>.
\<close>

definition MAX_CAPTURE_BUFFER :: nat where "MAX_CAPTURE_BUFFER = 10 * 1024 * 1024"
definition FAILED_BODY_CAP :: nat where "FAILED_BODY_CAP = 64 * 1024"

record failed_response =
  fr_status :: u16
  fr_content_type :: "string option"
  fr_body :: string

definition header_pairs :: "'h header_ops \<Rightarrow> 'h \<Rightarrow> (string \<times> string) list" where
  "header_pairs H h = str_header_pairs H h"

definition resp_header_pairs :: "'h header_ops \<Rightarrow> 'h \<Rightarrow> (string \<times> string) list" where
  "resp_header_pairs H h = str_header_pairs H h"

definition is_html_ct :: "'h header_ops \<Rightarrow> 'h \<Rightarrow> bool" where
  "is_html_ct H h =
     (case get_str H h ''content-type'' of
        Some ct \<Rightarrow> (let l = to_ascii_lowercase ct in starts_with l ''text/html'' \<or> starts_with l ''application/xhtml'')
      | None \<Rightarrow> False)"

text \<open>The same test as the one of \<^verbatim>\<open>stream.rs\<close>, which the other places use.\<close>

lemma is_html_ct_response [simp]: "is_html_ct H h = is_html_response H h"
  by (simp add: is_html_ct_def is_html_response_def is_html_type_def Let_def split: option.split)

definition base_ctx :: "'r route \<Rightarrow> 'h request \<Rightarrow> (string \<times> string) list \<Rightarrow> hook_ctx" where
  "base_ctx route req hdr_pairs =
     \<lparr>hc_route_name = rd_name route, hc_target_url = rq_target_url req, hc_host = rq_host req,
      hc_path = rq_path req, hc_method = rq_method req, hc_headers = hdr_pairs, hc_attempt = 1,
      hc_proxy_url = None, hc_proxy_tags = [], hc_elapsed_ms = 0\<rparr>"

definition default_verdict :: "u16 \<Rightarrow> u64 \<Rightarrow> response_verdict" where
  "default_verdict status default_ban_ms =
     (if status = 403 then RV_ReturnAsIs
      else if status \<in> set [421, 429, 500, 502, 503] then RV_RetryOtherProxy default_ban_ms
      else if 500 \<le> status then RV_RetryOtherProxy default_ban_ms
      else RV_Success)"

definition apply_request_mods :: "'h header_ops \<Rightarrow> request_mods \<Rightarrow> 'h \<Rightarrow> 'h" where
  "apply_request_mods H mods headers =
     fold (\<lambda>(k, v) h.
         (case ho_name H k of
            Some name \<Rightarrow> if ho_value_str H v then ho_insert H name v h else h
          | None \<Rightarrow> h))
       (rm_add_headers mods)
       (fold (ho_remove H) (rm_drop_headers mods) headers)"

fun buffer_body :: "string \<Rightarrow> body_stream \<Rightarrow> string" where
  "buffer_body buf [] = buf"
| "buffer_body buf (Inl e # cs) = buf"
| "buffer_body buf (Inr b # cs) =
     (let rem = FAILED_BODY_CAP - length buf in
      if rem = 0 then buf
      else if length b \<le> rem then buffer_body (buf @ b) cs
      else buf @ take rem b)"

definition content_type_of :: "'h header_ops \<Rightarrow> 'h \<Rightarrow> string option" where
  "content_type_of H h =
     (case ho_get H h ''content-type'' of
        Some v \<Rightarrow> if ho_value_bytes H v then Some v else None | None \<Rightarrow> None)"

definition buffer_failed :: "'h header_ops \<Rightarrow> 'h http_resp \<Rightarrow> failed_response" where
  "buffer_failed H resp =
     \<lparr>fr_status = unwrap_or (status_from_u16 (rsp_status resp)) BAD_GATEWAY,
      fr_content_type = content_type_of H (rsp_headers resp),
      fr_body = buffer_body [] (rsp_body resp)\<rparr>"

text \<open>
  The counts are a hash map, iterated in an order \<open>hash_iter\<close> of the library's choice;
  \<^verbatim>\<open>max_by_key\<close> returns the last of the largest.
\<close>

definition count_one :: "failed_response \<Rightarrow> (u16 \<times> nat) list \<Rightarrow> (u16 \<times> nat) list" where
  "count_one f counts =
     AList.update (fr_status f) (unwrap_or (map_of counts (fr_status f)) 0 + 1) counts"

definition count_status :: "failed_response list \<Rightarrow> (u16 \<times> nat) list" where
  "count_status failures = fold count_one failures []"

fun max_by_count :: "(u16 \<times> nat) list \<Rightarrow> (u16 \<times> nat) option" where
  "max_by_count [] = None"
| "max_by_count (x # xs) =
     (case max_by_count xs of None \<Rightarrow> Some x | Some y \<Rightarrow> if snd x \<le> snd y then Some y else Some x)"

definition build_most_common :: "'h header_ops \<Rightarrow> ((u16 \<times> nat) list \<Rightarrow> (u16 \<times> nat) list)
    \<Rightarrow> failed_response list \<Rightarrow> ('h, 'j) reply option" where
  "build_most_common H hash_iter failures =
     (if failures = [] then None
      else case map_option fst (max_by_count (hash_iter (count_status failures))) of
          None \<Rightarrow> None
        | Some best \<Rightarrow>
            (case List.find (\<lambda>f. fr_status f = best) failures of
               None \<Rightarrow> None
             | Some pick \<Rightarrow>
                 (let h1 = insert_all H cors_headers (ho_empty H);
                      h2 = (case fr_content_type pick of
                          Some ct \<Rightarrow> ho_insert H ''content-type'' ct h1 | None \<Rightarrow> h1)
                  in Some \<lparr>rp_status = fr_status pick, rp_headers = h2, rp_body = RB_Full (fr_body pick)\<rparr>)))"

subsection \<open>Recording an outcome\<close>

text \<open>\<open>clk k\<close> is the \<open>k\<close>-th clock reading of the step.\<close>

definition record_success :: "(nat \<Rightarrow> u64) \<Rightarrow> route_id \<Rightarrow> u64 \<Rightarrow> entry \<Rightarrow> entry" where
  "record_success clk rid latency e =
     (let e1 = upd_route_state rid (\<lambda>st. clear_ban (observe_success (clk 0) latency st)) e
      in e1\<lparr>en_global := (en_global e1)
             \<lparr>gs_usage_count := gs_usage_count (en_global e1) + 1,
              gs_success_count := gs_success_count (en_global e1) + 1,
              gs_last_success_ms := clk 1\<rparr>\<rparr>)"

definition record_failure :: "(nat \<Rightarrow> u64) \<Rightarrow> 'r route \<Rightarrow> u64 option \<Rightarrow> string \<Rightarrow> u64 option \<Rightarrow> bool
    \<Rightarrow> entry \<Rightarrow> entry" where
  "record_failure clk route latency reason ban_ms global_fatal e =
     (let e1 = upd_route_state (rd_id route) (\<lambda>st.
            let st1 = observe_failure (clk 0) latency reason (rd_slow_ms route) st
            in (case ban_ms of Some b \<Rightarrow> ban_for (clk 1) b st1 | None \<Rightarrow> st1)) e;
          e2 = e1\<lparr>en_global := (en_global e1)
             \<lparr>gs_usage_count := gs_usage_count (en_global e1) + 1,
              gs_error_count := gs_error_count (en_global e1) + 1,
              gs_last_error_ms := clk 2\<rparr>\<rparr>
      in if global_fatal then snd (mark_transport_fatal (clk 3) e2) else e2)"

subsection \<open>One attempt\<close>

datatype 'h attempt_ok =
    AO_Stream "'h http_resp" string bool
  | AO_Buffered u16 'h string
  | AO_GiveUp u16 string

text \<open>\<open>Inl\<close> is \<^verbatim>\<open>AttemptErr::Next\<close>.\<close>

type_synonym 'h attempt = "failed_response option + 'h attempt_ok"

definition succeed :: "('h, 'u, 't, 'r, 'm, 'x) env \<Rightarrow> 'r route \<Rightarrow> addr \<Rightarrow> u64
    \<Rightarrow> ('r, 'm, 'x) world \<Rightarrow> ('r, 'm, 'x) world" where
  "succeed E route a elapsed w = upd_entry a (record_success (\<lambda>k. ev_now E k w) (rd_id route) elapsed) w"

definition fail :: "('h, 'u, 't, 'r, 'm, 'x) env \<Rightarrow> 'r route \<Rightarrow> addr \<Rightarrow> u64 option \<Rightarrow> string \<Rightarrow> u64 option \<Rightarrow> bool
    \<Rightarrow> ('r, 'm, 'x) world \<Rightarrow> ('r, 'm, 'x) world" where
  "fail E route a latency reason ban_ms global_fatal w =
     upd_entry a (record_failure (\<lambda>k. ev_now E k w) route latency reason ban_ms global_fatal) w"

definition attempt_ctx :: "('h, 'u, 't, 'r, 'm, 'x) env \<Rightarrow> 'r route \<Rightarrow> 'h request \<Rightarrow> (string \<times> string) list
    \<Rightarrow> u32 \<Rightarrow> addr \<Rightarrow> ('r, 'm, 'x) world \<Rightarrow> hook_ctx" where
  "attempt_ctx E route req hdr_pairs attempt a w =
     (base_ctx route req hdr_pairs)
       \<lparr>hc_attempt := attempt, hc_proxy_url := Some (sanitize_url (en_url (entry_at w a))),
        hc_proxy_tags := en_tags (entry_at w a), hc_elapsed_ms := ev_since E w\<rparr>"

text \<open>The verdict on a response: the route's hook, or the default for its status.\<close>

definition judge :: "('h, 'u, 't, 'r, 'm, 'x) env \<Rightarrow> 'r route \<Rightarrow> hook_ctx \<Rightarrow> hook_res
    \<Rightarrow> ('r, 'm, 'x) world \<Rightarrow> response_verdict \<times> ('r, 'm, 'x) world" where
  "judge E route ctx hr w =
     (if hk_on_response (rd_hooks route)
      then with_lua (on_response (ev_script E) (rd_id route) ctx hr (rd_default_ban_ms route)) w
      else (default_verdict (hr_status hr) (rd_default_ban_ms route), w))"

definition status_reason :: "string \<Rightarrow> u16 \<Rightarrow> string" where
  "status_reason pre status = pre @ show_nat (unat status)"

text \<open>\<^verbatim>\<open>RetrySameProxy\<close> in both paths: wait at most five seconds, count a failure, go on.\<close>

definition retry_same :: "('h, 'u, 't, 'r, 'm, 'x) env \<Rightarrow> 'r route \<Rightarrow> addr \<Rightarrow> u64 \<Rightarrow> u16 \<Rightarrow> u64
    \<Rightarrow> ('r, 'm, 'x) world \<Rightarrow> 'h attempt \<times> ('r, 'm, 'x) world" where
  "retry_same E route a elapsed status delay_ms w =
     (let w1 = (if 0 < delay_ms then ev_sleep E (min delay_ms 5000) w else w)
      in (Inl None, fail E route a (Some elapsed) (status_reason ''retry_same status '' status) None False w1))"

definition capture_attempt :: "('h, 'u, 't, 'r, 'm, 'x) env \<Rightarrow> 'r route \<Rightarrow> addr \<Rightarrow> 'h request \<Rightarrow> (string \<times> string) list
    \<Rightarrow> u32 \<Rightarrow> u64 \<Rightarrow> 'h http_resp \<Rightarrow> ('r, 'm, 'x) world \<Rightarrow> 'h attempt \<times> ('r, 'm, 'x) world" where
  "capture_attempt E route a req hdr_pairs attempt elapsed resp w =
     (let H = ev_headers E; status = rsp_status resp; rheaders = rsp_headers resp; w1 = ev_read E w in
      case read_all (rsp_body resp) of
        Inl e \<Rightarrow> (Inl None, fail E route a (Some elapsed) (describe_reqwest_error e) None False w1)
      | Inr b \<Rightarrow>
          (let full = take MAX_CAPTURE_BUFFER b;
               n = min (length full) (unat (rd_capture_body_bytes route));
               preview = from_utf8_lossy (take n full);
               hr = \<lparr>hr_status = status, hr_headers = resp_header_pairs H rheaders,
                     hr_body_preview = Some preview, hr_elapsed_ms = elapsed,
                     hr_bytes_received = of_nat (length full)\<rparr>;
               (verdict, w2) = judge E route (attempt_ctx E route req hdr_pairs attempt a w1) hr w1
           in case verdict of
                RV_Success \<Rightarrow>
                  (Inr (AO_Buffered (unwrap_or (status_from_u16 status) STATUS_OK) rheaders full),
                   succeed E route a elapsed w2)
              | RV_ReturnAsIs \<Rightarrow>
                  (Inr (AO_Buffered (unwrap_or (status_from_u16 status) STATUS_OK) rheaders full),
                   succeed E route a elapsed w2)
              | RV_RetryOtherProxy ban_for_ms \<Rightarrow>
                  (Inl (if is_html_ct H rheaders then None
                        else Some \<lparr>fr_status = unwrap_or (status_from_u16 status) BAD_GATEWAY,
                                   fr_content_type = content_type_of H rheaders, fr_body = full\<rparr>),
                   fail E route a (Some elapsed) (status_reason ''status '' status) (Some ban_for_ms) False w2)
              | RV_HardFail reason \<Rightarrow>
                  (Inl None, fail E route a (Some elapsed) reason None (is_transport_fatal_reason reason) w2)
              | RV_RetrySameProxy delay_ms \<Rightarrow> retry_same E route a elapsed status delay_ms w2
              | RV_GiveUp st body \<Rightarrow> (Inr (AO_GiveUp st body), w2)))"

definition stream_attempt :: "('h, 'u, 't, 'r, 'm, 'x) env \<Rightarrow> 'r route \<Rightarrow> addr \<Rightarrow> 'h request \<Rightarrow> (string \<times> string) list
    \<Rightarrow> 'h \<Rightarrow> u32 \<Rightarrow> u64 \<Rightarrow> 'h http_resp \<Rightarrow> ('r, 'm, 'x) world \<Rightarrow> 'h attempt \<times> ('r, 'm, 'x) world" where
  "stream_attempt E route a req hdr_pairs base_headers attempt elapsed resp w =
     (let H = ev_headers E; status = rsp_status resp; url = en_url (entry_at w a);
          hr = \<lparr>hr_status = status, hr_headers = resp_header_pairs H (rsp_headers resp),
                hr_body_preview = None, hr_elapsed_ms = elapsed, hr_bytes_received = 0\<rparr>;
          (verdict, w1) = judge E route (attempt_ctx E route req hdr_pairs attempt a w) hr w
      in case verdict of
           RV_Success \<Rightarrow>
             (Inr (AO_Stream resp url (rq_method req = ''GET'' \<and> can_recover_stream H base_headers resp)),
              succeed E route a elapsed w1)
         | RV_ReturnAsIs \<Rightarrow> (Inr (AO_Stream resp url False), succeed E route a elapsed w1)
         | RV_RetryOtherProxy ban_for_ms \<Rightarrow>
             (let w2 = fail E route a (Some elapsed) (status_reason ''status '' status) (Some ban_for_ms) False w1
              in if is_html_response H (rsp_headers resp) then (Inl None, w2)
                 else (Inl (Some (buffer_failed H resp)), ev_read E w2))
         | RV_HardFail reason \<Rightarrow> (Inl None, fail E route a (Some elapsed) reason None True w1)
         | RV_RetrySameProxy delay_ms \<Rightarrow> retry_same E route a elapsed status delay_ms w1
         | RV_GiveUp st body \<Rightarrow> (Inr (AO_GiveUp st body), w1))"

definition timeout_reason :: "u64 \<Rightarrow> string" where
  "timeout_reason ms = ''timeout '' @ show_nat (unat ms) @ ''ms''"

definition run_attempt :: "('h, 'u, 't, 'r, 'm, 'x) env \<Rightarrow> 'r route \<Rightarrow> candidate \<Rightarrow> 'h request \<Rightarrow> (string \<times> string) list
    \<Rightarrow> 'h \<Rightarrow> u32 \<Rightarrow> ('r, 'm, 'x) world \<Rightarrow> 'h attempt \<times> ('r, 'm, 'x) world" where
  "run_attempt E route cand req hdr_pairs base_headers attempt w =
     (let a = cd_entry cand;
          out = send_to_upstream (ev_libs E) (en_upstream (entry_at w a)) (rq_method req) base_headers (rq_body req) None;
          (result, elapsed, w1) = ev_send E out (rd_timeout_ms route) w
      in case result of
           HR_Ok resp \<Rightarrow>
             if 0 < rd_capture_body_bytes route
             then capture_attempt E route a req hdr_pairs attempt elapsed resp w1
             else stream_attempt E route a req hdr_pairs base_headers attempt elapsed resp w1
         | HR_Err e \<Rightarrow>
             (let reason = describe_reqwest_error e;
                  proxy_dead = he_connect e \<or> is_transport_fatal_reason reason
              in (Inl None, fail E route a None reason None proxy_dead w1))
         | HR_Timeout \<Rightarrow> (Inl None, fail E route a None (timeout_reason (rd_timeout_ms route)) None False w1))"

definition finalize_ok :: "('h, 'u, 't, 'r, 'm, 'x) env \<Rightarrow> 'h attempt_ok \<Rightarrow> 'h request \<Rightarrow> 'h \<Rightarrow> string set
    \<Rightarrow> ('h, 'h pump_job) reply" where
  "finalize_ok E ok req base_headers tried =
     (case ok of
        AO_Buffered status rh body \<Rightarrow> buffered_response (ev_headers E) status rh body
      | AO_GiveUp status body \<Rightarrow>
          text_response (ev_headers E) (unwrap_or (status_from_u16 status) BAD_GATEWAY) body
      | AO_Stream resp url recover \<Rightarrow>
          build_streaming_response (ev_headers E) resp url (rq_method req) base_headers (rq_body req) recover tried)"

subsection \<open>Lemmas\<close>

fun data_before_error :: "body_stream \<Rightarrow> string" where
  "data_before_error [] = []"
| "data_before_error (Inl e # cs) = []"
| "data_before_error (Inr b # cs) = b @ data_before_error cs"

lemma buffer_body_take:
  "length buf \<le> FAILED_BODY_CAP \<Longrightarrow> buffer_body buf cs = take FAILED_BODY_CAP (buf @ data_before_error cs)"
  by (induction buf cs rule: buffer_body.induct) (auto simp: Let_def)

lemma read_all_data: "read_all cs = Inr b \<Longrightarrow> b = data_before_error cs"
  by (induction cs arbitrary: b rule: read_all.induct) (auto split: sum.splits)

lemma en_global_update_frame [simp]:
  "route_state_of r (en_global_update f e) = route_state_of r e"
  by (simp add: route_state_of_def)

lemma record_success_state [simp]:
  "route_state_of r (record_success clk rid lat e) =
     (if r = rid then clear_ban (observe_success (clk 0) lat (route_state_of rid e)) else route_state_of r e)"
  "en_url (record_success clk rid lat e) = en_url e" "en_tags (record_success clk rid lat e) = en_tags e"
  "en_transport_fatal (record_success clk rid lat e) = en_transport_fatal e"
  "gs_usage_count (en_global (record_success clk rid lat e)) = gs_usage_count (en_global e) + 1"
  "gs_success_count (en_global (record_success clk rid lat e)) = gs_success_count (en_global e) + 1"
  "gs_error_count (en_global (record_success clk rid lat e)) = gs_error_count (en_global e)"
  by (simp_all add: record_success_def Let_def)

lemma record_failure_state [simp]:
  "route_state_of r (record_failure clk route lat reason ban gf e) =
     (if r = rd_id route
      then (let st1 = observe_failure (clk 0) lat reason (rd_slow_ms route) (route_state_of r e)
            in case ban of Some b \<Rightarrow> ban_for (clk 1) b st1 | None \<Rightarrow> st1)
      else route_state_of r e)"
  "en_url (record_failure clk route lat reason ban gf e) = en_url e"
  "en_tags (record_failure clk route lat reason ban gf e) = en_tags e"
  "en_transport_fatal (record_failure clk route lat reason ban gf e) = (gf \<or> en_transport_fatal e)"
  "gs_usage_count (en_global (record_failure clk route lat reason ban gf e)) = gs_usage_count (en_global e) + 1"
  "gs_success_count (en_global (record_failure clk route lat reason ban gf e)) = gs_success_count (en_global e)"
  "gs_error_count (en_global (record_failure clk route lat reason ban gf e)) = gs_error_count (en_global e) + 1"
  by (simp_all add: record_failure_def Let_def)

lemma count_one_get:
  "unwrap_or (map_of (fold count_one fs counts) s) 0
   = unwrap_or (map_of counts s) 0 + length (filter (\<lambda>f. fr_status f = s) fs)"
  by (induction fs arbitrary: counts) (simp_all add: count_one_def update_conv')

lemma count_one_dom: "fst ` set (fold count_one fs counts) = fst ` set counts \<union> fr_status ` set fs"
  by (induction fs arbitrary: counts) (auto simp: count_one_def dom_update)

lemma distinct_count_one: "distinct (map fst counts) \<Longrightarrow> distinct (map fst (fold count_one fs counts))"
  by (induction fs arbitrary: counts) (simp_all add: count_one_def distinct_update)

lemma count_status_mem:
  assumes "(s, c) \<in> set (count_status fs)"
  shows "c = length (filter (\<lambda>f. fr_status f = s) fs)" and "s \<in> fr_status ` set fs"
proof -
  have "distinct (map fst (count_status fs))"
    unfolding count_status_def by (rule distinct_count_one) simp
  then have "map_of (count_status fs) s = Some c"
    using assms by (rule map_of_is_SomeI)
  with count_one_get [of fs "[]" s] show "c = length (filter (\<lambda>f. fr_status f = s) fs)"
    by (simp add: count_status_def)
  have "fst ` set (count_status fs) = fr_status ` set fs"
    using count_one_dom [of fs "[]"] by (simp add: count_status_def)
  then show "s \<in> fr_status ` set fs" using assms by (metis fst_conv imageI)
qed

lemma count_status_all:
  assumes "f \<in> set fs"
  shows "\<exists>c. (fr_status f, c) \<in> set (count_status fs)"
proof -
  have "fst ` set (count_status fs) = fr_status ` set fs"
    using count_one_dom [of fs "[]"] by (simp add: count_status_def)
  then have "fr_status f \<in> fst ` set (count_status fs)" using assms by simp
  then show ?thesis by force
qed

lemma max_by_count_None [simp]: "max_by_count xs = None \<longleftrightarrow> xs = []"
  by (cases xs) (auto split: option.splits)

lemma max_by_count_max:
  "max_by_count xs = Some y \<Longrightarrow> y \<in> set xs \<and> (\<forall>x\<in>set xs. snd x \<le> snd y)"
proof (induction xs arbitrary: y)
  case (Cons a xs)
  show ?case
  proof (cases "max_by_count xs")
    case None
    then have "xs = []" by simp
    with Cons.prems show ?thesis by simp
  next
    case (Some z)
    note z = Cons.IH [OF Some]
    show ?thesis
    proof (cases "snd a \<le> snd z")
      case True
      with Some Cons.prems z show ?thesis by simp
    next
      case False
      with Some Cons.prems have "y = a" by simp
      moreover have "snd x \<le> snd a" if "x \<in> set xs" for x
        using z that False by fastforce
      ultimately show ?thesis by simp
    qed
  qed
qed simp

subsection \<open>Properties\<close>

text \<open>
  A success recorded on a route lifts the ban there and resets the failure streak; a failure
  recorded with a ban of \<open>b\<close> milliseconds bans the proxy there until then and adds one to the streak; the
  global flag is only ever set, by a failure that says so; the other routes of the proxy, its URL
  and its tags stay as they are, and each recording counts one use.
\<close>

lemma recorded_outcomes:
  "is_banned t (route_state_of (rd_id route) (record_success clk (rd_id route) lat e)) = False
   \<and> rs_consecutive_failures (route_state_of (rd_id route) (record_success clk (rd_id route) lat e)) = 0
   \<and> (is_banned t (route_state_of (rd_id route) (record_failure clk route lo reason (Some b) gf e))
        \<longleftrightarrow> unat t < min (unat (clk 1) + unat b) (2 ^ 64 - 1))
   \<and> is_banned t (route_state_of (rd_id route) (record_failure clk route lo reason None gf e))
        = is_banned t (route_state_of (rd_id route) e)
   \<and> rs_consecutive_failures (route_state_of (rd_id route) (record_failure clk route lo reason ban gf e))
        = rs_consecutive_failures (route_state_of (rd_id route) e) + 1
   \<and> en_transport_fatal (record_failure clk route lo reason ban gf e) = (gf \<or> en_transport_fatal e)
   \<and> map (\<lambda>f. (route_state_of (rd_id route + 1) f, en_url f, en_tags f, gs_usage_count (en_global f)))
        [record_success clk (rd_id route) lat e, record_failure clk route lo reason ban gf e]
      = replicate 2 (route_state_of (rd_id route + 1) e, en_url e, en_tags e, gs_usage_count (en_global e) + 1)"
  by (simp add: is_banned_ban_for Let_def numeral_2_eq_2 split: option.split)

text \<open>
  C27: Which send failures condemn a proxy globally. A timeout leaves every transport-fatal flag as
  it was; an error sets the flag of the tried proxy exactly if it is a connect error or its description is of
  the connect class. No other proxy is touched in either case.
\<close>

theorem send_failure_fatal:
  assumes "ev_send E (send_to_upstream (ev_libs E) (en_upstream (entry_at w (cd_entry cand))) (rq_method req)
      base_headers (rq_body req) None) (rd_timeout_ms route) w = (res, elapsed, w1)"
  shows "(res = HR_Timeout \<longrightarrow>
        (\<forall>b. en_transport_fatal (entry_at (snd (run_attempt E route cand req pairs base_headers n w)) b)
           = en_transport_fatal (entry_at w1 b)))
    \<and> (\<forall>err. res = HR_Err err \<longrightarrow>
        en_transport_fatal (entry_at (snd (run_attempt E route cand req pairs base_headers n w)) (cd_entry cand))
          = (he_connect err \<or> is_transport_fatal_reason (describe_reqwest_error err)
             \<or> en_transport_fatal (entry_at w1 (cd_entry cand)))
        \<and> (\<forall>b. b \<noteq> cd_entry cand \<longrightarrow>
             entry_at (snd (run_attempt E route cand req pairs base_headers n w)) b = entry_at w1 b))"
  using assms by (auto simp: run_attempt_def Let_def fail_def)

lemma send_failure_fatal_witness:
  "\<not> en_transport_fatal (entry_at (snd (run_attempt (sample_env HR_Timeout HA_NoHook) (sample_route Random)
      \<lparr>cd_entry = 0, cd_tier = Healthy, cd_latency = 0\<rparr> sample_request [] ph_empty 1 (sample_world [0]))) 0)"
  using send_failure_fatal [of "sample_env HR_Timeout HA_NoHook" "sample_world [0]"
      "\<lparr>cd_entry = 0, cd_tier = Healthy, cd_latency = 0\<rparr>" sample_request ph_empty "sample_route Random"
      HR_Timeout 40 "sample_world [0]" "[]" 1]
  by (simp add: sample_world_def entry_at_def sample_store_def plain_entry_def)

text \<open>The hook's view of a response whose body is not captured.\<close>

definition response_of :: "('h, 'u, 't, 'r, 'm, 'x) env \<Rightarrow> 'h http_resp \<Rightarrow> u64 \<Rightarrow> hook_res" where
  "response_of E resp elapsed =
     \<lparr>hr_status = rsp_status resp, hr_headers = resp_header_pairs (ev_headers E) (rsp_headers resp),
      hr_body_preview = None, hr_elapsed_ms = elapsed, hr_bytes_received = 0\<rparr>"

text \<open>
  A hard-fail verdict in the streaming path sets the transport-fatal flag of the proxy whatever
  its reason says, and the attempt moves on to the next proxy.
\<close>

lemma stream_hard_fail_is_fatal:
  assumes "judge E route (attempt_ctx E route req pairs n a w) (response_of E resp elapsed) w = (RV_HardFail reason, w1)"
  shows "fst (stream_attempt E route a req pairs base_headers n elapsed resp w) = Inl None
    \<and> en_transport_fatal (entry_at (snd (stream_attempt E route a req pairs base_headers n elapsed resp w)) a)"
  using assms by (simp add: stream_attempt_def response_of_def Let_def fail_def)

definition retriable :: "u16 \<Rightarrow> bool" where
  "retriable s = (s = 421 \<or> s = 429 \<or> 500 \<le> s)"

lemma default_verdict_cases:
  "default_verdict s d = (if retriable s then RV_RetryOtherProxy d else if s = 403 then RV_ReturnAsIs else RV_Success)"
  by (auto simp: default_verdict_def retriable_def)

text \<open>A route with a response hook that answers a hard fail for a content reason.\<close>

definition hook_route :: "unit route" where
  "hook_route = (sample_route Random)
     \<lparr>rd_hooks := \<lparr>hk_on_request = False, hk_on_response = True, hk_on_exhausted = False\<rparr>\<rparr>"

definition hard_fail_answer :: "plain_table hook_answer" where
  "hard_fail_answer =
     HA_Value (L_Table (Plain [(''verdict'', L_String ''hard_fail''), (''reason'', L_String ''captcha'')] []))"

lemma stream_hard_fail_is_fatal_witness:
  "en_transport_fatal (entry_at (snd (stream_attempt (sample_env HR_Timeout hard_fail_answer) hook_route 0 sample_request []
      ph_empty 1 40 \<lparr>rsp_status = 200, rsp_headers = ph_empty, rsp_body = []\<rparr> (sample_world [0]))) 0)
   \<and> \<not> is_transport_fatal_reason ''captcha''"
proof -
  let ?E = "sample_env HR_Timeout hard_fail_answer"
  let ?resp = "\<lparr>rsp_status = 200, rsp_headers = ph_empty, rsp_body = []\<rparr>"
  have "fst (judge ?E hook_route (attempt_ctx ?E hook_route sample_request [] 1 0 (sample_world [0]))
      (response_of ?E ?resp 40) (sample_world [0])) = RV_HardFail ''captcha''"
    by (simp add: judge_def hook_route_def sample_env_def hard_fail_answer_def with_lua_def on_response_def
        call_hook_def parse_response_verdict_def vstr_def utf8_valid_ascii prod.case_eq_if Let_def)
  then obtain w1 where "judge ?E hook_route (attempt_ctx ?E hook_route sample_request [] 1 0 (sample_world [0]))
      (response_of ?E ?resp 40) (sample_world [0]) = (RV_HardFail ''captcha'', w1)"
    by (metis prod.collapse)
  from stream_hard_fail_is_fatal [OF this] show ?thesis
    by (simp add: is_transport_fatal_reason_def str_contains_def)
qed

text \<open>
  Default verdicts. Without a response hook, a streamed response with a status below 500 other than
  421 and 429 is relayed and recorded as a success; any other is recorded as a failure that bans the
  proxy for the route's default, and the next proxy is tried.
\<close>

lemma default_stream_outcome:
  assumes "\<not> hk_on_response (rd_hooks route)"
  shows "(if retriable (rsp_status resp)
      then (\<exists>f w2. stream_attempt E route a req pairs base_headers n elapsed resp w = (Inl f, w2)
             \<and> w2 \<in> {fail E route a (Some elapsed) (status_reason ''status '' (rsp_status resp))
                        (Some (rd_default_ban_ms route)) False w,
                      ev_read E (fail E route a (Some elapsed) (status_reason ''status '' (rsp_status resp))
                        (Some (rd_default_ban_ms route)) False w)})
      else (\<exists>recover. stream_attempt E route a req pairs base_headers n elapsed resp w
             = (Inr (AO_Stream resp (en_url (entry_at w a)) recover), succeed E route a elapsed w)
             \<and> (recover = (rsp_status resp \<noteq> 403 \<and> rq_method req = ''GET''
                  \<and> can_recover_stream (ev_headers E) base_headers resp))))"
  using assms
  by (auto simp: stream_attempt_def judge_def default_verdict_cases Let_def retriable_def)

lemma default_stream_outcome_witness:
  "\<exists>f w2. stream_attempt (sample_env HR_Timeout HA_NoHook) (sample_route Random) 0 sample_request [] ph_empty 1 40
      \<lparr>rsp_status = 503, rsp_headers = ph_empty, rsp_body = [Inr ''busy'']\<rparr> (sample_world [0]) = (Inl f, w2)"
  using default_stream_outcome [of "sample_route Random" "\<lparr>rsp_status = 503, rsp_headers = ph_empty, rsp_body = [Inr ''busy'']\<rparr>"
      "sample_env HR_Timeout HA_NoHook" 0 sample_request "[]" ph_empty 1 40 "sample_world [0]"]
  by (auto simp: sample_route_def retriable_def)

text \<open>
  What is kept of a failed response: the first 64 KiB of the bytes that arrived before the
  transfer broke off or ended.
\<close>

lemma buffered_failure_body:
  "fr_body (buffer_failed H resp) = take FAILED_BODY_CAP (data_before_error (rsp_body resp))"
  by (simp add: buffer_failed_def buffer_body_take)

text \<open>
  When every proxy failed, the reply is one of the failed responses, with a status that no other
  status outnumbers, and the first response of that status; there is one unless nothing was kept. This holds
  for every iteration order of the hash map.
\<close>

lemma most_common_failure:
  assumes "\<And>xs. mset (hash_iter xs) = mset xs"
  shows "case (build_most_common H hash_iter fs :: ('h, 'j) reply option) of
      None \<Rightarrow> fs = []
    | Some r \<Rightarrow>
        (\<exists>f. List.find (\<lambda>f. fr_status f = rp_status r) fs = Some f \<and> rp_body r = RB_Full (fr_body f))
        \<and> (\<forall>s. length (filter (\<lambda>f. fr_status f = s) fs) \<le> length (filter (\<lambda>f. fr_status f = rp_status r) fs))"
proof (cases "fs = []")
  case True
  then show ?thesis by (simp add: build_most_common_def)
next
  case False
  let ?xs = "hash_iter (count_status fs)"
  have set_xs: "set ?xs = set (count_status fs)" using assms by (metis set_mset_mset)
  obtain f0 where "f0 \<in> set fs" using False by (cases fs) auto
  then have "?xs \<noteq> []" using count_status_all set_xs by (metis empty_iff list.set(1))
  then obtain best c where max: "max_by_count ?xs = Some (best, c)" by (cases "max_by_count ?xs") auto
  then have mem: "(best, c) \<in> set (count_status fs)" and le: "\<forall>x\<in>set (count_status fs). snd x \<le> c"
    using max_by_count_max [OF max] set_xs by auto
  note c = count_status_mem [OF mem]
  obtain f where f: "List.find (\<lambda>f. fr_status f = best) fs = Some f"
    using c(2) by (cases "List.find (\<lambda>f. fr_status f = best) fs") (auto simp: find_None_iff)
  then have "fr_status f = best" by (auto simp: find_Some_iff)
  have "length (filter (\<lambda>f. fr_status f = s) fs) \<le> length (filter (\<lambda>f. fr_status f = best) fs)" for s
  proof (cases "s \<in> fr_status ` set fs")
    case True
    then obtain d where d: "(s, d) \<in> set (count_status fs)" using count_status_all by blast
    with le have "d \<le> c" by fastforce
    with c(1) count_status_mem(1) [OF d] show ?thesis by simp
  next
    case False
    then have "filter (\<lambda>f. fr_status f = s) fs = []" by (auto simp: filter_empty_conv)
    then show ?thesis by simp
  qed
  with False max f \<open>fr_status f = best\<close> show ?thesis
    by (simp add: build_most_common_def Let_def)
qed

definition sample_failures :: "failed_response list" where
  "sample_failures =
     [\<lparr>fr_status = 500, fr_content_type = None, fr_body = ''a''\<rparr>, \<lparr>fr_status = 429, fr_content_type = None, fr_body = ''b''\<rparr>,
      \<lparr>fr_status = 429, fr_content_type = None, fr_body = ''c''\<rparr>]"

lemma most_common_failure_witness:
  "\<exists>r. (build_most_common plain_headers (\<lambda>xs. xs) sample_failures :: (plain_header_map, unit) reply option) = Some r
     \<and> 2 \<le> length (filter (\<lambda>f. fr_status f = rp_status r) sample_failures)"
proof -
  have ne: "sample_failures \<noteq> []" and two: "length (filter (\<lambda>f. fr_status f = 429) sample_failures) = 2"
    by (simp_all add: sample_failures_def)
  note spec = most_common_failure [where hash_iter = "\<lambda>xs. xs" and H = plain_headers and fs = sample_failures
      and 'j = unit, OF refl]
  show ?thesis
  proof (cases "build_most_common plain_headers (\<lambda>xs. xs) sample_failures :: (plain_header_map, unit) reply option")
    case None
    with spec ne show ?thesis by simp
  next
    case (Some r)
    with spec have "length (filter (\<lambda>f. fr_status f = 429) sample_failures)
        \<le> length (filter (\<lambda>f. fr_status f = rp_status r) sample_failures)" by simp
    with Some two show ?thesis by auto
  qed
qed

end
