(* ===== verification/Dispatch.thy ===== *)
theory Dispatch
  imports Attempt
begin

text \<open>
  \<^verbatim>\<open>intermediate-proxy/src/dispatch/mod.rs\<close> lines 488 to 868: trying the candidates of a plan one
  after the other or hedged, the retry rounds of \<^verbatim>\<open>run\<close>, and the last resort through fatal
  proxies. A hedged dispatch is driven by a schedule: each turn of its loop first waits (\<open>ev_read\<close>), and
  then one of the attempts in flight completes or the timer fires. The attempt that completes is run there as a whole.
  What the others record while they are in flight, and what an attempt that is dropped later had recorded by then, is
  part of the world that the await returns; the theorems hold for every such await, or under the stated condition on
  what awaits may do. If the schedule ends before the dispatch does, the result is \<open>None\<close>, and
  \<open>hedge_finishes\<close> says how many completions are enough.
\<close>

type_synonym ('h) dispatched = "('h, 'h pump_job) reply option"

definition push_failed :: "failed_response option \<Rightarrow> failed_response list \<Rightarrow> failed_response list" where
  "push_failed failed failures = (case failed of Some f \<Rightarrow> failures @ [f] | None \<Rightarrow> failures)"

subsection \<open>Sequential dispatch\<close>

text \<open>\<open>url\<close> reads the URL of an entry, a field that never changes.\<close>

fun sequential_loop :: "('h, 'u, 't, 'r, 'm, 'x) env \<Rightarrow> 'r route \<Rightarrow> 'h request \<Rightarrow> (string \<times> string) list \<Rightarrow> 'h
    \<Rightarrow> (addr \<Rightarrow> string) \<Rightarrow> candidate list \<Rightarrow> u32 \<Rightarrow> string set \<Rightarrow> failed_response list \<Rightarrow> ('r, 'm, 'x) world
    \<Rightarrow> 'h dispatched \<times> string set \<times> failed_response list \<times> ('r, 'm, 'x) world" where
  "sequential_loop E route req pairs base url [] attempt tried failures w = (None, tried, failures, w)"
| "sequential_loop E route req pairs base url (cand # plan) attempt tried failures w =
     (let tried1 = insert (url (cd_entry cand)) tried;
          attempt1 = attempt + 1;
          w1 = (if 0 < rd_attempt_backoff_ms route \<and> 1 < attempt1
                then ev_sleep E (rd_attempt_backoff_ms route) w else w);
          (res, w2) = run_attempt E route cand req pairs base attempt1 w1
      in case res of
           Inr ok \<Rightarrow> (Some (finalize_ok E ok req base tried1), tried1, failures, w2)
         | Inl failed \<Rightarrow>
             sequential_loop E route req pairs base url plan attempt1 tried1 (push_failed failed failures) w2)"

definition dispatch_sequential :: "('h, 'u, 't, 'r, 'm, 'x) env \<Rightarrow> 'r route \<Rightarrow> 'h request \<Rightarrow> (string \<times> string) list \<Rightarrow> 'h
    \<Rightarrow> candidate list \<Rightarrow> string set \<Rightarrow> failed_response list \<Rightarrow> ('r, 'm, 'x) world
    \<Rightarrow> 'h dispatched \<times> string set \<times> failed_response list \<times> ('r, 'm, 'x) world" where
  "dispatch_sequential E route req pairs base plan tried failures w =
     sequential_loop E route req pairs base (\<lambda>a. en_url (entry_at w a)) plan 0 tried failures w"

subsection \<open>Hedged dispatch\<close>

datatype hedge_event = EvDone nat | EvTimer

text \<open>
  The candidates not looked at yet, the attempts in flight, the tried set and the failures. \<open>hs_begun\<close> is a
  ghost that lists all attempts started; nothing reads it but the theorems.
\<close>

record hedge_state =
  hs_rest :: "(nat \<times> candidate) list"
  hs_futs :: "(nat \<times> candidate) list"
  hs_begun :: "(nat \<times> candidate) list"
  hs_tried :: "string set"
  hs_failures :: "failed_response list"

text \<open>\<^verbatim>\<open>launch\<close>: start the next candidate that was not tried, if there is one.\<close>

fun launch_from :: "(addr \<Rightarrow> string) \<Rightarrow> (nat \<times> candidate) list \<Rightarrow> string set
    \<Rightarrow> (nat \<times> candidate) option \<times> (nat \<times> candidate) list \<times> string set" where
  "launch_from url [] tried = (None, [], tried)"
| "launch_from url (c # rest) tried =
     (if url (cd_entry (snd c)) \<in> tried then launch_from url rest tried
      else (Some c, rest, insert (url (cd_entry (snd c))) tried))"

definition launch :: "(addr \<Rightarrow> string) \<Rightarrow> hedge_state \<Rightarrow> hedge_state" where
  "launch url st =
     (let (c, rest, tried) = launch_from url (hs_rest st) (hs_tried st);
          new = (case c of Some f \<Rightarrow> [f] | None \<Rightarrow> [])
      in st\<lparr>hs_rest := rest, hs_tried := tried, hs_futs := hs_futs st @ new, hs_begun := hs_begun st @ new\<rparr>)"

definition remove_nth :: "nat \<Rightarrow> 'a list \<Rightarrow> 'a list" where
  "remove_nth i xs = take i xs @ drop (Suc i) xs"

definition max_par :: "'r route \<Rightarrow> nat" where
  "max_par route = unat (max (hg_max_parallel (rd_hedge route)) 1)"

text \<open>
  One turn of the loop, the two branches of \<^verbatim>\<open>select!\<close>: \<open>Inl\<close> ends the dispatch with a reply,
  \<open>Inr\<close> goes on.
\<close>

definition hedge_turn :: "('h, 'u, 't, 'r, 'm, 'x) env \<Rightarrow> 'r route \<Rightarrow> 'h request \<Rightarrow> (string \<times> string) list \<Rightarrow> 'h
    \<Rightarrow> (addr \<Rightarrow> string) \<Rightarrow> hedge_event \<Rightarrow> hedge_state \<Rightarrow> ('r, 'm, 'x) world
    \<Rightarrow> ('h dispatched \<times> hedge_state \<times> ('r, 'm, 'x) world) + (hedge_state \<times> ('r, 'm, 'x) world)" where
  "hedge_turn E route req pairs base url ev st w =
     (let w0 = ev_read E w in
      case ev of
        EvDone k \<Rightarrow>
          (let i = k mod length (hs_futs st);
               (idx, cand) = hs_futs st ! i;
               st1 = st\<lparr>hs_futs := remove_nth i (hs_futs st)\<rparr>;
               (res, w1) = run_attempt E route cand req pairs base (of_nat (idx + 1)) w0
           in case res of
                Inr ok \<Rightarrow> Inl (Some (finalize_ok E ok req base (hs_tried st1)), st1, w1)
              | Inl failed \<Rightarrow> Inr (launch url (st1\<lparr>hs_failures := push_failed failed (hs_failures st1)\<rparr>), w1))
      | EvTimer \<Rightarrow> Inr (if length (hs_futs st) < max_par route then launch url st else st, w0))"

fun hedge_loop :: "('h, 'u, 't, 'r, 'm, 'x) env \<Rightarrow> 'r route \<Rightarrow> 'h request \<Rightarrow> (string \<times> string) list \<Rightarrow> 'h
    \<Rightarrow> (addr \<Rightarrow> string) \<Rightarrow> hedge_event list \<Rightarrow> hedge_state \<Rightarrow> ('r, 'm, 'x) world
    \<Rightarrow> ('h dispatched \<times> hedge_state \<times> ('r, 'm, 'x) world) option" where
  "hedge_loop E route req pairs base url sched st w =
     (if hs_futs st = [] then Some (None, st, w)
      else case sched of
          [] \<Rightarrow> None
        | ev # sched1 \<Rightarrow>
            (case hedge_turn E route req pairs base url ev st w of
               Inl ended \<Rightarrow> Some ended
             | Inr (st1, w1) \<Rightarrow> hedge_loop E route req pairs base url sched1 st1 w1))"

declare hedge_loop.simps [simp del]

definition hedge_start :: "(addr \<Rightarrow> string) \<Rightarrow> candidate list \<Rightarrow> string set \<Rightarrow> failed_response list \<Rightarrow> hedge_state" where
  "hedge_start url plan tried failures =
     launch url \<lparr>hs_rest = enumerate 0 plan, hs_futs = [], hs_begun = [], hs_tried = tried, hs_failures = failures\<rparr>"

definition dispatch_hedged :: "('h, 'u, 't, 'r, 'm, 'x) env \<Rightarrow> 'r route \<Rightarrow> 'h request \<Rightarrow> (string \<times> string) list \<Rightarrow> 'h
    \<Rightarrow> hedge_event list \<Rightarrow> candidate list \<Rightarrow> string set \<Rightarrow> failed_response list \<Rightarrow> ('r, 'm, 'x) world
    \<Rightarrow> ('h dispatched \<times> string set \<times> failed_response list \<times> ('r, 'm, 'x) world) option" where
  "dispatch_hedged E route req pairs base sched plan tried failures w =
     (let url = (\<lambda>a. en_url (entry_at w a)) in
      case hedge_loop E route req pairs base url sched (hedge_start url plan tried failures) w of
        None \<Rightarrow> None
      | Some (result, st, w1) \<Rightarrow> Some (result, hs_tried st, hs_failures st, w1))"

subsection \<open>The last resort\<close>

definition fatal_retriable :: "u16 \<Rightarrow> bool" where
  "fatal_retriable status = (500 \<le> status \<and> status \<le> 599 \<or> status = 429 \<or> status = 421)"

fun fatal_loop :: "('h, 'u, 't, 'r, 'm, 'x) env \<Rightarrow> 'r route \<Rightarrow> 'h request \<Rightarrow> 'h \<Rightarrow> string set \<Rightarrow> addr list
    \<Rightarrow> failed_response list \<Rightarrow> ('r, 'm, 'x) world
    \<Rightarrow> 'h dispatched \<times> failed_response list \<times> ('r, 'm, 'x) world" where
  "fatal_loop E route req base tried [] failures w = (None, failures, w)"
| "fatal_loop E route req base tried (a # as) failures w =
     (let H = ev_headers E;
          out = send_to_upstream (ev_libs E) (en_upstream (entry_at w a)) (rq_method req) base (rq_body req) None;
          (res, elapsed, w1) = ev_send E out (rd_timeout_ms route) w
      in case res of
           HR_Ok resp \<Rightarrow>
             if fatal_retriable (rsp_status resp) \<or> rsp_status resp = 403
             then (if is_html_response H (rsp_headers resp)
                   then fatal_loop E route req base tried as failures w1
                   else fatal_loop E route req base tried as (failures @ [buffer_failed H resp]) (ev_read E w1))
             else (Some (build_streaming_response H resp (en_url (entry_at w a)) (rq_method req) base (rq_body req)
                           False tried), failures, w1)
         | HR_Err e \<Rightarrow> fatal_loop E route req base tried as failures w1
         | HR_Timeout \<Rightarrow> fatal_loop E route req base tried as failures w1)"

definition try_fatal :: "('h, 'u, 't, 'r, 'm, 'x) env \<Rightarrow> 'r route \<Rightarrow> 'h request \<Rightarrow> 'h \<Rightarrow> string list \<Rightarrow> string list
    \<Rightarrow> string set \<Rightarrow> failed_response list \<Rightarrow> ('r, 'm, 'x) world
    \<Rightarrow> 'h dispatched \<times> failed_response list \<times> ('r, 'm, 'x) world" where
  "try_fatal E route req base pool_all pool_any tried failures w =
     (let snapshot = pool_snapshot (wo_pool w);
          (fb, \<sigma>) = fallback_pool (ev_now E 0 w) route snapshot pool_all pool_any tried (hp_at (wo_heap w))
      in fatal_loop E route req base tried fb failures (set_store \<sigma> w))"

subsection \<open>The rounds of a request\<close>

text \<open>What \<^verbatim>\<open>on_request\<close> decided before the first round.\<close>

record 'h prepared =
  pp_base_headers :: 'h
  pp_pool_all :: "string list"
  pp_pool_any :: "string list"
  pp_forced :: "string option"

definition prepare :: "('h, 'u, 't, 'r, 'm, 'x) env \<Rightarrow> 'r route \<Rightarrow> 'h request \<Rightarrow> (string \<times> string) list
    \<Rightarrow> ('r, 'm, 'x) world \<Rightarrow> 'h prepared \<times> ('r, 'm, 'x) world" where
  "prepare E route req pairs w =
     (if hk_on_request (rd_hooks route)
      then (let (mods, w1) = with_lua (on_request (ev_script E) (rd_id route) (base_ctx route req pairs)) w
            in (\<lparr>pp_base_headers = apply_request_mods (ev_headers E) mods (rq_headers req),
                 pp_pool_all = unwrap_or (rm_override_all_tags mods) (rd_pool_all_tags route),
                 pp_pool_any = (case rm_override_all_tags mods of Some _ \<Rightarrow> [] | None \<Rightarrow> rd_pool_any_tags route),
                 pp_forced = rm_force_proxy mods\<rparr>, w1))
      else (\<lparr>pp_base_headers = rq_headers req, pp_pool_all = rd_pool_all_tags route,
             pp_pool_any = rd_pool_any_tags route, pp_forced = None\<rparr>, w))"

definition sticky_key_of :: "'h header_ops \<Rightarrow> 'r route \<Rightarrow> 'h \<Rightarrow> string option" where
  "sticky_key_of H route base =
     (case rd_selector route of StickyByHeader h \<Rightarrow> get_str H base h | _ \<Rightarrow> None)"

text \<open>The plan of a round, with a forced proxy in front, if the pool knows it.\<close>

definition round_plan :: "('h, 'u, 't, 'r, 'm, 'x) env \<Rightarrow> 'r route \<Rightarrow> 'h prepared \<Rightarrow> string option
    \<Rightarrow> ('r, 'm, 'x) world \<Rightarrow> candidate list \<times> ('r, 'm, 'x) world" where
  "round_plan E route pr forced w =
     (let (plan, cursor, \<sigma>) = build_plan (ev_random E) (ev_hash E) (ev_now E 0 w) route (pool_snapshot (wo_pool w))
            (pp_pool_all pr) (pp_pool_any pr) (sticky_key_of (ev_headers E) route (pp_base_headers pr))
            (wo_cursor w) (hp_at (wo_heap w));
          w1 = (set_store \<sigma> w)\<lparr>wo_cursor := cursor\<rparr>
      in case Option.bind forced (pool_find (wo_pool w1)) of
           Some a \<Rightarrow>
             (let (st, e) = get_route_state (rd_id route) (entry_at w1 a)
              in (\<lparr>cd_entry = a, cd_tier = Healthy, cd_latency = rs_avg_latency_ms st\<rparr> # plan,
                  upd_entry a (\<lambda>_. e) w1))
         | None \<Rightarrow> (plan, w1))"

definition run_plan :: "('h, 'u, 't, 'r, 'm, 'x) env \<Rightarrow> 'r route \<Rightarrow> 'h request \<Rightarrow> (string \<times> string) list \<Rightarrow> 'h
    \<Rightarrow> hedge_event list \<Rightarrow> candidate list \<Rightarrow> string set \<Rightarrow> failed_response list \<Rightarrow> ('r, 'm, 'x) world
    \<Rightarrow> ('h dispatched \<times> string set \<times> failed_response list \<times> ('r, 'm, 'x) world) option" where
  "run_plan E route req pairs base sched plan tried failures w =
     (if plan = [] then Some (None, tried, failures, w)
      else if rd_selector route = Hedge
      then dispatch_hedged E route req pairs base sched plan tried failures w
      else Some (dispatch_sequential E route req pairs base plan tried failures w))"

definition exhausted_ctx :: "'r route \<Rightarrow> 'h request \<Rightarrow> (string \<times> string) list \<Rightarrow> string set \<Rightarrow> hook_ctx" where
  "exhausted_ctx route req pairs tried =
     (base_ctx route req pairs)\<lparr>hc_attempt := of_nat (card tried + 1), hc_elapsed_ms := 0\<rparr>"

definition exhausted_verdict_of :: "('h, 'u, 't, 'r, 'm, 'x) env \<Rightarrow> 'r route \<Rightarrow> hook_ctx
    \<Rightarrow> ('r, 'm, 'x) world \<Rightarrow> exhausted_verdict \<times> ('r, 'm, 'x) world" where
  "exhausted_verdict_of E route ctx w =
     (if hk_on_exhausted (rd_hooks route)
      then with_lua (on_exhausted (ev_script E) (rd_id route) ctx) w
      else (EV_TryFatal, w))"

text \<open>After the loop: the most common failure, or the proxy error.\<close>

definition give_up :: "('h, 'u, 't, 'r, 'm, 'x) env \<Rightarrow> ((u16 \<times> nat) list \<Rightarrow> (u16 \<times> nat) list) \<Rightarrow> 'r route
    \<Rightarrow> failed_response list \<Rightarrow> ('h, 'h pump_job) reply" where
  "give_up E hash_iter route failures =
     (case build_most_common (ev_headers E) hash_iter failures of
        Some resp \<Rightarrow> resp
      | None \<Rightarrow> text_response (ev_headers E) BAD_GATEWAY
          (''Proxy Error: route '' @ CHR 0x27 # rd_name route @ CHR 0x27 # '' exhausted''))"

text \<open>The loop. \<open>sched n\<close> is the schedule of the hedged dispatch of round \<open>n\<close>.\<close>

function run_rounds :: "('h, 'u, 't, 'r, 'm, 'x) env \<Rightarrow> ((u16 \<times> nat) list \<Rightarrow> (u16 \<times> nat) list) \<Rightarrow> 'r route
    \<Rightarrow> 'h request \<Rightarrow> (string \<times> string) list \<Rightarrow> 'h prepared \<Rightarrow> nat \<Rightarrow> (nat \<Rightarrow> hedge_event list)
    \<Rightarrow> nat \<Rightarrow> string option \<Rightarrow> string set \<Rightarrow> failed_response list \<Rightarrow> ('r, 'm, 'x) world
    \<Rightarrow> (('h, 'h pump_job) reply \<times> ('r, 'm, 'x) world) option" where
  "run_rounds E hash_iter route req pairs pr max_hard sched hard_rounds forced tried failures w =
     (let (plan, w1) = round_plan E route pr forced w in
      case run_plan E route req pairs (pp_base_headers pr) (sched hard_rounds) plan tried failures w1 of
        None \<Rightarrow> None
      | Some (Some resp, tried1, failures1, w2) \<Rightarrow> Some (resp, w2)
      | Some (None, tried1, failures1, w2) \<Rightarrow>
          (let (verdict, w3) = exhausted_verdict_of E route (exhausted_ctx route req pairs tried1) w2 in
           case verdict of
             EV_TryFatal \<Rightarrow>
               (case try_fatal E route req (pp_base_headers pr) (pp_pool_all pr) (pp_pool_any pr) tried1 failures1 w3 of
                  (Some resp, failures2, w4) \<Rightarrow> Some (resp, w4)
                | (None, failures2, w4) \<Rightarrow> Some (give_up E hash_iter route failures2, w4))
           | EV_WaitProbe timeout_ms \<Rightarrow>
               (let w4 = ev_sleep E (min timeout_ms 30000) w3 in
                if max_hard \<le> hard_rounds + 1 then Some (give_up E hash_iter route failures1, w4)
                else run_rounds E hash_iter route req pairs pr max_hard sched (hard_rounds + 1) None tried1 failures1 w4)
           | EV_RetryAll \<Rightarrow>
               if max_hard \<le> hard_rounds + 1 then Some (give_up E hash_iter route failures1, w3)
               else run_rounds E hash_iter route req pairs pr max_hard sched (hard_rounds + 1) None {} failures1 w3
           | EV_ReturnError status body \<Rightarrow>
               Some (text_response (ev_headers E) (unwrap_or (status_from_u16 status) BAD_GATEWAY) body, w3)))"
  by pat_completeness auto
termination
  by (relation "measure (\<lambda>(E, hi, route, req, pairs, pr, max_hard, sched, hard_rounds, forced, tried, failures, w).
        max_hard - hard_rounds)") auto

declare run_rounds.simps [simp del]

definition run :: "('h, 'u, 't, 'r, 'm, 'x) env \<Rightarrow> ((u16 \<times> nat) list \<Rightarrow> (u16 \<times> nat) list) \<Rightarrow> 'r route
    \<Rightarrow> 'h request \<Rightarrow> nat \<Rightarrow> (nat \<Rightarrow> hedge_event list) \<Rightarrow> ('r, 'm, 'x) world
    \<Rightarrow> (('h, 'h pump_job) reply \<times> ('r, 'm, 'x) world) option" where
  "run E hash_iter route req max_hard_attempts sched w =
     (let pairs = header_pairs (ev_headers E) (rq_headers req);
          (pr, w1) = prepare E route req pairs w
      in run_rounds E hash_iter route req pairs pr max_hard_attempts sched 0 (pp_forced pr) {} [] w1)"

subsection \<open>Sequential dispatch, facts\<close>

text \<open>
  A run of attempts: the \<open>k\<close>-th is \<open>run_attempt\<close> on the \<open>k\<close>-th candidate, after the backoff
  unless it is the first of all; \<open>ws\<close> are the worlds between them, \<open>outs\<close> the results.
\<close>

definition attempts_from :: "('h, 'u, 't, 'r, 'm, 'x) env \<Rightarrow> 'r route \<Rightarrow> 'h request \<Rightarrow> (string \<times> string) list \<Rightarrow> 'h
    \<Rightarrow> u32 \<Rightarrow> candidate list \<Rightarrow> 'h attempt list \<Rightarrow> ('r, 'm, 'x) world list \<Rightarrow> bool" where
  "attempts_from E route req pairs base attempt plan outs ws =
     (length outs \<le> length plan \<and> length ws = Suc (length outs)
      \<and> (\<forall>k<length outs. run_attempt E route (plan ! k) req pairs base (attempt + of_nat k + 1)
            (if 0 < rd_attempt_backoff_ms route \<and> 1 < attempt + of_nat k + 1
             then ev_sleep E (rd_attempt_backoff_ms route) (ws ! k) else ws ! k) = (outs ! k, ws ! Suc k)))"

text \<open>The failed response that an attempt hands back, if any.\<close>

definition kept_failure :: "'h attempt \<Rightarrow> failed_response list" where
  "kept_failure out = (case out of Inl failed \<Rightarrow> push_failed failed [] | Inr ok \<Rightarrow> [])"

lemma push_failed_append: "push_failed failed failures = failures @ push_failed failed []"
  by (simp add: push_failed_def split: option.split)

lemma attempts_from_Cons:
  assumes "run_attempt E route c req pairs base (attempt + 1)
      (if 0 < rd_attempt_backoff_ms route \<and> 1 < attempt + 1 then ev_sleep E (rd_attempt_backoff_ms route) w else w) = (out, w1)"
    and "attempts_from E route req pairs base (attempt + 1) plan outs ws" and "ws ! 0 = w1"
  shows "attempts_from E route req pairs base attempt (c # plan) (out # outs) (w # ws)"
  unfolding attempts_from_def
proof (intro conjI allI impI)
  fix k assume "k < length (out # outs)"
  then show "run_attempt E route ((c # plan) ! k) req pairs base (attempt + of_nat k + 1)
      (if 0 < rd_attempt_backoff_ms route \<and> 1 < attempt + of_nat k + 1
       then ev_sleep E (rd_attempt_backoff_ms route) ((w # ws) ! k) else (w # ws) ! k)
     = ((out # outs) ! k, (w # ws) ! Suc k)"
  proof (cases k)
    case 0
    moreover have "attempt + of_nat k + 1 = attempt + 1" by (simp add: 0)
    ultimately show ?thesis using assms(1,3) by (simp only: 0 nth_Cons_0 nth_Cons_Suc)
  next
    case (Suc j)
    with \<open>k < length (out # outs)\<close> assms(2) have "run_attempt E route (plan ! j) req pairs base (attempt + 1 + of_nat j + 1)
      (if 0 < rd_attempt_backoff_ms route \<and> 1 < attempt + 1 + of_nat j + 1
       then ev_sleep E (rd_attempt_backoff_ms route) (ws ! j) else ws ! j) = (outs ! j, ws ! Suc j)"
      unfolding attempts_from_def by simp
    moreover have "attempt + of_nat k + 1 = attempt + 1 + of_nat j + 1" by (simp add: Suc)
    ultimately show ?thesis by (simp only: Suc nth_Cons_Suc)
  qed
qed (use assms(2) in \<open>simp_all add: attempts_from_def\<close>)

lemma sequential_loop_spec:
  assumes "sequential_loop E route req pairs base url plan attempt tried failures w = (res, tried', failures', w')"
  shows "\<exists>outs ws. attempts_from E route req pairs base attempt plan outs ws \<and> ws ! 0 = w \<and> ws ! length outs = w'
    \<and> (\<forall>k. Suc k < length outs \<longrightarrow> isl (outs ! k))
    \<and> tried' = tried \<union> (\<lambda>c. url (cd_entry c)) ` set (take (length outs) plan)
    \<and> failures' = failures @ concat (map kept_failure outs)
    \<and> (case res of None \<Rightarrow> length outs = length plan \<and> (\<forall>out\<in>set outs. isl out)
         | Some r \<Rightarrow> \<exists>ok. outs \<noteq> [] \<and> last outs = Inr ok \<and> r = finalize_ok E ok req base tried')"
  using assms
proof (induction plan arbitrary: attempt tried failures w)
  case Nil
  then show ?case by (intro exI [of _ "[]"] exI [of _ "[w]"]) (auto simp: attempts_from_def)
next
  case (Cons c plan)
  define tried1 where "tried1 = insert (url (cd_entry c)) tried"
  obtain r1 w2 where step: "run_attempt E route c req pairs base (attempt + 1)
      (if 0 < rd_attempt_backoff_ms route \<and> 1 < attempt + 1
       then ev_sleep E (rd_attempt_backoff_ms route) w else w) = (r1, w2)" by force
  show ?case
  proof (cases r1)
    case (Inr ok)
    have nil: "attempts_from E route req pairs base (attempt + 1) plan [] [w2]" by (simp add: attempts_from_def)
    have "attempts_from E route req pairs base attempt (c # plan) [r1] [w, w2]"
      using attempts_from_Cons [OF step nil] by simp
    with Cons.prems step Inr show ?thesis
      by (intro exI [of _ "[r1]"] exI [of _ "[w, w2]"]) (auto simp: Let_def kept_failure_def)
  next
    case (Inl failed)
    with Cons.prems step have "sequential_loop E route req pairs base url plan (attempt + 1) tried1
        (push_failed failed failures) w2 = (res, tried', failures', w')"
      by (simp add: Let_def tried1_def)
    from Cons.IH [OF this] obtain outs ws where
      run: "attempts_from E route req pairs base (attempt + 1) plan outs ws" and w2: "ws ! 0 = w2"
      and w': "ws ! length outs = w'" and l: "\<forall>k. Suc k < length outs \<longrightarrow> isl (outs ! k)"
      and t: "tried' = tried1 \<union> (\<lambda>c. url (cd_entry c)) ` set (take (length outs) plan)"
      and f: "failures' = push_failed failed failures @ concat (map kept_failure outs)"
      and r: "case res of None \<Rightarrow> length outs = length plan \<and> (\<forall>out\<in>set outs. isl out)
         | Some r \<Rightarrow> \<exists>ok. outs \<noteq> [] \<and> last outs = Inr ok \<and> r = finalize_ok E ok req base tried'"
      by blast
    have "attempts_from E route req pairs base attempt (c # plan) (r1 # outs) (w # ws)"
      using attempts_from_Cons [OF step run w2] .
    moreover have "\<forall>k. Suc k < length (r1 # outs) \<longrightarrow> isl ((r1 # outs) ! k)"
      using l Inl by (auto simp: nth_Cons split: nat.split)
    moreover have "failures' = failures @ concat (map kept_failure (r1 # outs))"
      using f Inl push_failed_append [of failed failures] by (simp add: kept_failure_def)
    moreover have "case res of None \<Rightarrow> length (r1 # outs) = length (c # plan) \<and> (\<forall>out\<in>set (r1 # outs). isl out)
         | Some r \<Rightarrow> \<exists>ok. r1 # outs \<noteq> [] \<and> last (r1 # outs) = Inr ok \<and> r = finalize_ok E ok req base tried'"
      using r Inl by (cases res) auto
    moreover have "tried' = tried \<union> (\<lambda>c. url (cd_entry c)) ` set (take (length (r1 # outs)) (c # plan))"
      using t by (simp add: tried1_def)
    ultimately show ?thesis using w'
      by (intro exI [of _ "r1 # outs"] exI [of _ "w # ws"]) simp
  qed
qed

subsection \<open>Hedged dispatch, facts\<close>

lemma launch_from_spec:
  assumes "launch_from url rest tried = (c, rest', tried')"
  shows "(\<forall>f\<in>set rest. f \<in> set rest' \<or> url (cd_entry (snd f)) \<in> tried') \<and> set rest' \<subseteq> set rest
    \<and> (case c of
        None \<Rightarrow> rest' = [] \<and> tried' = tried
      | Some f \<Rightarrow> f \<in> set rest \<and> length rest' < length rest \<and> url (cd_entry (snd f)) \<notin> tried
                \<and> tried' = insert (url (cd_entry (snd f))) tried)"
  using assms
proof (induction url rest tried rule: launch_from.induct)
  case (2 url d rest tried)
  show ?case
  proof (cases "url (cd_entry (snd d)) \<in> tried")
    case True
    with "2.prems" have eq: "launch_from url rest tried = (c, rest', tried')" by simp
    note ih = "2.IH" [OF True eq]
    show ?thesis
    proof (cases c)
      case None
      with ih True show ?thesis by auto
    next
      case (Some f)
      with ih True show ?thesis by auto
    qed
  next
    case False
    with "2.prems" show ?thesis by auto
  qed
qed simp

text \<open>The number of attempts not yet finished.\<close>

definition hedge_left :: "hedge_state \<Rightarrow> nat" where
  "hedge_left st = length (hs_rest st) + length (hs_futs st)"

lemma hedge_left_launch: "hedge_left (launch url st) \<le> hedge_left st"
proof -
  obtain c rest tried where l: "launch_from url (hs_rest st) (hs_tried st) = (c, rest, tried)"
    by (metis prod_cases3)
  from launch_from_spec [OF l] show ?thesis
    by (cases c) (auto simp: hedge_left_def launch_def l Let_def)
qed

lemma length_remove_nth [simp]: "i < length xs \<Longrightarrow> length (remove_nth i xs) = length xs - 1"
  by (simp add: remove_nth_def)

lemma mset_remove_nth: "i < length xs \<Longrightarrow> mset xs = add_mset (xs ! i) (mset (remove_nth i xs))"
  unfolding remove_nth_def by (metis id_take_nth_drop mset.simps(2) mset_append union_mset_add_mset_right)

definition is_done :: "hedge_event \<Rightarrow> bool" where
  "is_done ev = (case ev of EvDone _ \<Rightarrow> True | EvTimer \<Rightarrow> False)"

lemma hedge_loop_idle:
  "hs_futs st = [] \<Longrightarrow> hedge_loop E route req pairs base url sched st w = Some (None, st, w)"
  by (subst hedge_loop.simps) simp

lemma hedge_loop_Nil:
  "hs_futs st \<noteq> [] \<Longrightarrow> hedge_loop E route req pairs base url [] st w = None"
  by (subst hedge_loop.simps) simp

lemma hedge_loop_Cons:
  "hs_futs st \<noteq> [] \<Longrightarrow> hedge_loop E route req pairs base url (ev # sched) st w =
     (case hedge_turn E route req pairs base url ev st w of
        Inl ended \<Rightarrow> Some ended
      | Inr (st1, w1) \<Rightarrow> hedge_loop E route req pairs base url sched st1 w1)"
  by (subst hedge_loop.simps) simp

lemma hedge_turn_Timer [simp]:
  "hedge_turn E route req pairs base url EvTimer st w =
     Inr (if length (hs_futs st) < max_par route then launch url st else st, ev_read E w)"
  by (simp add: hedge_turn_def Let_def)

text \<open>The state after the failure of the \<open>i\<close>-th attempt in flight.\<close>

definition after_failure :: "(addr \<Rightarrow> string) \<Rightarrow> nat \<Rightarrow> failed_response option \<Rightarrow> hedge_state \<Rightarrow> hedge_state" where
  "after_failure url i failed st =
     launch url (st\<lparr>hs_futs := remove_nth i (hs_futs st), hs_failures := push_failed failed (hs_failures st)\<rparr>)"

lemma hedge_turn_Done:
  assumes "hs_futs st ! (k mod length (hs_futs st)) = (idx, cand)"
    and "run_attempt E route cand req pairs base (of_nat (idx + 1)) (ev_read E w) = (res, w1)"
  shows "hedge_turn E route req pairs base url (EvDone k) st w =
     (case res of
        Inr ok \<Rightarrow> Inl (Some (finalize_ok E ok req base (hs_tried st)),
          st\<lparr>hs_futs := remove_nth (k mod length (hs_futs st)) (hs_futs st)\<rparr>, w1)
      | Inl failed \<Rightarrow> Inr (after_failure url (k mod length (hs_futs st)) failed st, w1))"
  using assms by (simp add: hedge_turn_def Let_def after_failure_def split: sum.split)

lemma is_done_simps [simp]: "is_done (EvDone k)" "\<not> is_done EvTimer"
  by (simp_all add: is_done_def)

text \<open>As many completions as there are attempts left bring a hedged dispatch to its end.\<close>

lemma hedge_left_after_failure:
  assumes "i < length (hs_futs st)"
  shows "hedge_left (after_failure url i failed st) < hedge_left st"
proof -
  have "hedge_left (after_failure url i failed st) \<le>
      hedge_left (st\<lparr>hs_futs := remove_nth i (hs_futs st), hs_failures := push_failed failed (hs_failures st)\<rparr>)"
    unfolding after_failure_def by (rule hedge_left_launch)
  also have "\<dots> < hedge_left st" using assms by (simp add: hedge_left_def)
  finally show ?thesis .
qed

lemma hedge_left_turn:
  assumes "hedge_turn E route req pairs base url ev st w = Inr (st1, w1)" and "hs_futs st \<noteq> []"
  shows "hedge_left st1 + (if is_done ev then 1 else 0) \<le> hedge_left st"
proof (cases ev)
  case EvTimer
  with assms(1) show ?thesis by (auto simp: hedge_left_launch split: if_splits)
next
  case (EvDone k)
  let ?i = "k mod length (hs_futs st)"
  obtain idx cand where c: "hs_futs st ! ?i = (idx, cand)" by force
  obtain res w2 where r: "run_attempt E route cand req pairs base (of_nat (idx + 1)) (ev_read E w) = (res, w2)" by force
  from assms(1) obtain failed where "st1 = after_failure url ?i failed st"
    by (auto simp: EvDone hedge_turn_Done [OF c r] split: sum.splits)
  moreover have "?i < length (hs_futs st)" using assms(2) by simp
  ultimately show ?thesis using hedge_left_after_failure [of ?i st url failed] EvDone by simp
qed

lemma hedge_finishes:
  "hedge_left st \<le> length (filter is_done sched) \<Longrightarrow>
   hedge_loop E route req pairs base url sched st w \<noteq> None"
proof (induction sched arbitrary: st w)
  case Nil
  then show ?case by (simp add: hedge_loop_idle hedge_left_def)
next
  case (Cons ev sched)
  show ?case
  proof (cases "hs_futs st = []")
    case True
    then show ?thesis by (simp add: hedge_loop_idle)
  next
    case futs: False
    show ?thesis
    proof (cases "hedge_turn E route req pairs base url ev st w")
      case (Inl ended)
      with futs show ?thesis by (simp add: hedge_loop_Cons)
    next
      case (Inr go)
      obtain st1 w1 where go: "go = (st1, w1)" by force
      note hedge_left_turn [OF Inr [unfolded go] futs]
      with Cons.prems have "hedge_left st1 \<le> length (filter is_done sched)" by (simp split: if_splits)
      from Cons.IH [OF this] Inr go futs show ?thesis by (simp add: hedge_loop_Cons)
    qed
  qed
qed

lemma hedge_left_start: "hedge_left (hedge_start url plan tried failures) \<le> length plan"
  using hedge_left_launch [of url "\<lparr>hs_rest = enumerate 0 plan, hs_futs = [], hs_begun = [], hs_tried = tried, hs_failures = failures\<rparr>"]
  by (simp add: hedge_start_def hedge_left_def)

subsection \<open>The states of a hedged dispatch\<close>

abbreviation fut_url :: "(addr \<Rightarrow> string) \<Rightarrow> nat \<times> candidate \<Rightarrow> string" where
  "fut_url url f \<equiv> url (cd_entry (snd f))"

definition launched :: "(addr \<Rightarrow> string) \<Rightarrow> hedge_state \<Rightarrow> (nat \<times> candidate) list" where
  "launched url st = (case fst (launch_from url (hs_rest st) (hs_tried st)) of Some f \<Rightarrow> [f] | None \<Rightarrow> [])"

text \<open>The states that \<open>hedge_loop\<close> goes through, the one it ends with last.\<close>

fun hedge_trace :: "('h, 'u, 't, 'r, 'm, 'x) env \<Rightarrow> 'r route \<Rightarrow> 'h request \<Rightarrow> (string \<times> string) list \<Rightarrow> 'h
    \<Rightarrow> (addr \<Rightarrow> string) \<Rightarrow> hedge_event list \<Rightarrow> hedge_state \<Rightarrow> ('r, 'm, 'x) world \<Rightarrow> hedge_state list" where
  "hedge_trace E route req pairs base url [] st w = [st]"
| "hedge_trace E route req pairs base url (ev # sched) st w =
     st # (if hs_futs st = [] then []
           else case hedge_turn E route req pairs base url ev st w of
                  Inl (res, st1, w1) \<Rightarrow> [st1]
                | Inr (st1, w1) \<Rightarrow> hedge_trace E route req pairs base url sched st1 w1)"

definition hedge_ok :: "(addr \<Rightarrow> string) \<Rightarrow> candidate list \<Rightarrow> string set \<Rightarrow> nat \<Rightarrow> hedge_state \<Rightarrow> bool" where
  "hedge_ok url plan tried0 n st =
     (mset (hs_futs st) \<subseteq># mset (hs_begun st)
      \<and> distinct (map (fut_url url) (hs_begun st))
      \<and> hs_tried st = tried0 \<union> fut_url url ` set (hs_begun st)
      \<and> fut_url url ` set (hs_begun st) \<inter> tried0 = {}
      \<and> set (hs_begun st) \<union> set (hs_rest st) \<subseteq> set (enumerate 0 plan)
      \<and> (\<forall>f\<in>set (enumerate 0 plan). f \<in> set (hs_rest st) \<or> fut_url url f \<in> hs_tried st)
      \<and> length (hs_futs st) \<le> n)"

definition hedge_inv :: "(addr \<Rightarrow> string) \<Rightarrow> candidate list \<Rightarrow> string set \<Rightarrow> nat \<Rightarrow> hedge_state \<Rightarrow> bool" where
  "hedge_inv url plan tried0 n st = (hedge_ok url plan tried0 n st \<and> (hs_futs st = [] \<longrightarrow> hs_rest st = []))"

lemma launch_fields:
  "hs_futs (launch url st) = hs_futs st @ launched url st"
  "hs_failures (launch url st) = hs_failures st"
  by (simp_all add: launch_def launched_def prod.case_eq_if Let_def)

lemma launch_inv:
  assumes ok: "hedge_ok url plan tried0 n st" and room: "length (hs_futs st) < n"
  shows "hedge_inv url plan tried0 n (launch url st)"
proof -
  obtain c rest tried where l: "launch_from url (hs_rest st) (hs_tried st) = (c, rest, tried)"
    by (metis prod_cases3)
  note spec = launch_from_spec [OF l]
  note O = ok [unfolded hedge_ok_def]
  show ?thesis
  proof (cases c)
    case None
    with l spec have st: "launch url st = st\<lparr>hs_rest := []\<rparr>"
      by (simp add: launch_def)
    have all: "\<forall>f\<in>set (enumerate 0 plan). fut_url url f \<in> hs_tried st"
    proof -
      from spec None have "rest = []" and "tried = hs_tried st" by simp_all
      with spec have "\<forall>f\<in>set (hs_rest st). fut_url url f \<in> hs_tried st" by auto
      with O show ?thesis by blast
    qed
    show ?thesis unfolding hedge_inv_def hedge_ok_def st using O all by simp
  next
    case (Some f)
    with l have st: "launch url st = st\<lparr>hs_rest := rest, hs_tried := tried, hs_futs := hs_futs st @ [f],
        hs_begun := hs_begun st @ [f]\<rparr>"
      by (simp add: launch_def Let_def)
    have f: "f \<in> set (hs_rest st)" "fut_url url f \<notin> hs_tried st" "tried = insert (fut_url url f) (hs_tried st)"
        "set rest \<subseteq> set (hs_rest st)" and keep: "\<forall>g\<in>set (hs_rest st). g \<in> set rest \<or> fut_url url g \<in> tried"
      using spec Some by auto
    let ?begun = "hs_begun st @ [f]"
    have "distinct (map (fut_url url) ?begun)" using O f by auto
    moreover have "\<forall>g\<in>set (enumerate 0 plan). g \<in> set rest \<or> fut_url url g \<in> tried"
      using O f keep by blast
    moreover have "tried = tried0 \<union> fut_url url ` set ?begun" using O f by auto
    moreover have "fut_url url ` set ?begun \<inter> tried0 = {}" using O f by auto
    moreover have "set ?begun \<union> set rest \<subseteq> set (enumerate 0 plan)" using O f by auto
    ultimately show ?thesis using O room unfolding hedge_inv_def hedge_ok_def st by simp
  qed
qed

lemma remove_fut_ok:
  assumes ok: "hedge_ok url plan tried0 n st" and i: "i < length (hs_futs st)"
  shows "hedge_ok url plan tried0 n (st\<lparr>hs_futs := remove_nth i (hs_futs st)\<rparr>)"
proof -
  note O = ok [unfolded hedge_ok_def]
  have "mset (remove_nth i (hs_futs st)) \<subseteq># mset (hs_futs st)"
    using mset_remove_nth [OF i] by simp
  with O have "mset (remove_nth i (hs_futs st)) \<subseteq># mset (hs_begun st)"
    by (blast intro: subset_mset.order_trans)
  moreover have "length (remove_nth i (hs_futs st)) \<le> n" using O i by auto
  ultimately show ?thesis using O unfolding hedge_ok_def by - (elim conjE, intro conjI, simp_all)
qed

lemma hedge_ok_failures [simp]: "hedge_ok url plan tried0 n (st\<lparr>hs_failures := fs\<rparr>) = hedge_ok url plan tried0 n st"
  by (simp add: hedge_ok_def)

lemma after_failure_inv:
  assumes "hedge_ok url plan tried0 n st" and "i < length (hs_futs st)"
  shows "hedge_inv url plan tried0 n (after_failure url i failed st)"
proof -
  let ?st1 = "st\<lparr>hs_futs := remove_nth i (hs_futs st)\<rparr>"
  have "length (hs_futs st) \<le> n" using assms(1) by (simp add: hedge_ok_def)
  then have "length (hs_futs ?st1) < n" using assms(2) by simp
  moreover have "hedge_ok url plan tried0 n (?st1\<lparr>hs_failures := push_failed failed (hs_failures st)\<rparr>)"
    using remove_fut_ok [OF assms] by simp
  ultimately show ?thesis unfolding after_failure_def by (intro launch_inv) simp_all
qed

lemma max_par_pos: "0 < max_par route"
proof -
  have "(1 :: u64) \<le> max (hg_max_parallel (rd_hedge route)) 1" by simp
  then show ?thesis by (simp add: max_par_def word_le_nat_alt)
qed

lemma hedge_start_inv:
  "hedge_inv url plan tried (max_par route) (hedge_start url plan tried failures)"
  unfolding hedge_start_def by (rule launch_inv) (simp_all add: hedge_ok_def max_par_pos)

lemma hedge_turn_inv:
  assumes "hedge_turn E route req pairs base url ev st w = Inr (st1, w1)" and "hs_futs st \<noteq> []"
    and inv: "hedge_inv url plan tried (max_par route) st"
  shows "hedge_inv url plan tried (max_par route) st1"
proof (cases ev)
  case EvTimer
  then have "st1 = (if length (hs_futs st) < max_par route then launch url st else st)" using assms(1) by simp
  then show ?thesis using inv launch_inv by (auto simp: hedge_inv_def)
next
  case (EvDone k)
  let ?i = "k mod length (hs_futs st)"
  obtain idx cand where c: "hs_futs st ! ?i = (idx, cand)" by force
  obtain res w2 where r: "run_attempt E route cand req pairs base (of_nat (idx + 1)) (ev_read E w) = (res, w2)" by force
  from assms(1) obtain failed where "st1 = after_failure url ?i failed st"
    by (auto simp: EvDone hedge_turn_Done [OF c r] split: sum.splits)
  moreover have "?i < length (hs_futs st)" using assms(2) by simp
  moreover have "hedge_ok url plan tried (max_par route) st" using inv by (simp add: hedge_inv_def)
  ultimately show ?thesis using after_failure_inv by blast
qed

lemma hedge_turn_end:
  assumes "hedge_turn E route req pairs base url ev st w = Inl (res, st1, w1)" and "hs_futs st \<noteq> []"
    and ok: "hedge_ok url plan tried n st"
  shows "hedge_ok url plan tried n st1 \<and> res \<noteq> None"
proof (cases ev)
  case EvTimer
  with assms show ?thesis by simp
next
  case (EvDone k)
  let ?i = "k mod length (hs_futs st)"
  obtain idx cand where c: "hs_futs st ! ?i = (idx, cand)" by force
  obtain r w2 where r: "run_attempt E route cand req pairs base (of_nat (idx + 1)) (ev_read E w) = (r, w2)" by force
  have "st1 = st\<lparr>hs_futs := remove_nth ?i (hs_futs st)\<rparr> \<and> res \<noteq> None"
    using assms(1) by (auto simp: EvDone hedge_turn_Done [OF c r] split: sum.splits)
  moreover have "?i < length (hs_futs st)" using assms(2) by simp
  ultimately show ?thesis using remove_fut_ok [OF ok] by simp
qed

lemma hedge_trace_ok:
  "hedge_inv url plan tried (max_par route) st \<Longrightarrow> st' \<in> set (hedge_trace E route req pairs base url sched st w) \<Longrightarrow>
   hedge_ok url plan tried (max_par route) st'"
proof (induction sched arbitrary: st w)
  case Nil
  then show ?case by (simp add: hedge_inv_def)
next
  case (Cons ev sched)
  have ok: "hedge_ok url plan tried (max_par route) st" using Cons.prems(1) by (simp add: hedge_inv_def)
  show ?case
  proof (cases "hs_futs st = []")
    case True
    with Cons.prems ok show ?thesis by simp
  next
    case futs: False
    show ?thesis
    proof (cases "hedge_turn E route req pairs base url ev st w")
      case (Inl ended)
      obtain res st1 w1 where ended: "ended = (res, st1, w1)" by (metis prod_cases3)
      with Cons.prems(2) futs Inl have "st' = st \<or> st' = st1" by simp
      then show ?thesis using ok hedge_turn_end [OF Inl [unfolded ended] futs ok] by blast
    next
      case (Inr go)
      obtain st1 w1 where go: "go = (st1, w1)" by force
      with Cons.prems(2) futs Inr
      have "st' = st \<or> st' \<in> set (hedge_trace E route req pairs base url sched st1 w1)" by simp
      then show ?thesis
        using ok Cons.IH hedge_turn_inv [OF Inr [unfolded go] futs Cons.prems(1)] by blast
    qed
  qed
qed

lemma hedge_loop_last:
  "hedge_inv url plan tried (max_par route) st \<Longrightarrow>
   hedge_loop E route req pairs base url sched st w = Some (res, st', w') \<Longrightarrow>
   st' = last (hedge_trace E route req pairs base url sched st w)
   \<and> (res = None \<longrightarrow> hs_futs st' = [] \<and> hs_rest st' = [])"
proof (induction sched arbitrary: st w)
  case Nil
  then show ?case by (cases "hs_futs st = []") (simp_all add: hedge_loop_idle hedge_loop_Nil hedge_inv_def)
next
  case (Cons ev sched)
  show ?case
  proof (cases "hs_futs st = []")
    case True
    with Cons.prems show ?thesis by (simp add: hedge_loop_idle hedge_inv_def)
  next
    case futs: False
    have ok: "hedge_ok url plan tried (max_par route) st" using Cons.prems(1) by (simp add: hedge_inv_def)
    show ?thesis
    proof (cases "hedge_turn E route req pairs base url ev st w")
      case (Inl ended)
      with Cons.prems(2) futs have "ended = (res, st', w')" by (simp add: hedge_loop_Cons)
      with Inl have turn: "hedge_turn E route req pairs base url ev st w = Inl (res, st', w')" by simp
      from hedge_turn_end [OF turn futs ok] turn futs show ?thesis by (cases res) simp_all
    next
      case (Inr go)
      obtain st1 w1 where go: "go = (st1, w1)" by force
      have "hedge_trace E route req pairs base url sched st1 w1 \<noteq> []" by (cases sched) simp_all
      moreover have "hedge_loop E route req pairs base url sched st1 w1 = Some (res, st', w')"
        using Cons.prems(2) futs Inr go by (simp add: hedge_loop_Cons)
      note Cons.IH [OF hedge_turn_inv [OF Inr [unfolded go] futs Cons.prems(1)] this]
      moreover have "hedge_trace E route req pairs base url (ev # sched) st w
          = st # hedge_trace E route req pairs base url sched st1 w1" using futs Inr go by simp
      ultimately show ?thesis by (metis last_ConsR)
    qed
  qed
qed

subsection \<open>The rounds of a request, facts\<close>

lemma length_build_plan:
  "length (fst (build_plan rnd hash now r snap pall pany sk cur \<sigma>)) \<le> unat (rd_max_attempts r)"
  by (simp add: build_plan_eq Let_def finish_plan_def)

lemma length_round_plan:
  "length (fst (round_plan E route pr forced w)) \<le> unat (rd_max_attempts route) + 1"
proof -
  obtain plan cur \<sigma> where b: "build_plan (ev_random E) (ev_hash E) (ev_now E 0 w) route (pool_snapshot (wo_pool w))
      (pp_pool_all pr) (pp_pool_any pr) (sticky_key_of (ev_headers E) route (pp_base_headers pr))
      (wo_cursor w) (hp_at (wo_heap w)) = (plan, cur, \<sigma>)"
    by (metis prod_cases3)
  have "length plan \<le> unat (rd_max_attempts route)"
    using length_build_plan [of "ev_random E" "ev_hash E" "ev_now E 0 w" route "pool_snapshot (wo_pool w)"
        "pp_pool_all pr" "pp_pool_any pr" "sticky_key_of (ev_headers E) route (pp_base_headers pr)"
        "wo_cursor w" "hp_at (wo_heap w)"] by (simp add: b)
  then show ?thesis
    by (simp add: round_plan_def b Let_def prod.case_eq_if split: option.split)
qed

lemma run_plan_finishes:
  assumes "length plan \<le> length (filter is_done sched)"
  shows "run_plan E route req pairs base sched plan tried failures w \<noteq> None"
proof -
  let ?url = "\<lambda>a. en_url (entry_at w a)"
  have "hedge_loop E route req pairs base ?url sched (hedge_start ?url plan tried failures) w \<noteq> None"
    using hedge_left_start [of ?url plan tried failures] assms by (intro hedge_finishes) simp
  then show ?thesis
    unfolding run_plan_def dispatch_hedged_def Let_def
    by (auto simp del: not_None_eq split: option.split)
qed

text \<open>The rounds that can still come, the current one included.\<close>

definition rounds_from :: "nat \<Rightarrow> nat \<Rightarrow> nat set" where
  "rounds_from hard_rounds max_hard = {n. hard_rounds \<le> n \<and> (n < max_hard \<or> n = hard_rounds)}"

lemma rounds_from_Suc:
  "\<not> max_hard \<le> k + 1 \<Longrightarrow> rounds_from (k + 1) max_hard \<subseteq> rounds_from k max_hard"
  by (auto simp: rounds_from_def)

lemma rounds_from_self [simp]: "k \<in> rounds_from k max_hard"
  by (simp add: rounds_from_def)

lemma run_rounds_finishes:
  assumes "\<forall>n\<in>rounds_from k max_hard. unat (rd_max_attempts route) + 1 \<le> length (filter is_done (sched n))"
  shows "run_rounds E hi route req pairs pr max_hard sched k forced tried failures w \<noteq> None"
  using assms
proof (induction "max_hard - k" arbitrary: k forced tried failures w rule: less_induct)
  case less
  obtain plan w1 where p: "round_plan E route pr forced w = (plan, w1)" by force
  have "length plan \<le> unat (rd_max_attempts route) + 1"
    using length_round_plan [of E route pr forced w] by (simp add: p)
  also have "\<dots> \<le> length (filter is_done (sched k))" using less.prems by simp
  finally obtain res t f w2 where rp:
      "run_plan E route req pairs (pp_base_headers pr) (sched k) plan tried failures w1 = Some (res, t, f, w2)"
    using run_plan_finishes by (metis option.exhaust prod_cases4)
  have ih: "run_rounds E hi route req pairs pr max_hard sched (k + 1) None t' f' w' \<noteq> None"
    if "\<not> max_hard \<le> k + 1" for t' f' w'
    using that less.prems rounds_from_Suc [OF that] by (intro less.hyps) auto
  show ?case
  proof (cases res)
    case (Some r)
    then show ?thesis by (subst run_rounds.simps) (simp add: p rp)
  next
    case None
    obtain v w3 where v: "exhausted_verdict_of E route (exhausted_ctx route req pairs t) w2 = (v, w3)" by force
    show ?thesis
      using ih None by (subst run_rounds.simps) (auto simp: p rp v Let_def split: exhausted_verdict.split option.splits prod.splits)
  qed
qed

lemma run_rounds_agree:
  assumes "\<forall>n\<in>rounds_from k max_hard. sched n = sched' n"
  shows "run_rounds E hi route req pairs pr max_hard sched k forced tried failures w
    = run_rounds E hi route req pairs pr max_hard sched' k forced tried failures w"
  using assms
proof (induction "max_hard - k" arbitrary: k forced tried failures w rule: less_induct)
  case less
  have ih: "run_rounds E hi route req pairs pr max_hard sched (k + 1) None t' f' w'
      = run_rounds E hi route req pairs pr max_hard sched' (k + 1) None t' f' w'"
    if "\<not> max_hard \<le> k + 1" for t' f' w'
    using that less.prems rounds_from_Suc [OF that] by (intro less.hyps) auto
  have same: "sched k = sched' k" using less.prems by simp
  show ?case
    unfolding run_rounds.simps [of E hi route req pairs pr max_hard sched k]
      run_rounds.simps [of E hi route req pairs pr max_hard sched' k] same
    using ih by (simp cong: exhausted_verdict.case_cong if_cong option.case_cong prod.case_cong)
qed

lemma fatal_loop_status:
  "fatal_loop E route req base tried as failures w = (Some r, failures', w') \<Longrightarrow>
   \<not> fatal_retriable (rp_status r) \<and> rp_status r \<noteq> 403"
proof (induction as arbitrary: failures w)
  case (Cons a as)
  obtain res el w1 where s: "ev_send E (send_to_upstream (ev_libs E) (en_upstream (entry_at w a)) (rq_method req) base
      (rq_body req) None) (rd_timeout_ms route) w = (res, el, w1)" by (metis prod_cases3)
  show ?case
  proof (cases res)
    case (HR_Ok resp)
    with Cons s show ?thesis
      by (cases "fatal_retriable (rsp_status resp) \<or> rsp_status resp = 403";
          cases "is_html_response (ev_headers E) (rsp_headers resp)")
        (auto simp: Let_def build_streaming_response_def)
  qed (use Cons s in \<open>auto simp: Let_def\<close>)
qed simp

text \<open>Two candidates of the concrete pool.\<close>

definition sample_plan :: "candidate list" where
  "sample_plan =
     [\<lparr>cd_entry = 0, cd_tier = Healthy, cd_latency = 0\<rparr>, \<lparr>cd_entry = 2, cd_tier = Healthy, cd_latency = 0\<rparr>]"

abbreviation sample_timeout :: "(plain_header_map, unit, plain_table, unit, unit, unit) env" where
  "sample_timeout \<equiv> sample_env HR_Timeout HA_NoHook"

subsection \<open>Properties\<close>

text \<open>
  C26: Sequential dispatch runs one attempt on each candidate of the plan, from its head and in its order, each in the
  world that the one before left, with the backoff before every attempt but the first. It goes on exactly after a failed
  attempt, whose failed response it keeps, marks the URLs of those candidates and no others as tried, gives up
  only after the whole plan has failed, and otherwise relays the response that the last attempt accepted.
\<close>

theorem sequential_in_order:
  assumes "dispatch_sequential E route req pairs base plan tried failures w = (res, tried', failures', w')"
  shows "\<exists>outs ws. length outs \<le> length plan \<and> length ws = Suc (length outs) \<and> ws ! 0 = w \<and> ws ! length outs = w'
    \<and> (\<forall>k<length outs.
         run_attempt E route (plan ! k) req pairs base (of_nat (Suc k))
           (if 0 < rd_attempt_backoff_ms route \<and> (1 :: u32) < of_nat (Suc k)
            then ev_sleep E (rd_attempt_backoff_ms route) (ws ! k) else ws ! k)
         = (outs ! k, ws ! Suc k))
    \<and> (\<forall>k. Suc k < length outs \<longrightarrow> isl (outs ! k))
    \<and> tried' = tried \<union> (\<lambda>c. en_url (entry_at w (cd_entry c))) ` set (take (length outs) plan)
    \<and> failures' = failures @ concat (map kept_failure outs)
    \<and> (case res of None \<Rightarrow> length outs = length plan \<and> (\<forall>out\<in>set outs. isl out)
         | Some r \<Rightarrow> \<exists>ok. outs \<noteq> [] \<and> last outs = Inr ok \<and> r = finalize_ok E ok req base tried')"
proof -
  have count: "(0 :: u32) + of_nat k + 1 = of_nat (Suc k)" for k by simp
  note sequential_loop_spec [OF assms [unfolded dispatch_sequential_def], unfolded attempts_from_def count]
  then show ?thesis
  proof (elim exE, goal_cases)
    case (1 outs ws)
    then show ?case by (intro exI [of _ outs] exI [of _ ws]) (elim conjE, intro conjI; assumption)
  qed
qed

lemma sequential_in_order_witness:
  "\<exists>outs :: plain_header_map attempt list. length outs \<le> 2
     \<and> fst (snd (snd (dispatch_sequential sample_timeout (sample_route Random) sample_request [] ph_empty
         sample_plan {} [] (sample_world [0, 2])))) = concat (map kept_failure outs)"
proof -
  obtain res t f w' where run: "dispatch_sequential sample_timeout (sample_route Random) sample_request [] ph_empty
      sample_plan {} [] (sample_world [0, 2]) = (res, t, f, w')"
    by (metis prod_cases4)
  from sequential_in_order [OF run] show ?thesis
  proof (elim exE conjE, goal_cases)
    case (1 outs ws)
    have "length outs \<le> 2" using 1(1) by (simp add: sample_plan_def)
    moreover have "f = concat (map kept_failure outs)" using 1 by simp
    ultimately show ?case unfolding run by - (rule exI [of _ outs], simp)
  qed
qed

text \<open>
  C13: Hedging. In every state that the loop of a hedged dispatch goes through, whatever the schedule, at most
  \<open>max_parallel\<close> attempts (at least one) are in flight; over the whole dispatch no URL is attempted twice,
  and none that was tried before it; every attempt belongs to the plan, and the tried set it returns is what it was
  given and the URLs attempted.
\<close>

theorem hedged_in_flight:
  assumes "trace = hedge_trace E route req pairs base url sched (hedge_start url plan tried failures) w"
  shows "(\<forall>st\<in>set trace.
      length (hs_futs st) \<le> max 1 (unat (hg_max_parallel (rd_hedge route)))
      \<and> distinct (map (fut_url url) (hs_begun st)) \<and> fut_url url ` set (hs_begun st) \<inter> tried = {}
      \<and> set (hs_futs st) \<subseteq> set (hs_begun st) \<and> set (hs_begun st) \<subseteq> set (enumerate 0 plan)
      \<and> hs_tried st = tried \<union> fut_url url ` set (hs_begun st))
    \<and> (\<forall>res st' w'. hedge_loop E route req pairs base url sched (hedge_start url plan tried failures) w
        = Some (res, st', w') \<longrightarrow> st' = last trace \<and> (res = None \<longrightarrow> hs_futs st' = []))"
proof -
  note inv = hedge_start_inv [of url plan tried route failures]
  have par: "max_par route \<le> max 1 (unat (hg_max_parallel (rd_hedge route)))"
    by (auto simp: max_par_def max_def word_le_nat_alt)
  have "length (hs_futs st) \<le> max 1 (unat (hg_max_parallel (rd_hedge route)))
      \<and> distinct (map (fut_url url) (hs_begun st)) \<and> fut_url url ` set (hs_begun st) \<inter> tried = {}
      \<and> set (hs_futs st) \<subseteq> set (hs_begun st) \<and> set (hs_begun st) \<subseteq> set (enumerate 0 plan)
      \<and> hs_tried st = tried \<union> fut_url url ` set (hs_begun st)" if "st \<in> set trace" for st
  proof -
    have ok: "hedge_ok url plan tried (max_par route) st"
      using hedge_trace_ok [OF inv that [unfolded assms]] .
    moreover have "set (hs_futs st) \<subseteq> set (hs_begun st)"
      using ok set_mset_mono [of "mset (hs_futs st)" "mset (hs_begun st)"] by (simp add: hedge_ok_def)
    ultimately show ?thesis using par unfolding hedge_ok_def by auto
  qed
  moreover have "st' = last trace \<and> (res = None \<longrightarrow> hs_futs st' = [])"
    if "hedge_loop E route req pairs base url sched (hedge_start url plan tried failures) w = Some (res, st', w')"
    for res st' w'
    using hedge_loop_last [OF inv that] unfolding assms by blast
  ultimately show ?thesis by simp
qed

lemma hedged_in_flight_witness:
  "list_all (\<lambda>st. length (hs_futs st) \<le> 2)
     (hedge_trace sample_timeout (sample_route Hedge) sample_request [] ph_empty show_nat [EvTimer, EvTimer, EvDone 1]
       (hedge_start show_nat sample_plan {} []) (sample_world [0, 2]))"
proof -
  let ?trace = "hedge_trace sample_timeout (sample_route Hedge) sample_request [] ph_empty show_nat [EvTimer, EvTimer, EvDone 1]
      (hedge_start show_nat sample_plan {} []) (sample_world [0, 2])"
  have two: "max 1 (unat (hg_max_parallel (rd_hedge (sample_route Hedge)))) = 2" by (simp add: sample_route_def)
  note conjunct1 [OF hedged_in_flight [of ?trace, OF refl], unfolded two]
  then show ?thesis unfolding list_all_iff by blast
qed

text \<open>
  A hedged dispatch ends. As many completions as the plan is long are enough, however the timer falls in
  between; it gives up only when every URL of the plan has been tried.
\<close>

lemma hedged_ends:
  assumes "length plan \<le> length (filter is_done sched)"
  shows "\<exists>res tried' failures' w'.
    dispatch_hedged E route req pairs base sched plan tried failures w = Some (res, tried', failures', w')
    \<and> (res = None \<longrightarrow> (\<forall>c\<in>set plan. en_url (entry_at w (cd_entry c)) \<in> tried'))"
proof -
  let ?url = "\<lambda>a. en_url (entry_at w a)"
  let ?st0 = "hedge_start ?url plan tried failures"
  note inv = hedge_start_inv [of ?url plan tried route failures]
  have "hedge_left ?st0 \<le> length (filter is_done sched)"
    using hedge_left_start [of ?url plan tried failures] assms by simp
  then obtain res st w' where run: "hedge_loop E route req pairs base ?url sched ?st0 w = Some (res, st, w')"
    using hedge_finishes by (metis option.exhaust prod_cases3)
  have "\<forall>c\<in>set plan. ?url (cd_entry c) \<in> hs_tried st" if none: "res = None"
  proof -
    note last = hedge_loop_last [OF inv run]
    have "hedge_trace E route req pairs base ?url sched ?st0 w \<noteq> []" by (cases sched) simp_all
    then have "st \<in> set (hedge_trace E route req pairs base ?url sched ?st0 w)" using last by simp
    from hedge_trace_ok [OF inv this] last none
    have all: "\<forall>f\<in>set (enumerate 0 plan). fut_url ?url f \<in> hs_tried st" by (auto simp: hedge_ok_def)
    show ?thesis
    proof
      fix c assume "c \<in> set plan"
      then obtain i where "(i, c) \<in> set (enumerate 0 plan)"
        by (metis in_set_conv_nth in_set_enumerate_eq add_0 fst_conv le0 length_enumerate nth_enumerate_eq snd_conv)
      with all show "?url (cd_entry c) \<in> hs_tried st" by fastforce
    qed
  qed
  with run show ?thesis by (auto simp: dispatch_hedged_def Let_def)
qed

lemma hedged_ends_witness:
  "\<exists>res tried' failures' w'.
    dispatch_hedged sample_timeout (sample_route Hedge) sample_request [] ph_empty [EvTimer, EvDone 1, EvTimer, EvDone 0]
      sample_plan {} [] (sample_world [0, 2]) = Some (res, tried', failures', w')
    \<and> (res = None \<longrightarrow> (\<forall>c\<in>set sample_plan. en_url (entry_at (sample_world [0, 2]) (cd_entry c)) \<in> tried'))"
  by (rule hedged_ends) (simp add: sample_plan_def)

text \<open>
  C9: A request is always answered. The dispatcher replies, whatever the upstreams, the scripts and the other
  tasks do, if every round it may enter gets as many completions as a plan can be long; a
  sequential route needs none.
\<close>

theorem run_answers:
  assumes "\<forall>n<max 1 max_hard. unat (rd_max_attempts route) + 1 \<le> length (filter is_done (sched n))"
  shows "\<exists>reply w'. run E hash_iter route req max_hard sched w = Some (reply, w')"
proof -
  have "\<forall>n\<in>rounds_from 0 max_hard. unat (rd_max_attempts route) + 1 \<le> length (filter is_done (sched n))"
    using assms by (auto simp: rounds_from_def)
  from run_rounds_finishes [OF this] show ?thesis
    by (simp add: run_def Let_def prod.case_eq_if)
qed

lemma run_answers_witness:
  "\<exists>reply w'. run sample_timeout (\<lambda>xs. xs) (sample_route Hedge) sample_request 20
     (\<lambda>_. [EvDone 0, EvTimer, EvDone 0, EvDone 0]) (sample_world [0, 2]) = Some (reply, w')"
  by (rule run_answers) (simp add: sample_route_def)

text \<open>
  The number of rounds is bounded: no round past the first \<open>max_hard_attempts\<close> (at least one) is ever
  entered, so what would happen in it does not matter.
\<close>

lemma run_round_bound:
  assumes "\<forall>n<max 1 max_hard. sched n = sched' n"
  shows "run E hash_iter route req max_hard sched w = run E hash_iter route req max_hard sched' w"
proof -
  have "\<forall>n\<in>rounds_from 0 max_hard. sched n = sched' n"
    using assms by (auto simp: rounds_from_def)
  from run_rounds_agree [OF this] show ?thesis by (simp add: run_def Let_def prod.case_eq_if)
qed

lemma run_round_bound_witness:
  "run sample_timeout (\<lambda>xs. xs) (sample_route Hedge) sample_request 3 (\<lambda>_. []) (sample_world [0, 2])
   = run sample_timeout (\<lambda>xs. xs) (sample_route Hedge) sample_request 3 (\<lambda>n. if n < 3 then [] else [EvDone 0]) (sample_world [0, 2])"
  by (rule run_round_bound) simp

text \<open>
  The last resort relays no response that it counts as a failure: never a status of 403, 421, 429 or
  500 to 599.
\<close>

theorem last_resort_status:
  assumes "try_fatal E route req base pool_all pool_any tried failures w = (Some r, failures', w')"
  shows "rp_status r \<notin> {403, 421, 429} \<and> \<not> (500 \<le> rp_status r \<and> rp_status r \<le> 599)"
  using assms fatal_loop_status by (fastforce simp: try_fatal_def Let_def prod.case_eq_if fatal_retriable_def)

lemma last_resort_status_witness:
  "\<exists>r. fst (try_fatal (sample_env (HR_Ok \<lparr>rsp_status = 204, rsp_headers = ph_empty, rsp_body = []\<rparr>) HA_NoHook)
      (sample_route Random) sample_request ph_empty [] [] {} [] (sample_world [1])) = Some r \<and> rp_status r \<noteq> 403"
proof -
  let ?E = "sample_env (HR_Ok \<lparr>rsp_status = 204, rsp_headers = ph_empty, rsp_body = []\<rparr>) HA_NoHook"
  obtain fb \<sigma> where fb: "fallback_pool 5 (sample_route Random) [1] [] [] {} sample_store = (fb, \<sigma>)" by force
  have "fst (fallback_pool 5 (sample_route Random) [1] [] [] {} sample_store) = [1]"
    by (simp add: fallback_pool_eq in_pool_def is_excluded_def tag_match_def tier_at_def entry_tier_def
        out_of_service_def sample_route_def sample_store_def plain_entry_def)
  with fb have "fb = [1]" by simp
  obtain res failures' w' where run: "try_fatal ?E (sample_route Random) sample_request ph_empty [] [] {} []
      (sample_world [1]) = (res, failures', w')" by (metis prod_cases3)
  moreover have "res \<noteq> None"
  proof -
    have "fst (try_fatal ?E (sample_route Random) sample_request ph_empty [] [] {} [] (sample_world [1])) \<noteq> None"
      using fb \<open>fb = [1]\<close>
      by (simp add: try_fatal_def sample_world_def pool_snapshot_def Let_def fatal_retriable_def)
    with run show ?thesis by simp
  qed
  ultimately obtain r where "try_fatal ?E (sample_route Random) sample_request ph_empty [] [] {} []
      (sample_world [1]) = (Some r, failures', w')" by blast
  from this last_resort_status [OF this] show ?thesis by simp
qed

text \<open>
  A forced proxy that the pool knows heads the plan as a healthy candidate, even if it is banned or
  transport-fatal; an unknown one changes nothing.
\<close>

lemma forced_proxy_first:
  "(case Option.bind forced (pool_find (wo_pool w)) of
      Some a \<Rightarrow> \<exists>lat. fst (round_plan E route pr forced w)
        = \<lparr>cd_entry = a, cd_tier = Healthy, cd_latency = lat\<rparr> # fst (round_plan E route pr None w)
    | None \<Rightarrow> round_plan E route pr forced w = round_plan E route pr None w)"
  by (simp add: round_plan_def Let_def prod.case_eq_if set_store_def split: option.split)

end
