(* ===== verification/NetAddr.thy ===== *)
theory NetAddr
  imports RustStr
begin

text \<open>
  What the sources use of \<^verbatim>\<open>std::net\<close>: the IPv4 and IPv6 address types with their octets and
  segments, the classification methods, the parser behind \<^verbatim>\<open>str::parse\<close> and the display of an IPv6
  address. An address is a word, most significant octet first.
\<close>

type_synonym ipv4 = "32 word"
type_synonym ipv6 = "128 word"

datatype ip_addr = V4 ipv4 | V6 ipv6

subsection \<open>Octets and segments\<close>

definition octet :: "nat \<Rightarrow> 'a::len word \<Rightarrow> nat \<Rightarrow> u8" where
  "octet n a i = ucast (drop_bit (8 * (n - 1 - i)) a)"

definition octets4 :: "ipv4 \<Rightarrow> u8 list" where
  "octets4 a = map (octet 4 a) [0..<4]"

definition octets6 :: "ipv6 \<Rightarrow> u8 list" where
  "octets6 a = map (octet 16 a) [0..<16]"

definition segments :: "ipv6 \<Rightarrow> u16 list" where
  "segments a = map (\<lambda>i. ucast (drop_bit (16 * (7 - i)) a)) [0..<8]"

text \<open>Big-endian composition.\<close>

fun of_octets :: "u8 list \<Rightarrow> 'a::len word" where
  "of_octets [] = 0"
| "of_octets (b # bs) = push_bit (8 * length bs) (ucast b) OR of_octets bs"

fun of_segments :: "u16 list \<Rightarrow> ipv6" where
  "of_segments [] = 0"
| "of_segments (g # gs) = push_bit (16 * length gs) (ucast g) OR of_segments gs"

lemma of_segments_zeros [simp]: "of_segments (replicate n 0 @ gs) = of_segments gs"
  by (induction n) simp_all

lemma bit_octet: "bit (octet n a i) k = (k < 8 \<and> bit a (8 * (n - 1 - i) + k))"
  by (auto simp: octet_def bit_simps ac_simps)

lemma bit_of_octets:
  "bit (of_octets bs :: 'a::len word) k
   = (k < LENGTH('a) \<and> k < 8 * length bs \<and> bit (bs ! (length bs - 1 - k div 8)) (k mod 8))"
proof (induction bs arbitrary: k)
  case (Cons b bs)
  have low: "bs ! (length bs - 1 - k div 8) = (b # bs) ! (length bs - k div 8)" if "k < 8 * length bs"
  proof -
    have "k div 8 < length bs" using that by auto
    then have "length bs - k div 8 = Suc (length bs - 1 - k div 8)" by simp
    then show ?thesis by simp
  qed
  have high: "k - 8 * length bs = k mod 8 \<and> k div 8 = length bs" if "8 * length bs \<le> k" "k < 8 * Suc (length bs)"
  proof -
    from that have "k div 8 = length bs" by auto
    then show ?thesis by (metis minus_mult_div_eq_mod)
  qed
  show ?case
  proof (cases "k < 8 * length bs")
    case True
    then show ?thesis using low by (auto simp: Cons.IH bit_simps)
  next
    case False
    show ?thesis
    proof (cases "k < 8 * Suc (length bs)")
      case True
      with False high have "k - 8 * length bs = k mod 8 \<and> k div 8 = length bs" by simp
      with False True show ?thesis by (auto simp: Cons.IH bit_simps)
    next
      case outside: False
      have "\<not> bit b (k - 8 * length bs)" using outside by (auto dest: bit_imp_le_length)
      with False outside show ?thesis by (auto simp: Cons.IH bit_simps)
    qed
  qed
qed simp

lemma length_octets6 [simp]: "length (octets6 a) = 16"
  by (simp add: octets6_def)

lemma nth_octets6: "i < 16 \<Longrightarrow> octets6 a ! i = octet 16 a i"
  by (simp add: octets6_def)

lemma bit_octets6: "i < 16 \<Longrightarrow> bit (octets6 a ! i) k = (k < 8 \<and> bit a (8 * (15 - i) + k))"
  by (simp add: nth_octets6 bit_octet)

text \<open>Two addresses with the same octets are equal.\<close>

lemma of_octets6_eqI:
  assumes "length bs = 16" and "\<And>i k. i < 16 \<Longrightarrow> k < 8 \<Longrightarrow> bit (bs ! i) k = bit a (8 * (15 - i) + k)"
  shows "(of_octets bs :: ipv6) = a"
proof (rule bit_eqI)
  fix k assume "possible_bit TYPE(ipv6) k"
  then have k: "k < 128" by simp
  have "bit (of_octets bs :: ipv6) k = bit (bs ! (15 - k div 8)) (k mod 8)"
    using k assms(1) by (simp add: bit_of_octets)
  also have "\<dots> = bit a (8 * (15 - (15 - k div 8)) + k mod 8)" using k by (intro assms(2)) auto
  also have "8 * (15 - (15 - k div 8)) + k mod 8 = k" using k by simp
  finally show "bit (of_octets bs :: ipv6) k = bit a k" .
qed

lemma of_octets_octets6 [simp]: "of_octets (octets6 a) = a"
  by (rule of_octets6_eqI) (simp_all add: bit_octets6)

lemma octets6_of_octets:
  assumes "length bs = 16"
  shows "octets6 (of_octets bs) = bs"
proof (rule nth_equalityI)
  fix i assume "i < length (octets6 (of_octets bs))"
  then have i: "i < 16" by simp
  show "octets6 (of_octets bs) ! i = bs ! i"
  proof (rule bit_eqI)
    fix k assume "possible_bit TYPE(u8) k"
    then have k: "k < 8" by simp
    have "8 * (15 - i) + k < 128" "(8 * (15 - i) + k) div 8 = 15 - i" "(8 * (15 - i) + k) mod 8 = k"
      using i k by auto
    then show "bit (octets6 (of_octets bs) ! i) k = bit (bs ! i) k"
      using i k assms by (simp add: bit_octets6 bit_of_octets)
  qed
qed (simp add: assms)

subsection \<open>Classification\<close>

definition is_unspecified4 :: "ipv4 \<Rightarrow> bool" where
  "is_unspecified4 a = (a = 0)"

definition is_loopback4 :: "ipv4 \<Rightarrow> bool" where
  "is_loopback4 a = (octets4 a ! 0 = 127)"

definition is_private4 :: "ipv4 \<Rightarrow> bool" where
  "is_private4 a =
     (let o4 = octets4 a in
      o4 ! 0 = 10 \<or> o4 ! 0 = 172 \<and> 16 \<le> o4 ! 1 \<and> o4 ! 1 \<le> 31 \<or> o4 ! 0 = 192 \<and> o4 ! 1 = 168)"

definition is_link_local4 :: "ipv4 \<Rightarrow> bool" where
  "is_link_local4 a = (octets4 a ! 0 = 169 \<and> octets4 a ! 1 = 254)"

definition is_broadcast4 :: "ipv4 \<Rightarrow> bool" where
  "is_broadcast4 a = (octets4 a = [255, 255, 255, 255])"

definition is_multicast4 :: "ipv4 \<Rightarrow> bool" where
  "is_multicast4 a = (224 \<le> octets4 a ! 0 \<and> octets4 a ! 0 \<le> 239)"

definition is_documentation4 :: "ipv4 \<Rightarrow> bool" where
  "is_documentation4 a =
     (let p = take 3 (octets4 a) in p = [192, 0, 2] \<or> p = [198, 51, 100] \<or> p = [203, 0, 113])"

definition is_unspecified6 :: "ipv6 \<Rightarrow> bool" where
  "is_unspecified6 a = (a = 0)"

definition is_loopback6 :: "ipv6 \<Rightarrow> bool" where
  "is_loopback6 a = (a = 1)"

definition is_multicast6 :: "ipv6 \<Rightarrow> bool" where
  "is_multicast6 a = (octets6 a ! 0 = 255)"

text \<open>\<^verbatim>\<open>::ffff:a.b.c.d\<close>\<close>

definition to_ipv4_mapped :: "ipv6 \<Rightarrow> ipv4 option" where
  "to_ipv4_mapped a =
     (if take 6 (segments a) = [0, 0, 0, 0, 0, 0xffff]
      then Some (of_octets (drop 12 (octets6 a))) else None)"

text \<open>Membership in a prefix, given as an address and a length.\<close>

definition in_prefix :: "'a::len word \<Rightarrow> 'a word \<times> nat \<Rightarrow> bool" where
  "in_prefix a p = (drop_bit (LENGTH('a) - snd p) a = drop_bit (LENGTH('a) - snd p) (fst p))"

subsection \<open>Parsing\<close>

text \<open>
  A parser takes the rest of the input and gives a value and what is left; a parser that fails
  leaves the input as it was (\<^verbatim>\<open>read_atomically\<close>).
\<close>

fun read_digits :: "nat \<Rightarrow> nat \<Rightarrow> nat \<Rightarrow> nat \<Rightarrow> string \<Rightarrow> (nat \<times> nat \<times> string) option" where
  "read_digits radix max_digits cnt acc [] = Some (acc, cnt, [])"
| "read_digits radix max_digits cnt acc (c # s) =
     (case digit_val radix c of
        None \<Rightarrow> Some (acc, cnt, c # s)
      | Some d \<Rightarrow>
          if max_digits < cnt + 1 then None
          else read_digits radix max_digits (cnt + 1) (acc * radix + d) s)"

definition read_number :: "nat \<Rightarrow> nat \<Rightarrow> nat \<Rightarrow> bool \<Rightarrow> string \<Rightarrow> (nat \<times> string) option" where
  "read_number radix bits max_digits allow_zero_prefix s =
     (let leading_zero = (s \<noteq> [] \<and> hd s = CHR ''0'') in
      case read_digits radix max_digits 0 0 s of
        None \<Rightarrow> None
      | Some (n, cnt, rest) \<Rightarrow>
          if cnt = 0 then None
          else if \<not> allow_zero_prefix \<and> leading_zero \<and> 1 < cnt then None
          else if n < 2 ^ bits then Some (n, rest) else None)"

definition read_given_char :: "char \<Rightarrow> string \<Rightarrow> string option" where
  "read_given_char c s = (if s \<noteq> [] \<and> hd s = c then Some (tl s) else None)"

definition read_separator :: "char \<Rightarrow> nat \<Rightarrow> (string \<Rightarrow> ('a \<times> string) option) \<Rightarrow> string \<Rightarrow> ('a \<times> string) option" where
  "read_separator sep index inner s =
     (if 0 < index then Option.bind (read_given_char sep s) inner else inner s)"

fun read_octets :: "nat \<Rightarrow> nat \<Rightarrow> string \<Rightarrow> (u8 list \<times> string) option" where
  "read_octets i 0 s = Some ([], s)"
| "read_octets i (Suc n) s =
     (case read_separator (CHR ''.'') i (read_number 10 8 3 False) s of
        None \<Rightarrow> None
      | Some (b, s1) \<Rightarrow>
          (case read_octets (Suc i) n s1 of None \<Rightarrow> None | Some (bs, s2) \<Rightarrow> Some (of_nat b # bs, s2)))"

definition read_ipv4_addr :: "string \<Rightarrow> (ipv4 \<times> string) option" where
  "read_ipv4_addr s = map_option (\<lambda>(bs, r). (of_octets bs, r)) (read_octets 0 4 s)"

text \<open>
  \<^verbatim>\<open>read_groups\<close>: up to \<open>limit\<close> groups from number \<open>i\<close> on; the flag says that they ended in an
  embedded IPv4 address. It never fails and gives what is left.
\<close>

fun read_groups :: "nat \<Rightarrow> nat \<Rightarrow> nat \<Rightarrow> string \<Rightarrow> u16 list \<times> bool \<times> string" where
  "read_groups limit i 0 s = ([], False, s)"
| "read_groups limit i (Suc n) s =
     (case (if i + 1 < limit then read_separator (CHR '':'') i read_ipv4_addr s else None) of
        Some (v4, s1) \<Rightarrow> ([ucast (drop_bit 16 v4), ucast v4], True, s1)
      | None \<Rightarrow>
          (case read_separator (CHR '':'') i (read_number 16 16 4 True) s of
             Some (g, s1) \<Rightarrow> (let (gs, v4, s2) = read_groups limit (Suc i) n s1 in (of_nat g # gs, v4, s2))
           | None \<Rightarrow> ([], False, s)))"

definition read_ipv6_addr :: "string \<Rightarrow> (ipv6 \<times> string) option" where
  "read_ipv6_addr s =
     (let (head, head_ipv4, s1) = read_groups 8 0 8 s in
      if length head = 8 then Some (of_segments head, s1)
      else if head_ipv4 then None
      else (case Option.bind (read_given_char (CHR '':'') s1) (read_given_char (CHR '':'')) of
          None \<Rightarrow> None
        | Some s2 \<Rightarrow>
            (let limit = 8 - (length head + 1);
                 (back, _, s3) = read_groups limit 0 limit s2
             in Some (of_segments (head @ replicate (8 - length head - length back) 0 @ back), s3))))"

definition parse_with :: "(string \<Rightarrow> ('a \<times> string) option) \<Rightarrow> string \<Rightarrow> 'a option" where
  "parse_with inner s = (case inner s of Some (v, []) \<Rightarrow> Some v | _ \<Rightarrow> None)"

definition parse_ipv6 :: "string \<Rightarrow> ipv6 option" where
  "parse_ipv6 = parse_with read_ipv6_addr"

definition read_ip_addr :: "string \<Rightarrow> (ip_addr \<times> string) option" where
  "read_ip_addr s =
     (case read_ipv4_addr s of
        Some (a, r) \<Rightarrow> Some (V4 a, r)
      | None \<Rightarrow> map_option (\<lambda>(a, r). (V6 a, r)) (read_ipv6_addr s))"

definition parse_ip :: "string \<Rightarrow> ip_addr option" where
  "parse_ip = parse_with read_ip_addr"

text \<open>To run the parsers on literals.\<close>

lemmas parse_addr_simps =
  parse_ipv6_def parse_ip_def parse_with_def read_ipv6_addr_def read_ip_addr_def read_given_char_def read_separator_def
  read_ipv4_addr_def read_number_def digit_val_def Let_def
  read_groups.simps(2) [where n = 7, simplified] read_groups.simps(2) [where n = 6, simplified]
  read_groups.simps(2) [where n = 5, simplified] read_groups.simps(2) [where n = 4, simplified]
  read_groups.simps(2) [where n = 3, simplified] read_groups.simps(2) [where n = 2, simplified]
  read_groups.simps(2) [where n = 1, simplified]
  read_octets.simps(2) [where n = 3, simplified] read_octets.simps(2) [where n = 2, simplified]
  read_octets.simps(2) [where n = 1, simplified]

subsection \<open>Display\<close>

definition hex_digit :: "nat \<Rightarrow> char" where
  "hex_digit n = (if n < 10 then byte_char (48 + n) else byte_char (87 + n))"

fun show_hex :: "nat \<Rightarrow> string" where
  "show_hex n = (if n < 16 then [hex_digit n] else show_hex (n div 16) @ [hex_digit (n mod 16)])"

declare show_hex.simps [simp del]

text \<open>The first longest run of zero segments, as start and length.\<close>

fun zero_runs :: "nat \<Rightarrow> nat \<times> nat \<Rightarrow> nat \<times> nat \<Rightarrow> u16 list \<Rightarrow> nat \<times> nat" where
  "zero_runs i longest current [] = longest"
| "zero_runs i longest current (g # gs) =
     (if g = 0
      then (let start = (if snd current = 0 then i else fst current);
                cur = (start, snd current + 1);
                best = (if snd longest < snd cur then cur else longest)
            in zero_runs (Suc i) best cur gs)
      else zero_runs (Suc i) longest (0, 0) gs)"

fun fmt_subslice :: "u16 list \<Rightarrow> string" where
  "fmt_subslice [] = []"
| "fmt_subslice [g] = show_hex (unat g)"
| "fmt_subslice (g # gs) = show_hex (unat g) @ CHR '':'' # fmt_subslice gs"

definition show_ipv4 :: "ipv4 \<Rightarrow> string" where
  "show_ipv4 a =
     (case octets4 a of
        [b1, b2, b3, b4] \<Rightarrow> show_nat (unat b1) @ ''.'' @ show_nat (unat b2) @ ''.'' @ show_nat (unat b3) @ ''.''
          @ show_nat (unat b4)
      | _ \<Rightarrow> [])"

definition show_ipv6 :: "ipv6 \<Rightarrow> string" where
  "show_ipv6 a =
     (case to_ipv4_mapped a of
        Some v4 \<Rightarrow> ''::ffff:'' @ show_ipv4 v4
      | None \<Rightarrow>
          (let gs = segments a; (start, len) = zero_runs 0 (0, 0) (0, 0) gs in
           if 1 < len then fmt_subslice (take start gs) @ ''::'' @ fmt_subslice (drop (start + len) gs)
           else fmt_subslice gs))"

end
