(* ===== verification/Dns.thy ===== *)
theory Dns
  imports NetAddr "HOL-Library.AList"
begin

text \<open>
  \<^verbatim>\<open>intermediate-proxy/src/dns.rs\<close>: the check that a host exists, with its cache of verdicts. A
  reading of the monotonic clock is a number of milliseconds; the resolver's answer is an
  argument. \<open>dns_missing\<close> is the operation as one task sees it, with \<open>wait\<close> for what the others do to
  the cache while the resolver works.
\<close>

definition FOUND_TTL :: int where "FOUND_TTL = 300000"
definition MISSING_TTL :: int where "MISSING_TTL = 60000"
definition MAX_HOSTS :: nat where "MAX_HOSTS = 10000"

type_synonym dns_cache = "(string \<times> bool \<times> int) list"

datatype lookup = LK_Found | LK_Missing | LK_Failed

definition trim_brackets :: "string \<Rightarrow> string" where
  "trim_brackets s =
     (let b = (\<lambda>c. c = CHR ''['' \<or> c = CHR '']'') in rev (dropWhile b (rev (dropWhile b s))))"

text \<open>Hosts that are never looked up: the empty one and addresses.\<close>

definition needs_no_lookup :: "string \<Rightarrow> bool" where
  "needs_no_lookup host = (host = [] \<or> parse_ip (trim_brackets host) \<noteq> None)"

text \<open>The cached verdict, while it lasts: whether the host was found.\<close>

definition dns_known :: "dns_cache \<Rightarrow> string \<Rightarrow> int \<Rightarrow> bool option" where
  "dns_known known host now =
     (case map_of known host of
        Some (found, until) \<Rightarrow> if now < until then Some found else None
      | None \<Rightarrow> None)"

definition dns_store :: "string \<Rightarrow> bool \<times> int \<Rightarrow> dns_cache \<Rightarrow> dns_cache" where
  "dns_store host v known =
     (let known1 = (if MAX_HOSTS \<le> length known then [] else known) in AList.update host v known1)"

definition dns_ttl :: "bool \<Rightarrow> int" where
  "dns_ttl found = (if found then FOUND_TTL else MISSING_TTL)"

definition dns_missing :: "lookup \<Rightarrow> (dns_cache \<Rightarrow> dns_cache) \<Rightarrow> int \<Rightarrow> string \<Rightarrow> dns_cache \<Rightarrow> bool \<times> dns_cache" where
  "dns_missing answer wait now host known =
     (if needs_no_lookup host then (False, known)
      else (case dns_known known host now of
          Some found \<Rightarrow> (\<not> found, known)
        | None \<Rightarrow>
            (let known1 = wait known in
             case answer of
               LK_Failed \<Rightarrow> (False, known1)
             | LK_Found \<Rightarrow> (False, dns_store host (True, now + dns_ttl True) known1)
             | LK_Missing \<Rightarrow> (True, dns_store host (False, now + dns_ttl False) known1))))"

text \<open>\<^verbatim>\<open>DnsCheck\<close>: the resolver and the cache; without a system resolver there is no check.\<close>

record 'r dns_check =
  dc_resolver :: 'r
  dc_known :: dns_cache

definition from_system :: "string + 'r \<Rightarrow> 'r dns_check option" where
  "from_system resolver =
     (case resolver of Inr r \<Rightarrow> Some \<lparr>dc_resolver = r, dc_known = []\<rparr> | Inl e \<Rightarrow> None)"

subsection \<open>Caches that may forget\<close>

text \<open>
  The contract of a cache whose entries expire: a stored value is read back until its time, storing may forget other keys
  but changes none.
\<close>

locale forgetful_cache =
  fixes known :: "'c \<Rightarrow> 'k \<Rightarrow> int \<Rightarrow> 'v option" and store :: "'k \<Rightarrow> 'v \<times> int \<Rightarrow> 'c \<Rightarrow> 'c"
  assumes known_store: "known (store k (v, u) c) k t = (if t < u then Some v else None)"
    and known_other: "k' \<noteq> k \<Longrightarrow> known (store k e c) k' t = Some v \<Longrightarrow> known c k' t = Some v"
begin

lemma known_history:
  assumes "known (fold (\<lambda>(k, e). store k e) es c) k t = Some v" and "\<And>k t. known c k t = None"
  shows "\<exists>u. map_of (rev es) k = Some (v, u) \<and> t < u"
  using assms(1)
proof (induction es rule: rev_induct)
  case Nil
  then show ?case using assms(2) by simp
next
  case (snoc x es)
  obtain k1 v1 u1 where x: "x = (k1, v1, u1)" by (metis prod_cases3)
  show ?case
  proof (cases "k1 = k")
    case True
    have "known (store k (v1, u1) (fold (\<lambda>(k, e). store k e) es c)) k t = Some v"
      using snoc.prems x True by simp
    then have "v1 = v \<and> t < u1" unfolding known_store by (simp split: if_splits)
    then show ?thesis using x True by simp
  next
    case False
    have "known (store k1 (v1, u1) (fold (\<lambda>(k, e). store k e) es c)) k t = Some v"
      using snoc.prems x by simp
    then have "known (fold (\<lambda>(k, e). store k e) es c) k t = Some v"
      by (rule known_other [OF False [symmetric]])
    from snoc.IH [OF this] show ?thesis using False x by simp
  qed
qed

end

lemma dns_known_store: "dns_known (dns_store h (v, u) c) h t = (if t < u then Some v else None)"
  by (simp add: dns_known_def dns_store_def Let_def update_conv')

lemma dns_known_other:
  "h' \<noteq> h \<Longrightarrow> dns_known (dns_store h e c) h' t = Some v \<Longrightarrow> dns_known c h' t = Some v"
  by (auto simp: dns_known_def dns_store_def Let_def update_conv' split: if_splits)

interpretation dns: forgetful_cache dns_known dns_store
  by unfold_locales (simp add: dns_known_store, rule dns_known_other)

lemma length_update_le: "length (AList.update k v xs) \<le> Suc (length xs)"
  by (induction xs) auto

lemma length_dns_store: "length c \<le> MAX_HOSTS \<Longrightarrow> length (dns_store h e c) \<le> MAX_HOSTS"
  using length_update_le [of h e c] length_update_le [of h e "[]"]
  by (auto simp: dns_store_def Let_def MAX_HOSTS_def)

subsection \<open>Checks in sequence\<close>

text \<open>
  The checks of many requests, each with its time, the resolver's answer should it be asked, and the host; other checks
  may finish during a wait, which puts them earlier in the sequence.
\<close>

fun dns_checks :: "(int \<times> lookup \<times> string) list \<Rightarrow> dns_cache \<Rightarrow> bool list \<times> dns_cache" where
  "dns_checks [] known = ([], known)"
| "dns_checks ((now, answer, host) # cs) known =
     (let (miss, known1) = dns_missing answer id now host known;
          (ms, known2) = dns_checks cs known1
      in (miss # ms, known2))"

definition stores :: "(string \<times> bool \<times> int) list \<Rightarrow> dns_cache" where
  "stores es = fold (\<lambda>(h, e). dns_store h e) es []"

lemma stores_snoc: "stores (es @ [(h, e)]) = dns_store h e (stores es)"
  by (simp add: stores_def)

lemma dns_checks_Cons:
  "fst (dns_checks ((now, answer, host) # cs) known)
   = fst (dns_missing answer id now host known) # fst (dns_checks cs (snd (dns_missing answer id now host known)))"
  "snd (dns_checks ((now, answer, host) # cs) known) = snd (dns_checks cs (snd (dns_missing answer id now host known)))"
  by (simp_all add: prod.case_eq_if Let_def)

text \<open>What a check adds to the cache, and when it reports a host as missing.\<close>

lemma dns_missing_stores:
  "\<exists>es'. snd (dns_missing answer id now host (stores es)) = stores (es @ es')
     \<and> (\<forall>e\<in>set es'. fst e = host \<and> (\<not> fst (snd e) \<longrightarrow> answer = LK_Missing \<and> snd (snd e) = now + MISSING_TTL))"
proof (cases "needs_no_lookup host \<or> dns_known (stores es) host now \<noteq> None \<or> answer = LK_Failed")
  case True
  then have "snd (dns_missing answer id now host (stores es)) = stores (es @ [])"
    by (auto simp: dns_missing_def split: option.split)
  then show ?thesis by fastforce
next
  case False
  let ?e = "(host, answer = LK_Found, now + dns_ttl (answer = LK_Found))"
  have "snd (dns_missing answer id now host (stores es)) = stores (es @ [?e])"
    using False by (cases answer) (simp_all add: dns_missing_def stores_snoc)
  moreover have "answer = LK_Found \<or> answer = LK_Missing" using False by (cases answer) simp_all
  ultimately show ?thesis by (intro exI [of _ "[?e]"]) (auto simp: dns_ttl_def)
qed

declare dns_checks.simps(2) [simp del]

lemma dns_missing_verdict:
  assumes "fst (dns_missing answer id now host (stores es))"
  shows "answer = LK_Missing \<or> (\<exists>u. (host, False, u) \<in> set es \<and> now < u)"
proof (cases "dns_known (stores es) host now")
  case None
  then show ?thesis using assms by (cases answer) (auto simp: dns_missing_def split: if_splits)
next
  case (Some found)
  then have "\<not> found" using assms by (auto simp: dns_missing_def split: if_splits)
  then have "dns_known (stores es) host now = Some False" using Some by simp
  moreover have "dns_known [] k t = None" for k t by (simp add: dns_known_def)
  ultimately obtain u where "map_of (rev es) host = Some (False, u) \<and> now < u"
    unfolding stores_def using dns.known_history by blast
  then show ?thesis by (auto dest: map_of_SomeD)
qed

lemma dns_checks_sound:
  assumes "i < length cs" and "fst (dns_checks cs (stores es)) ! i" and "cs ! i = (now, answer, host)"
  shows "answer = LK_Missing \<or> (\<exists>u. (host, False, u) \<in> set es \<and> now < u)
    \<or> (\<exists>j<i. \<exists>now'. cs ! j = (now', LK_Missing, host) \<and> now < now' + MISSING_TTL)"
  using assms
proof (induction cs arbitrary: es i)
  case Nil
  then show ?case by simp
next
  case (Cons c cs)
  obtain now1 answer1 host1 where c: "c = (now1, answer1, host1)" by (metis prod_cases3)
  obtain es' where es': "snd (dns_missing answer1 id now1 host1 (stores es)) = stores (es @ es')"
    and new: "\<forall>e\<in>set es'. fst e = host1 \<and> (\<not> fst (snd e) \<longrightarrow> answer1 = LK_Missing \<and> snd (snd e) = now1 + MISSING_TTL)"
    using dns_missing_stores by blast
  show ?case
  proof (cases i)
    case 0
    then show ?thesis
      using Cons.prems c dns_missing_verdict [of answer1 now1 host1 es] by (simp add: dns_checks_Cons)
  next
    case (Suc k)
    have "fst (dns_checks cs (stores (es @ es'))) ! k"
      using Cons.prems(2) c Suc es' by (simp add: dns_checks_Cons)
    moreover have "k < length cs" "cs ! k = (now, answer, host)" using Cons.prems(1,3) Suc by simp_all
    ultimately consider "answer = LK_Missing" | u where "(host, False, u) \<in> set (es @ es')" "now < u"
      | j now' where "j < k" "cs ! j = (now', LK_Missing, host)" "now < now' + MISSING_TTL"
      using Cons.IH by blast
    then show ?thesis
    proof cases
      case 2
      then show ?thesis
      proof (cases "(host, False, u) \<in> set es")
        case True
        then show ?thesis using 2(2) by blast
      next
        case False
        then have "host = host1 \<and> answer1 = LK_Missing \<and> u = now1 + MISSING_TTL" using 2(1) new by fastforce
        then have "(c # cs) ! 0 = (now1, LK_Missing, host)" "now < now1 + MISSING_TTL" using c 2(2) by simp_all
        then show ?thesis using Suc by blast
      qed
    next
      case (3 j now')
      then have "Suc j < i" "(c # cs) ! Suc j = (now', LK_Missing, host)" using Suc by simp_all
      then show ?thesis using 3(3) by blast
    qed simp
  qed
qed

lemma length_dns_missing:
  "length known \<le> MAX_HOSTS \<Longrightarrow> length (snd (dns_missing answer id now host known)) \<le> MAX_HOSTS"
  by (simp add: dns_missing_def length_dns_store split: option.split lookup.split)

lemma length_dns_checks: "length known \<le> MAX_HOSTS \<Longrightarrow> length (snd (dns_checks cs known)) \<le> MAX_HOSTS"
proof (induction cs arbitrary: known)
  case (Cons c cs)
  then show ?case by (cases c) (simp add: dns_checks_Cons length_dns_missing)
qed simp

subsection \<open>Properties\<close>

text \<open>
  C39: A host is turned away only on the resolver's word. In a sequence of checks that starts with an empty
  cache, a host is reported missing only if the resolver says so in this check, or said so in an earlier
  one of the same host less than the time-to-live of such an answer ago; a failing resolver
  turns nobody away. The cache never holds more than \<open>MAX_HOSTS\<close> hosts.
\<close>

theorem dns_missing_justified:
  assumes "dns_checks cs [] = (verdicts, known)"
  shows "(\<forall>i now answer host. i < length cs \<longrightarrow> verdicts ! i \<longrightarrow> cs ! i = (now, answer, host) \<longrightarrow>
      answer = LK_Missing
      \<or> (\<exists>j<i. \<exists>now'. cs ! j = (now', LK_Missing, host) \<and> now < now' + MISSING_TTL))
    \<and> length known \<le> MAX_HOSTS"
  using dns_checks_sound [of _ cs "[]"] length_dns_checks [of "[]" cs] assms by (fastforce simp: stores_def)

lemma dns_missing_justified_witness:
  "fst (dns_checks [(0, LK_Missing, ''a''), (59999, LK_Found, ''a''), (60000, LK_Found, ''a'')] []) = [True, True, False]
   \<and> length (snd (dns_checks [(0, LK_Missing, ''a''), (59999, LK_Found, ''a''), (60000, LK_Found, ''a'')] [])) \<le> MAX_HOSTS"
proof -
  let ?cs = "[(0, LK_Missing, ''a''), (59999, LK_Found, ''a''), (60000, LK_Found, ''a'')]"
  have "\<not> needs_no_lookup ''a''"
    by (simp add: needs_no_lookup_def trim_brackets_def parse_addr_simps)
  then have "fst (dns_checks ?cs []) = [True, True, False]"
    by (simp add: dns_checks_Cons dns_missing_def dns_known_def dns_store_def dns_ttl_def MISSING_TTL_def MAX_HOSTS_def)
  moreover have "length (snd (dns_checks ?cs [])) \<le> MAX_HOSTS"
    using dns_missing_justified [of ?cs "fst (dns_checks ?cs [])" "snd (dns_checks ?cs [])"] by simp
  ultimately show ?thesis by blast
qed

end
