(* ===== verification/Handler.thy ===== *)
theory Handler
  imports Incoming Dispatch Dns
begin

text \<open>
  \<^verbatim>\<open>intermediate-proxy/src/handler.rs\<close>: from the client's request to the dispatcher and back. \<open>app\<close> is the
  application state and what the surroundings decide for one request: the regex engine, the iteration order of
  the failure counts, the completions of hedged attempts, the clock and the resolver of the host check, and
  the round-robin cursor of a route as the other requests left it. \<open>None\<close> is a request whose hedged
  attempts have not completed.
\<close>

definition MAX_BODY_BYTES :: nat where "MAX_BODY_BYTES = 10 * 1024 * 1024"

record ('r, 'm, 'x) app =
  ap_max_hard_attempts :: nat
  ap_dns :: bool
  ap_is_match :: "'r \<Rightarrow> string \<Rightarrow> bool"
  ap_hash_iter :: "(u16 \<times> nat) list \<Rightarrow> (u16 \<times> nat) list"
  ap_sched :: "'r route \<Rightarrow> nat \<Rightarrow> hedge_event list"
  ap_clock :: int
  ap_lookup :: "string \<Rightarrow> lookup"
  ap_wait :: "dns_cache \<Rightarrow> dns_cache"
  ap_cursor :: "'r route \<Rightarrow> ('r, 'm, 'x) world \<Rightarrow> u64"

type_synonym ('h, 'r, 'm, 'x) served = "(('h, 'h pump_job) reply \<times> dns_cache \<times> ('r, 'm, 'x) world) option"

subsection \<open>Redirects back to this server\<close>

definition absolute_location :: "('h, 'u) libs \<Rightarrow> string \<Rightarrow> string \<Rightarrow> string option" where
  "absolute_location L target_url loc =
     (if is_http_url loc then Some loc
      else map_option (uo_string (lb_url L))
        (Option.bind (uo_parse (lb_url L) target_url) (\<lambda>base. uo_join (lb_url L) base loc)))"

definition self_location :: "('h, 'u) libs \<Rightarrow> string \<Rightarrow> string \<Rightarrow> string" where
  "self_location L self_host absolute = ''https://'' @ self_host @ ''/x-target/'' @ lb_b64_encode L absolute"

definition rewrite_location_to_self :: "('h, 'u) libs \<Rightarrow> ('h, 'j) reply \<Rightarrow> string \<Rightarrow> string \<Rightarrow> ('h, 'j) reply" where
  "rewrite_location_to_self L resp target_url self_host =
     (let H = lb_headers L; U = lb_url L in
      if \<not> is_redirection (rp_status resp) then resp
      else (case get_str H (rp_headers resp) ''location'' of
          None \<Rightarrow> resp
        | Some loc \<Rightarrow>
            (case absolute_location L target_url loc of
               None \<Rightarrow> resp
             | Some absolute \<Rightarrow>
                 if Option.bind (uo_parse U absolute) (uo_host U) = Some self_host then resp
                 else (let new_loc = self_location L self_host absolute in
                       if ho_value_str H new_loc
                       then resp\<lparr>rp_headers := ho_insert H ''location'' new_loc (rp_headers resp)\<rparr>
                       else resp))))"

subsection \<open>Serving a request\<close>

definition with_target :: "('h, 'u) libs \<Rightarrow> string \<Rightarrow> 'h \<Rightarrow> 'h" where
  "with_target L target headers =
     (let encoded = lb_b64_encode L target in
      if ho_value_str (lb_headers L) encoded then ho_insert (lb_headers L) ''x-target'' encoded headers else headers)"

definition dns_error :: "'h header_ops \<Rightarrow> string \<Rightarrow> ('h, 'j) reply" where
  "dns_error H host =
     (let resp = text_response H BAD_GATEWAY (''Proxy Error: dns: '' @ host @ '' does not resolve'')
      in resp\<lparr>rp_headers := ho_insert H ''x-proxy-error'' ''dns'' (rp_headers resp)\<rparr>)"

definition probe_ctx :: "string \<Rightarrow> string \<Rightarrow> string \<Rightarrow> string \<Rightarrow> (string \<times> string) list \<Rightarrow> hook_ctx" where
  "probe_ctx target host path meth pairs =
     \<lparr>hc_route_name = [], hc_target_url = target, hc_host = host, hc_path = path, hc_method = meth,
      hc_headers = pairs, hc_attempt = 1, hc_proxy_url = None, hc_proxy_tags = [], hc_elapsed_ms = 0\<rparr>"

text \<open>The part after the body has been read: choose a route, dispatch, rewrite the redirect.\<close>

definition serve_routed :: "('h, 'u, 't, 'r, 'm, 'x) env \<Rightarrow> ('r, 'm, 'x) app \<Rightarrow> 'h request \<Rightarrow> string option
    \<Rightarrow> ('r, 'm, 'x) world \<Rightarrow> (('h, 'h pump_job) reply \<times> ('r, 'm, 'x) world) option" where
  "serve_routed E A req rewrite_to_self w =
     (let H = ev_headers E; cfg = lp_config (wo_lua w);
          ctx = probe_ctx (rq_target_url req) (rq_host req) (rq_path req) (rq_method req)
            (str_header_pairs H (rq_headers req));
          (found, w1) = with_lua (select_route (ap_is_match A) (ev_script E) cfg (rq_host req) (rq_path req)
            (rq_method req) ctx) w
      in case found of
           None \<Rightarrow> Some (text_response H BAD_GATEWAY
               (''Proxy Error: no route matched '' @ rq_host req @ rq_path req), w1)
         | Some route \<Rightarrow>
             map_option (\<lambda>(resp, w2).
                 (case rewrite_to_self of
                    Some self_host \<Rightarrow> rewrite_location_to_self (ev_libs E) resp (rq_target_url req) self_host
                  | None \<Rightarrow> resp, w2))
               (run E (ap_hash_iter A) route req (ap_max_hard_attempts A) (ap_sched A route)
                 (w1\<lparr>wo_cursor := ap_cursor A route w1\<rparr>)))"

definition serve :: "('h, 'u, 't, 'r, 'm, 'x) env \<Rightarrow> ('r, 'm, 'x) app \<Rightarrow> string \<Rightarrow> 'h incoming \<Rightarrow> string option
    \<Rightarrow> dns_cache \<Rightarrow> ('r, 'm, 'x) world \<Rightarrow> ('h, 'r, 'm, 'x) served" where
  "serve E A target req rewrite_to_self known w =
     (let L = ev_libs E; H = lb_headers L; U = lb_url L;
          headers = with_target L target (in_headers req)
      in case uo_parse U target of
           None \<Rightarrow> Some (text_response H BAD_REQUEST ''Invalid target URL'', known, w)
         | Some u \<Rightarrow>
             (let host = unwrap_or (uo_host U u) []; path = uo_path U u;
                  (missing, known1) =
                    (if ap_dns A then dns_missing (ap_lookup A host) (ap_wait A) (ap_clock A) host known
                     else (False, known));
                  w1 = ev_read E w
              in if missing then Some (dns_error H host, known1, w1)
                 else (case to_bytes MAX_BODY_BYTES (in_body req) of
                     None \<Rightarrow> Some (text_response H BAD_REQUEST ''Failed to read request body'', known1, w1)
                   | Some body \<Rightarrow>
                       map_option (\<lambda>(resp, w2). (resp, known1, w2))
                         (serve_routed E A
                           \<lparr>rq_method = in_method req, rq_headers = headers, rq_body = body,
                            rq_target_url = target, rq_host = host, rq_path = path\<rparr>
                           rewrite_to_self w1))))"

definition proxy_handler :: "('h, 'u, 't, 'r, 'm, 'x) env \<Rightarrow> ('r, 'm, 'x) app \<Rightarrow> 'h incoming
    \<Rightarrow> dns_cache \<Rightarrow> ('r, 'm, 'x) world \<Rightarrow> ('h, 'r, 'm, 'x) served" where
  "proxy_handler E A req known w =
     (case Option.bind (get_str (ev_headers E) (in_headers req) ''x-target'') (decode_target (ev_libs E)) of
        None \<Rightarrow> Some (text_response (ev_headers E) BAD_REQUEST ''Missing or invalid X-Target'', known, w)
      | Some target \<Rightarrow> serve E A target req None known w)"

definition trim_slashes :: "string \<Rightarrow> string" where
  "trim_slashes s = rev (dropWhile (\<lambda>c. c = CHR ''/'') (rev s))"

definition path_target :: "('h, 'u) libs \<Rightarrow> string \<Rightarrow> string option" where
  "path_target L encoded = decode_target L (trim_slashes encoded)"

definition x_target_handler :: "('h, 'u, 't, 'r, 'm, 'x) env \<Rightarrow> ('r, 'm, 'x) app \<Rightarrow> string \<Rightarrow> 'h incoming
    \<Rightarrow> dns_cache \<Rightarrow> ('r, 'm, 'x) world \<Rightarrow> ('h, 'r, 'm, 'x) served" where
  "x_target_handler E A encoded req known w =
     (case path_target (ev_libs E) encoded of
        None \<Rightarrow> Some (text_response (ev_headers E) BAD_REQUEST ''Invalid /x-target/<base64> path segment'', known, w)
      | Some target \<Rightarrow>
          serve E A target req (get_str (ev_headers E) (in_headers req) ''host'') known w)"

subsection \<open>Lemmas\<close>



lemma path_target_slash: "path_target L (encoded @ ''/'') = path_target L encoded"
  by (simp add: path_target_def trim_slashes_def)

lemma run_Some:
  assumes "\<And>n. unat (rd_max_attempts route) + 1 \<le> length (filter is_done (sched n))"
  shows "run E hash_iter route req max_hard sched w \<noteq> None"
proof -
  have "\<forall>n\<in>rounds_from 0 max_hard. unat (rd_max_attempts route) + 1 \<le> length (filter is_done (sched n))"
    using assms by blast
  from run_rounds_finishes [OF this] show ?thesis
    by (simp add: run_def Let_def prod.case_eq_if)
qed

text \<open>Enough completions for every route.\<close>

definition completes :: "('r, 'm, 'x) app \<Rightarrow> bool" where
  "completes A = (\<forall>route n. unat (rd_max_attempts route) + 1 \<le> length (filter is_done (ap_sched A route n)))"

lemma serve_routed_Some:
  assumes "completes A"
  shows "serve_routed E A req rw w \<noteq> None"
proof -
  have "run E (ap_hash_iter A) route req (ap_max_hard_attempts A) (ap_sched A route) w1 \<noteq> None" for route w1
    by (rule run_Some) (use assms in \<open>simp add: completes_def\<close>)
  then show ?thesis
    by (simp add: serve_routed_def Let_def prod.case_eq_if split: option.split del: not_None_eq)
qed

lemma serve_Some: "completes A \<Longrightarrow> serve E A target req rw known w \<noteq> None"
  by (simp add: serve_def Let_def prod.case_eq_if serve_routed_Some split: option.split del: not_None_eq)

lemma handlers_Some:
  assumes "completes A"
  shows "proxy_handler E A req known w \<noteq> None" and "x_target_handler E A encoded req known w \<noteq> None"
  using assms
  by (simp_all add: proxy_handler_def x_target_handler_def serve_Some split: option.split del: not_None_eq)

subsection \<open>Properties\<close>

text \<open>
  Every request to the intermediate proxy is answered, on either of its two entrances: whatever the target, the headers, the
  host check, the script, the route and the upstreams, there is a reply, provided the hedged
  attempts of each round complete.
\<close>

theorem every_request_answered:
  assumes "\<And>route n. unat (rd_max_attempts route) + 1 \<le> length (filter is_done (ap_sched A route n))"
  shows "(\<exists>reply known' w'. proxy_handler E A req known w = Some (reply, known', w'))
    \<and> (\<exists>reply known' w'. x_target_handler E A encoded req known w = Some (reply, known', w'))"
proof -
  have "completes A" using assms by (simp add: completes_def)
  from handlers_Some [OF this] show ?thesis by auto
qed

definition sample_app :: "(unit, unit, unit) app" where
  "sample_app =
     \<lparr>ap_max_hard_attempts = 3, ap_dns = True, ap_is_match = (\<lambda>_ _. False), ap_hash_iter = (\<lambda>xs. xs),
      ap_sched = (\<lambda>route _. replicate (unat (rd_max_attempts route) + 1) (EvDone 0)), ap_clock = 0,
      ap_lookup = (\<lambda>_. LK_Failed), ap_wait = (\<lambda>c. c), ap_cursor = (\<lambda>_ _. 0)\<rparr>"

lemma every_request_answered_witness:
  "\<exists>reply known' w'. x_target_handler (sample_env HR_Timeout HA_NoHook) sample_app ''http://t/x''
     \<lparr>in_method = ''GET'', in_headers = ph_empty, in_body = []\<rparr> [] (sample_world [0, 2]) = Some (reply, known', w')"
proof -
  have "\<And>route n. unat (rd_max_attempts route) + 1 \<le> length (filter is_done (ap_sched sample_app route n))"
    by (simp add: sample_app_def is_done_def)
  from every_request_answered [OF this] show ?thesis by blast
qed




end
