(* ===== verification/Health.thy ===== *)
theory Health
  imports World
begin

text \<open>
  \<^verbatim>\<open>intermediate-proxy/src/health.rs\<close>: the three read-only views of the pool. The replies are JSON values;
  printing a value is \<open>print\<close>, an argument, and so is the debug text of a selector. Reading a route state creates a
  default one where there is none, so every view returns the store too.
\<close>

datatype json =
    J_Null
  | J_Bool bool
  | J_Num nat
  | J_Str string
  | J_Arr "json list"
  | J_Obj "(string \<times> json) list"

subsection \<open>Tier counts\<close>

definition count_tier :: "'r route \<Rightarrow> u64 \<Rightarrow> addr \<Rightarrow> u64 list \<times> store \<Rightarrow> u64 list \<times> store" where
  "count_tier r now a acc =
     (let (c, \<sigma>) = acc; (st, e) = get_route_state (rd_id r) (\<sigma> a); i = tier_rank (entry_tier e st r now)
      in (c[i := c ! i + 1], \<sigma>(a := e)))"

definition route_tiers :: "'r route \<Rightarrow> u64 \<Rightarrow> addr list \<Rightarrow> store \<Rightarrow> u64 list \<times> store" where
  "route_tiers r now snap \<sigma> = fold (count_tier r now) snap ([0, 0, 0, 0, 0], \<sigma>)"

definition probe_json :: "probe_cfg option \<Rightarrow> json" where
  "probe_json p =
     (case p of
        None \<Rightarrow> J_Null
      | Some p \<Rightarrow> J_Obj
          [(''url'', J_Str (pb_url p)), (''intervalMs'', J_Num (unat (pb_interval_ms p))),
           (''okStatuses'', J_Arr (map (\<lambda>s. J_Num (unat s)) (pb_ok_statuses p)))])"

definition route_json :: "(selector \<Rightarrow> string) \<Rightarrow> 'r route \<Rightarrow> u64 list \<Rightarrow> json" where
  "route_json show_sel r c =
     (let n = (\<lambda>i. J_Num (unat (c ! i)))
      in J_Obj
        [(''name'', J_Str (rd_name r)), (''selector'', J_Str (show_sel (rd_selector r))),
         (''healthy'', n 0), (''slow'', n 1), (''failed'', n 2), (''banned'', n 3), (''fatal'', n 4),
         (''probe'', probe_json (rd_probe r))])"

fun tier_counts :: "(selector \<Rightarrow> string) \<Rightarrow> u64 \<Rightarrow> addr list \<Rightarrow> 'r route list \<Rightarrow> store \<Rightarrow> json list \<times> store" where
  "tier_counts show_sel now snap [] \<sigma> = ([], \<sigma>)"
| "tier_counts show_sel now snap (r # rs) \<sigma> =
     (let (c, \<sigma>1) = route_tiers r now snap \<sigma>; (js, \<sigma>2) = tier_counts show_sel now snap rs \<sigma>1
      in (route_json show_sel r c # js, \<sigma>2))"

subsection \<open>The handlers\<close>

definition health_handler :: "('h, 'u, 't, 'r, 'm, 'x) env \<Rightarrow> (selector \<Rightarrow> string) \<Rightarrow> (json \<Rightarrow> string)
    \<Rightarrow> ('r, 'm, 'x) world \<Rightarrow> ('h, 'h pump_job) reply \<times> ('r, 'm, 'x) world" where
  "health_handler E show_sel print w =
     (let su = summary (wo_pool w) (hp_at (wo_heap w));
          proxies = J_Obj [(''total'', J_Num (su_total su)), (''transportFatal'', J_Num (unat (su_transport_fatal su)))];
          (routes, \<sigma>) = tier_counts show_sel (ev_now E 0 w) (pool_snapshot (wo_pool w))
            (rc_routes (lp_config (wo_lua w))) (hp_at (wo_heap w));
          body = J_Obj [(''status'', J_Str ''ok''), (''proxies'', proxies), (''routes'', J_Arr routes)]
      in (json_response (ev_headers E) STATUS_OK (print body), set_store \<sigma> w))"

definition reason_json :: "string option \<Rightarrow> json" where
  "reason_json r = (case r of None \<Rightarrow> J_Null | Some s \<Rightarrow> J_Str s)"

definition json_num :: "u64 \<Rightarrow> json" where
  "json_num n = J_Num (unat n)"

definition proxy_json :: "'r route \<Rightarrow> u64 \<Rightarrow> entry \<Rightarrow> route_state \<Rightarrow> json" where
  "proxy_json r now e st = J_Obj
     [(''url'', J_Str (sanitize_url (en_url e))), (''tags'', J_Arr (map J_Str (en_tags e))),
      (''tier'', J_Str (tier_as_str (entry_tier e st r now))), (''avgLatencyMs'', json_num (rs_avg_latency_ms st)),
      (''lastLatencyMs'', json_num (rs_last_latency_ms st)), (''successCount'', json_num (rs_success_count st)),
      (''errorCount'', json_num (rs_error_count st)), (''consecutiveFailures'', J_Num (unat (rs_consecutive_failures st))),
      (''bannedUntilMs'', json_num (rs_banned_until_ms st)), (''banCount'', json_num (rs_ban_count st)),
      (''lastProbeMs'', json_num (rs_last_probe_ms st)), (''lastErrorReason'', reason_json (rs_last_error_reason st)),
      (''transportFatal'', J_Bool (en_transport_fatal e))]"

fun route_proxies :: "'r route \<Rightarrow> u64 \<Rightarrow> addr list \<Rightarrow> store \<Rightarrow> json list \<times> store" where
  "route_proxies r now [] \<sigma> = ([], \<sigma>)"
| "route_proxies r now (a # as) \<sigma> =
     (let (st, e) = get_route_state (rd_id r) (\<sigma> a); (js, \<sigma>1) = route_proxies r now as (\<sigma>(a := e))
      in (proxy_json r now e st # js, \<sigma>1))"

definition NOT_FOUND :: u16 where "NOT_FOUND = 404"

definition route_detail_handler :: "('h, 'u, 't, 'r, 'm, 'x) env \<Rightarrow> (json \<Rightarrow> string) \<Rightarrow> string
    \<Rightarrow> ('r, 'm, 'x) world \<Rightarrow> ('h, 'h pump_job) reply \<times> ('r, 'm, 'x) world" where
  "route_detail_handler E print name w =
     (case List.find (\<lambda>r. rd_name r = name) (rc_routes (lp_config (wo_lua w))) of
        None \<Rightarrow> (json_response (ev_headers E) NOT_FOUND
            (print (J_Obj [(''error'', J_Str ''no such route''), (''name'', J_Str name)])), w)
      | Some r \<Rightarrow>
          (let (proxies, \<sigma>) = route_proxies r (ev_now E 0 w) (pool_snapshot (wo_pool w)) (hp_at (wo_heap w))
           in (json_response (ev_headers E) STATUS_OK
                 (print (J_Obj [(''route'', J_Str (rd_name r)), (''proxies'', J_Arr proxies)])),
               set_store \<sigma> w)))"

definition proxy_route_json :: "'r route \<Rightarrow> u64 \<Rightarrow> entry \<Rightarrow> route_state \<Rightarrow> json" where
  "proxy_route_json r now e st = J_Obj
     [(''route'', J_Str (rd_name r)), (''tier'', J_Str (tier_as_str (entry_tier e st r now))),
      (''avgLatencyMs'', json_num (rs_avg_latency_ms st)), (''successCount'', json_num (rs_success_count st)),
      (''errorCount'', json_num (rs_error_count st)), (''bannedUntilMs'', json_num (rs_banned_until_ms st)),
      (''lastErrorReason'', reason_json (rs_last_error_reason st))]"

fun proxy_routes :: "u64 \<Rightarrow> 'r route list \<Rightarrow> entry \<Rightarrow> json list \<times> entry" where
  "proxy_routes now [] e = ([], e)"
| "proxy_routes now (r # rs) e =
     (let (st, e1) = get_route_state (rd_id r) e; (js, e2) = proxy_routes now rs e1
      in (if rs_success_count st = 0 \<and> rs_error_count st = 0 then js else proxy_route_json r now e1 st # js, e2))"

definition proxy_detail_handler :: "('h, 'u, 't, 'r, 'm, 'x) env \<Rightarrow> (json \<Rightarrow> string) \<Rightarrow> (string \<rightharpoonup> string)
    \<Rightarrow> ('r, 'm, 'x) world \<Rightarrow> ('h, 'h pump_job) reply \<times> ('r, 'm, 'x) world" where
  "proxy_detail_handler E print query w =
     (case query ''url'' of
        None \<Rightarrow> (json_response (ev_headers E) BAD_REQUEST (print (J_Obj [(''error'', J_Str ''missing ?url='')])), w)
      | Some url \<Rightarrow>
          (case pool_find (wo_pool w) url of
             None \<Rightarrow> (json_response (ev_headers E) NOT_FOUND (print (J_Obj [(''error'', J_Str ''no such proxy'')])), w)
           | Some a \<Rightarrow>
               (let (routes, e) = proxy_routes (ev_now E 0 w) (rc_routes (lp_config (wo_lua w))) (entry_at w a);
                    body = J_Obj
                      [(''proxy'', J_Str (sanitize_url (en_url e))), (''tags'', J_Arr (map J_Str (en_tags e))),
                       (''transportFatal'', J_Bool (en_transport_fatal e)),
                       (''globalSuccess'', json_num (gs_success_count (en_global e))),
                       (''globalError'', json_num (gs_error_count (en_global e))), (''routes'', J_Arr routes)]
                in (json_response (ev_headers E) STATUS_OK (print body), upd_entry a (\<lambda>_. e) w))))"

subsection \<open>Lemmas\<close>

lemma tier_rank_less: "tier_rank t < 5"
  by (cases t) simp_all

lemma tier_rank_eq: "tier_rank a = tier_rank b \<longleftrightarrow> a = b"
  using tier_rank_inject by blast

lemma tier_at_view:
  assumes "same_view \<tau> \<sigma>"
  shows "entry_tier (\<tau> a) (route_state_of (rd_id r) (\<tau> a)) r now = tier_at r now \<sigma> a"
  using same_view_readers(6) [OF assms] same_viewD(5) [OF assms] by (simp add: tier_at_def)

lemma count_tier_step:
  assumes "same_view \<tau> \<sigma>" and "length c = 5" and "count_tier r now a (c, \<tau>) = (c1, \<tau>1)"
  shows "same_view \<tau>1 \<sigma>" and "length c1 = 5"
    and "c1 ! tier_rank t = c ! tier_rank t + (if tier_at r now \<sigma> a = t then 1 else 0)"
proof -
  have e: "\<tau>1 = \<tau>(a := snd (get_route_state (rd_id r) (\<tau> a)))"
    and c1: "c1 = c[tier_rank (tier_at r now \<sigma> a) := c ! tier_rank (tier_at r now \<sigma> a) + 1]"
    using assms(3) by (auto simp: count_tier_def Let_def prod.case_eq_if tier_at_view [OF assms(1)])
  show "same_view \<tau>1 \<sigma>" unfolding e by (rule same_view_touch [OF assms(1)])
  show "length c1 = 5" using assms(2) c1 by simp
  show "c1 ! tier_rank t = c ! tier_rank t + (if tier_at r now \<sigma> a = t then 1 else 0)"
    using assms(2) tier_rank_less by (auto simp: c1 nth_list_update tier_rank_eq)
qed

lemma count_tiers:
  assumes "same_view \<tau> \<sigma>" and "length c = 5" and "fold (count_tier r now) snap (c, \<tau>) = (c1, \<tau>1)"
  shows "same_view \<tau>1 \<sigma> \<and> length c1 = 5
    \<and> (\<forall>t. c1 ! tier_rank t = c ! tier_rank t + of_nat (length (filter (\<lambda>a. tier_at r now \<sigma> a = t) snap)))"
  using assms
proof (induction snap arbitrary: c \<tau>)
  case (Cons a snap)
  obtain c2 \<tau>2 where step: "count_tier r now a (c, \<tau>) = (c2, \<tau>2)" by force
  note nx = count_tier_step [OF Cons.prems(1,2) step]
  have "fold (count_tier r now) snap (c2, \<tau>2) = (c1, \<tau>1)" using Cons.prems(3) step by simp
  from Cons.IH [OF nx(1,2) this] show ?case by (auto simp: nx(3))
qed simp

lemma length_five: "length c = 5 \<Longrightarrow> c = [c ! 0, c ! 1, c ! 2, c ! 3, c ! 4]"
  by (rule nth_equalityI) (auto simp: less_Suc_eq numeral_eq_Suc nth_Cons')

lemma tier_partition:
  "length (filter (\<lambda>a. f a = Healthy) xs) + length (filter (\<lambda>a. f a = Slow) xs) + length (filter (\<lambda>a. f a = Failed) xs)
   + length (filter (\<lambda>a. f a = Banned) xs) + length (filter (\<lambda>a. f a = Fatal) xs) = length xs"
proof (induction xs)
  case (Cons x xs)
  then show ?case by (cases "f x") simp_all
qed simp

subsection \<open>Properties\<close>

text \<open>
  C40: The numbers of \<^verbatim>\<open>/health\<close>. For every route, the five counts are the numbers of proxies of the pool in
  the five tiers at the time of the request, they add up to the size of the pool, and counting changes nothing that any
  reader of the pool can see.
\<close>

theorem health_counts_exact:
  assumes "length snap < 2 ^ 64" and "route_tiers r now snap \<sigma> = (c, \<sigma>')"
  shows "(\<forall>t. unat (c ! tier_rank t) = length (filter (\<lambda>a. tier_at r now \<sigma> a = t) snap))
    \<and> sum_list (map unat c) = length snap \<and> same_view \<sigma>' \<sigma>"
proof -
  have spec: "same_view \<sigma>' \<sigma>" "length c = 5"
    "c ! tier_rank t = [0, 0, 0, 0, 0] ! tier_rank t + of_nat (length (filter (\<lambda>a. tier_at r now \<sigma> a = t) snap))" for t
    using count_tiers [OF same_view_refl _ assms(2) [unfolded route_tiers_def]] by simp_all
  have "[0, 0, 0, 0, 0 :: u64] ! tier_rank t = 0" for t by (cases t) simp_all
  then have at: "unat (c ! tier_rank t) = length (filter (\<lambda>a. tier_at r now \<sigma> a = t) snap)" for t
  proof -
    have "length (filter (\<lambda>a. tier_at r now \<sigma> a = t) snap) < 2 ^ 64"
      using assms(1) length_filter_le le_less_trans by blast
    then show ?thesis using spec(3) [of t] by (simp add: \<open>[0, 0, 0, 0, 0] ! tier_rank t = 0\<close> unat_of_nat)
  qed
  have "sum_list (map unat c) = unat (c ! 0) + unat (c ! 1) + unat (c ! 2) + unat (c ! 3) + unat (c ! 4)"
    by (subst length_five [OF spec(2)]) simp
  then have "sum_list (map unat c) = length snap"
    using at [of Healthy] at [of Slow] at [of Failed] at [of Banned] at [of Fatal]
      tier_partition [of "tier_at r now \<sigma>" snap] by simp
  then show ?thesis using at spec(1) by blast
qed

lemma health_counts_exact_witness:
  "\<exists>c \<sigma>'. route_tiers (sample_route Random) 5 [0, 1, 2] sample_store = (c, \<sigma>') \<and> sum_list (map unat c) = 3"
proof -
  obtain c \<sigma>' where run: "route_tiers (sample_route Random) 5 [0, 1, 2] sample_store = (c, \<sigma>')" by force
  have "length [0 :: addr, 1, 2] < 2 ^ 64" by simp
  from health_counts_exact [OF this run] run show ?thesis by simp
qed

end
