(* ===== verification/Prober.thy ===== *)
theory Prober
  imports World
begin

text \<open>
  \<^verbatim>\<open>intermediate-proxy/src/route/prober.rs\<close>: the two background probers. Each is a loop that walks a
  snapshot, takes a permit of a semaphore for every probe it wants to send and spawns a task that gives the
  permit back when the probe has been answered. \<open>probe_step\<close> and \<open>transport_step\<close> are the interleavings of
  the loop, its tasks and the rest of the program; the network's answers are free. A task that waits for a
  permit keeps the loop waiting, so one probe at most is waiting.
\<close>

text \<open>
  The contract of a loop that bounds its tasks by permits: every step gives as many permits as it ends
  tasks. \<open>idle\<close> counts the free permits, \<open>busy\<close> the running tasks.
\<close>

locale permit_loop =
  fixes step :: "'s \<Rightarrow> 's \<Rightarrow> bool" and idle :: "'s \<Rightarrow> nat" and busy :: "'s \<Rightarrow> nat"
  assumes conserve: "step s s' \<Longrightarrow> idle s' + busy s' = idle s + busy s"
begin

lemma steps_conserve: "step\<^sup>*\<^sup>* s s' \<Longrightarrow> idle s' + busy s' = idle s + busy s"
  by (induction rule: rtranclp_induct) (simp_all add: conserve)

lemma busy_bound: "step\<^sup>*\<^sup>* s s' \<Longrightarrow> busy s = 0 \<Longrightarrow> busy s' \<le> idle s"
  using steps_conserve by fastforce

end

subsection \<open>The route prober\<close>

definition probe_due :: "'r route \<Rightarrow> probe_cfg \<Rightarrow> entry \<Rightarrow> u64 \<Rightarrow> bool" where
  "probe_due route probe e now =
     (let st = route_state_of (rd_id route) e; t = entry_tier e st route now
      in (t = Banned \<or> t = Fatal)
         \<and> \<not> (rs_banned_until_ms st = u64_max \<and> \<not> pb_has_classify probe)
         \<and> \<not> sat_sub now (rs_last_probe_ms st) < pb_interval_ms probe)"

text \<open>
  The loop's state: the pairs still to examine in this tick and the tick's clock reading, the probe that
  waits for a permit, the free permits, the running probes. \<open>ps_log\<close> is the history of the probes decided
  on, newest first, with the entry as it was then.
\<close>

record ('r, 'm, 'x) prober =
  ps_todo :: "('r route \<times> addr) list"
  ps_now :: u64
  ps_waiting :: "('r route \<times> addr) option"
  ps_permits :: nat
  ps_running :: "('r route \<times> addr) list"
  ps_log :: "(u64 \<times> 'r route \<times> addr \<times> entry) list"
  ps_world :: "('r, 'm, 'x) world"

definition prober_start :: "nat \<Rightarrow> ('r, 'm, 'x) world \<Rightarrow> ('r, 'm, 'x) prober" where
  "prober_start max_concurrent w =
     \<lparr>ps_todo = [], ps_now = 0, ps_waiting = None, ps_permits = max max_concurrent 1, ps_running = [],
      ps_log = [], ps_world = w\<rparr>"

definition prober_tick :: "u64 \<Rightarrow> ('r, 'm, 'x) prober \<Rightarrow> ('r, 'm, 'x) prober" where
  "prober_tick now s =
     (let w = ps_world s in
      s\<lparr>ps_now := now,
        ps_todo := List.product (filter (\<lambda>r. rd_probe r \<noteq> None) (rc_routes (lp_config (wo_lua w))))
                     (pool_snapshot (wo_pool w))\<rparr>)"

definition prober_examine :: "('r, 'm, 'x) prober \<Rightarrow> ('r, 'm, 'x) prober" where
  "prober_examine s =
     (case ps_todo s of
        [] \<Rightarrow> s
      | (route, a) # rest \<Rightarrow>
          (case rd_probe route of
             None \<Rightarrow> s\<lparr>ps_todo := rest\<rparr>
           | Some probe \<Rightarrow>
               (let w = ps_world s; rid = rd_id route; now = ps_now s;
                    w1 = upd_entry a (\<lambda>e. snd (get_route_state rid e)) w
                in if probe_due route probe (entry_at w a) now
                   then s\<lparr>ps_todo := rest, ps_waiting := Some (route, a),
                          ps_log := (now, route, a, entry_at w a) # ps_log s,
                          ps_world := upd_entry a (upd_route_state rid (\<lambda>st. st\<lparr>rs_last_probe_ms := now\<rparr>)) w1\<rparr>
                   else s\<lparr>ps_todo := rest, ps_world := w1\<rparr>)))"

definition prober_spawn :: "('r, 'm, 'x) prober \<Rightarrow> ('r, 'm, 'x) prober" where
  "prober_spawn s =
     (case ps_waiting s of
        None \<Rightarrow> s
      | Some job \<Rightarrow>
          if ps_permits s = 0 then s
          else s\<lparr>ps_waiting := None, ps_permits := ps_permits s - 1, ps_running := ps_running s @ [job]\<rparr>)"

text \<open>What the answer to a probe does to the proxy; the classifier may be a hook of the script.\<close>

definition probe_capture :: "'r route \<Rightarrow> probe_cfg \<Rightarrow> u64" where
  "probe_capture route probe = max (rd_capture_body_bytes route) (if pb_has_classify probe then 4096 else 0)"

definition probe_outcome_of :: "('h, 'u, 't, 'r, 'm, 'x) env \<Rightarrow> 'r route \<Rightarrow> probe_cfg \<Rightarrow> probe_reply
    \<Rightarrow> ('r, 'm, 'x) world \<Rightarrow> probe_outcome \<times> ('r, 'm, 'x) world" where
  "probe_outcome_of E route probe reply w =
     (if pb_has_classify probe
      then with_lua (probe_classify (ev_script E) (rd_id route) (pr_status reply) (pr_headers reply)
             (pr_body_preview reply) (pb_ok_statuses probe)) w
      else (if pr_status reply \<in> set (pb_ok_statuses probe) then PO_Ok else PO_StillBanned, w))"

definition probe_effect :: "route_id \<Rightarrow> probe_outcome \<Rightarrow> entry \<Rightarrow> entry" where
  "probe_effect rid outcome e =
     (case outcome of
        PO_Ok \<Rightarrow> snd (clear_transport_fatal (upd_route_state rid clear_ban e))
      | PO_StillBanned \<Rightarrow> e
      | PO_GiveUpRoute \<Rightarrow> upd_route_state rid ban_permanent e)"

text \<open>\<open>net\<close> is the network's answer to the request that leaves for the proxy.\<close>

definition finish_probe :: "('h, 'u, 't, 'r, 'm, 'x) env \<Rightarrow> ('h out_request \<Rightarrow> 'h http_result \<times> bool) \<Rightarrow> 'r route \<Rightarrow> addr
    \<Rightarrow> ('r, 'm, 'x) world \<Rightarrow> ('r, 'm, 'x) world" where
  "finish_probe E net route a w =
     (case rd_probe route of
        None \<Rightarrow> w
      | Some probe \<Rightarrow>
          (case probe_request (ev_libs E) net (en_upstream (entry_at w a)) (pb_url probe) (rd_timeout_ms route)
                  (probe_capture route probe) (pb_headers probe) of
             Inl reason \<Rightarrow> w
           | Inr reply \<Rightarrow>
               (let (outcome, w1) = probe_outcome_of E route probe reply w
                in upd_entry a (probe_effect (rd_id route) outcome) w1)))"

definition prober_finish :: "('h, 'u, 't, 'r, 'm, 'x) env \<Rightarrow> ('h out_request \<Rightarrow> 'h http_result \<times> bool) \<Rightarrow> nat
    \<Rightarrow> ('r, 'm, 'x) prober \<Rightarrow> ('r, 'm, 'x) prober" where
  "prober_finish E net i s =
     (if i < length (ps_running s)
      then (let (route, a) = ps_running s ! i
            in s\<lparr>ps_running := take i (ps_running s) @ drop (Suc i) (ps_running s), ps_permits := ps_permits s + 1,
                 ps_world := finish_probe E net route a (ps_world s)\<rparr>)
      else s)"

text \<open>
  The steps. The prober alone writes the time of the last probe: other tasks leave it as it is on the
  entries probed so far.
\<close>

definition keeps_probe_times :: "('r, 'm, 'x) prober \<Rightarrow> ('r, 'm, 'x) world \<Rightarrow> bool" where
  "keeps_probe_times s w =
     (\<forall>(t, route, a, e)\<in>set (ps_log s).
        rs_last_probe_ms (route_state_of (rd_id route) (entry_at w a))
        = rs_last_probe_ms (route_state_of (rd_id route) (entry_at (ps_world s) a)))"

inductive probe_step :: "('h, 'u, 't, 'r, 'm, 'x) env \<Rightarrow> ('r, 'm, 'x) prober \<Rightarrow> ('r, 'm, 'x) prober \<Rightarrow> bool"
  for E where
  tick: "ps_todo s = [] \<Longrightarrow> ps_waiting s = None \<Longrightarrow> probe_step E s (prober_tick now s)"
| examine: "ps_waiting s = None \<Longrightarrow> probe_step E s (prober_examine s)"
| spawn: "probe_step E s (prober_spawn s)"
| finish: "probe_step E s (prober_finish E net i s)"
| other: "keeps_probe_times s w \<Longrightarrow> probe_step E s (s\<lparr>ps_world := w\<rparr>)"

inductive_cases probe_stepE: "probe_step E s s'"

subsection \<open>The transport prober\<close>

record ('r, 'm, 'x) transport =
  ts_todo :: "addr list"
  ts_waiting :: "addr option"
  ts_permits :: nat
  ts_running :: "addr list"
  ts_world :: "('r, 'm, 'x) world"

text \<open>\<open>None\<close>: the prober is disabled.\<close>

definition transport_start :: "string \<Rightarrow> u64 \<Rightarrow> nat \<Rightarrow> ('r, 'm, 'x) world \<Rightarrow> ('r, 'm, 'x) transport option" where
  "transport_start probe_url interval_ms max_concurrent w =
     (if probe_url = [] \<or> interval_ms = 0 then None
      else Some \<lparr>ts_todo = [], ts_waiting = None, ts_permits = max max_concurrent 1, ts_running = [], ts_world = w\<rparr>)"

definition transport_tick :: "('r, 'm, 'x) transport \<Rightarrow> ('r, 'm, 'x) transport" where
  "transport_tick s = s\<lparr>ts_todo := pool_snapshot (wo_pool (ts_world s))\<rparr>"

definition transport_examine :: "('r, 'm, 'x) transport \<Rightarrow> ('r, 'm, 'x) transport" where
  "transport_examine s =
     (case ts_todo s of
        [] \<Rightarrow> s
      | a # rest \<Rightarrow>
          if en_transport_fatal (entry_at (ts_world s) a) then s\<lparr>ts_todo := rest, ts_waiting := Some a\<rparr>
          else s\<lparr>ts_todo := rest\<rparr>)"

definition transport_spawn :: "('r, 'm, 'x) transport \<Rightarrow> ('r, 'm, 'x) transport" where
  "transport_spawn s =
     (case ts_waiting s of
        None \<Rightarrow> s
      | Some a \<Rightarrow>
          if ts_permits s = 0 then s
          else s\<lparr>ts_waiting := None, ts_permits := ts_permits s - 1, ts_running := ts_running s @ [a]\<rparr>)"

definition finish_transport :: "('h, 'u) libs \<Rightarrow> ('h out_request \<Rightarrow> 'h http_result \<times> bool) \<Rightarrow> string \<Rightarrow> u64 \<Rightarrow> addr
    \<Rightarrow> ('r, 'm, 'x) world \<Rightarrow> ('r, 'm, 'x) world" where
  "finish_transport L net probe_url timeout_ms a w =
     (case probe_request L net (en_upstream (entry_at w a)) probe_url timeout_ms 0 [] of
        Inl reason \<Rightarrow> w
      | Inr reply \<Rightarrow> upd_entry a (\<lambda>e. snd (clear_transport_fatal e)) w)"

definition transport_finish :: "('h, 'u) libs \<Rightarrow> ('h out_request \<Rightarrow> 'h http_result \<times> bool) \<Rightarrow> string \<Rightarrow> u64 \<Rightarrow> nat
    \<Rightarrow> ('r, 'm, 'x) transport \<Rightarrow> ('r, 'm, 'x) transport" where
  "transport_finish L net probe_url timeout_ms i s =
     (if i < length (ts_running s)
      then s\<lparr>ts_running := take i (ts_running s) @ drop (Suc i) (ts_running s), ts_permits := ts_permits s + 1,
             ts_world := finish_transport L net probe_url timeout_ms (ts_running s ! i) (ts_world s)\<rparr>
      else s)"

inductive transport_step :: "('h, 'u) libs \<Rightarrow> string \<Rightarrow> u64 \<Rightarrow> ('r, 'm, 'x) transport \<Rightarrow> ('r, 'm, 'x) transport \<Rightarrow> bool"
  for L probe_url timeout_ms where
  t_tick: "ts_todo s = [] \<Longrightarrow> ts_waiting s = None \<Longrightarrow> transport_step L probe_url timeout_ms s (transport_tick s)"
| t_examine: "ts_waiting s = None \<Longrightarrow> transport_step L probe_url timeout_ms s (transport_examine s)"
| t_spawn: "transport_step L probe_url timeout_ms s (transport_spawn s)"
| t_finish: "transport_step L probe_url timeout_ms s (transport_finish L net probe_url timeout_ms i s)"
| t_other: "transport_step L probe_url timeout_ms s (s\<lparr>ts_world := w\<rparr>)"

inductive_cases transport_stepE: "transport_step L probe_url timeout_ms s s'"

subsection \<open>Lemmas\<close>

lemma length_remove_at: "i < length xs \<Longrightarrow> Suc (length (take i xs @ drop (Suc i) xs)) = length xs"
  by simp

lemma probe_step_permits:
  assumes "probe_step E s s'"
  shows "ps_permits s' + length (ps_running s') = ps_permits s + length (ps_running s)"
  using assms
  by cases
    (auto simp: prober_tick_def prober_examine_def prober_spawn_def prober_finish_def Let_def
      split: list.split option.split prod.split)

interpretation route_permits: permit_loop "probe_step E" ps_permits "\<lambda>s. length (ps_running s)" for E
  by unfold_locales (rule probe_step_permits)

lemma transport_step_permits:
  assumes "transport_step L u ms s s'"
  shows "ts_permits s' + length (ts_running s') = ts_permits s + length (ts_running s)"
  using assms
  by cases
    (auto simp: transport_tick_def transport_examine_def transport_spawn_def transport_finish_def
      split: list.split option.split)

interpretation transport_permits: permit_loop "transport_step L u ms" ts_permits "\<lambda>s. length (ts_running s)" for L u ms
  by unfold_locales (rule transport_step_permits)

text \<open>The time of the newest probe of a proxy on a route, and what a history must satisfy.\<close>

fun last_probe :: "(u64 \<times> 'r route \<times> addr \<times> entry) list \<Rightarrow> route_id \<Rightarrow> addr \<Rightarrow> u64 option" where
  "last_probe [] rid a = None"
| "last_probe ((t, r, b, e) # hist) rid a = (if rd_id r = rid \<and> b = a then Some t else last_probe hist rid a)"

fun probes_ok :: "(u64 \<times> 'r route \<times> addr \<times> entry) list \<Rightarrow> bool" where
  "probes_ok [] = True"
| "probes_ok ((t, r, a, e) # hist) =
     (probes_ok hist
      \<and> (case rd_probe r of
           None \<Rightarrow> False
         | Some p \<Rightarrow>
             entry_tier e (route_state_of (rd_id r) e) r t \<in> {Banned, Fatal}
             \<and> (rs_banned_until_ms (route_state_of (rd_id r) e) = u64_max \<longrightarrow> pb_has_classify p)
             \<and> (case last_probe hist (rd_id r) a of
                  None \<Rightarrow> True | Some t' \<Rightarrow> unat (pb_interval_ms p) \<le> unat t - unat t')))"

definition prober_ok :: "('r, 'm, 'x) prober \<Rightarrow> bool" where
  "prober_ok s =
     (probes_ok (ps_log s)
      \<and> (\<forall>rid a t. last_probe (ps_log s) rid a = Some t \<longrightarrow>
           rs_last_probe_ms (route_state_of rid (entry_at (ps_world s) a)) = t))"

lemma last_probe_mem: "last_probe hist rid a = Some t \<Longrightarrow> \<exists>r e. (t, r, a, e) \<in> set hist \<and> rd_id r = rid"
  by (induction hist rid a rule: last_probe.induct) (auto split: if_splits)

lemma probe_effect_time [simp]:
  "rs_last_probe_ms (route_state_of r (probe_effect rid outcome e)) = rs_last_probe_ms (route_state_of r e)"
  by (cases outcome) (simp_all add: probe_effect_def clear_ban_def ban_permanent_def)

lemma probe_outcome_heap: "wo_heap (snd (probe_outcome_of E route probe reply w)) = wo_heap w"
  by (simp add: probe_outcome_of_def)

lemma entry_at_heap: "wo_heap w' = wo_heap w \<Longrightarrow> entry_at w' a = entry_at w a"
  by (simp add: entry_at_def)

lemma finish_probe_time [simp]:
  "rs_last_probe_ms (route_state_of r (entry_at (finish_probe E net route a w) b))
   = rs_last_probe_ms (route_state_of r (entry_at w b))"
proof (cases "rd_probe route")
  case (Some probe)
  show ?thesis
  proof (cases "probe_request (ev_libs E) net (en_upstream (entry_at w a)) (pb_url probe) (rd_timeout_ms route)
      (probe_capture route probe) (pb_headers probe)")
    case (Inr reply)
    obtain outcome w1 where out: "probe_outcome_of E route probe reply w = (outcome, w1)" by force
    then have heap: "entry_at w1 c = entry_at w c" for c by (metis probe_outcome_heap entry_at_heap snd_conv)
    show ?thesis using Some Inr out by (simp add: finish_probe_def heap)
  qed (simp add: finish_probe_def Some)
qed (simp add: finish_probe_def)

lemma prober_ok_frame:
  assumes "prober_ok s" and "ps_log s' = ps_log s"
    and "\<And>rid a t. last_probe (ps_log s) rid a = Some t \<Longrightarrow>
      rs_last_probe_ms (route_state_of rid (entry_at (ps_world s') a))
      = rs_last_probe_ms (route_state_of rid (entry_at (ps_world s) a))"
  shows "prober_ok s'"
  using assms by (simp add: prober_ok_def)

lemma prober_ok_examine:
  assumes ok: "prober_ok s"
  shows "prober_ok (prober_examine s)"
proof (cases "ps_todo s")
  case Nil
  then show ?thesis using ok by (simp add: prober_examine_def)
next
  case (Cons x rest)
  obtain route a where x: "x = (route, a)" by force
  show ?thesis
  proof (cases "rd_probe route")
    case None
    show ?thesis by (rule prober_ok_frame [OF ok]) (simp_all add: prober_examine_def Cons x None)
  next
    case (Some probe)
    define w where "w = ps_world s"
    define st where "st = route_state_of (rd_id route) (entry_at w a)"
    show ?thesis
    proof (cases "probe_due route probe (entry_at w a) (ps_now s)")
      case False
      show ?thesis
        by (rule prober_ok_frame [OF ok]) (use False in \<open>simp_all add: prober_examine_def Cons x Some w_def Let_def\<close>)
    next
      case True
      have "unat (pb_interval_ms probe) \<le> unat (ps_now s) - unat t"
        if "last_probe (ps_log s) (rd_id route) a = Some t" for t
      proof -
        have "rs_last_probe_ms st = t" using ok that by (simp add: prober_ok_def st_def w_def)
        then show ?thesis
          using True unat_sat_sub [of "ps_now s" t] by (simp add: probe_due_def Let_def st_def word_less_nat_alt)
      qed
      then have "probes_ok ((ps_now s, route, a, entry_at w a) # ps_log s)"
        using ok True by (auto simp: prober_ok_def probe_due_def Let_def Some split: option.split)
      then show ?thesis
        using ok True by (simp add: prober_ok_def prober_examine_def Cons x Some w_def [symmetric] Let_def)
    qed
  qed
qed

lemma prober_ok_step:
  assumes "probe_step E s s'" and ok: "prober_ok s"
  shows "prober_ok s'"
  using assms(1)
proof cases
  case (tick now)
  then show ?thesis using ok by (simp add: prober_ok_def prober_tick_def Let_def)
next
  case examine
  then show ?thesis using prober_ok_examine [OF ok] by simp
next
  case spawn
  show ?thesis by (rule prober_ok_frame [OF ok]) (simp_all add: spawn prober_spawn_def split: option.split)
next
  case (finish net i)
  show ?thesis
    by (rule prober_ok_frame [OF ok]) (simp_all add: finish prober_finish_def split: prod.split)
next
  case (other w)
  have "rs_last_probe_ms (route_state_of rid (entry_at w a)) = rs_last_probe_ms (route_state_of rid (entry_at (ps_world s) a))"
    if "last_probe (ps_log s) rid a = Some t" for rid a t
    using last_probe_mem [OF that] other(2) unfolding keeps_probe_times_def by fast
  then show ?thesis by (intro prober_ok_frame [OF ok]) (simp_all add: other(1))
qed

subsection \<open>Properties\<close>

text \<open>
  C10: The route prober never has more probes under way than its limit (at least one), whatever the interleaving of
  its loop, its tasks and the rest of the program. It probes a proxy on a route only while the proxy is
  banned there or transport-fatal, a permanently banned one only if a classifier could lift the ban, and two
  consecutive probes of a proxy on a route are at least the route's interval apart.
\<close>

theorem route_prober_restrained:
  assumes "(probe_step E)\<^sup>*\<^sup>* (prober_start limit w) s"
  shows "length (ps_running s) \<le> max limit 1 \<and> probes_ok (ps_log s)"
proof -
  have "prober_ok s"
    using assms
  proof (induction rule: rtranclp_induct)
    case base
    show ?case by (simp add: prober_ok_def prober_start_def)
  next
    case (step s1 s2)
    then show ?case using prober_ok_step by blast
  qed
  moreover have "length (ps_running s) \<le> max limit 1"
    using route_permits.busy_bound [OF assms] by (simp add: prober_start_def)
  ultimately show ?thesis by (simp add: prober_ok_def)
qed

definition probed_route :: "unit route" where
  "probed_route = (sample_route Random)\<lparr>rd_probe := Some
     \<lparr>pb_url = ''http://t/ok'', pb_interval_ms = 300, pb_ok_statuses = [200, 204], pb_has_classify = False, pb_headers = []\<rparr>\<rparr>"

definition fatal_world :: "(unit, unit, unit) world" where
  "fatal_world = (sample_world [0])
     \<lparr>wo_heap := \<lparr>hp_at = (\<lambda>_. plain_entry ''p'' True), hp_next = 1\<rparr>,
      wo_lua := \<lparr>lp_vms = [()], lp_rr = 0, lp_config = \<lparr>rc_routes = [probed_route]\<rparr>, lp_instr_limit = 0, lp_routes_dir = []\<rparr>\<rparr>"

lemma fatal_world_simps:
  "entry_at fatal_world a = plain_entry ''p'' True" "rc_routes (lp_config (wo_lua fatal_world)) = [probed_route]"
  "pool_snapshot (wo_pool fatal_world) = [0]"
  by (simp_all add: fatal_world_def entry_at_def sample_world_def pool_snapshot_def)

lemma probed_route_simps:
  "rd_id probed_route = 1" "rd_probe probed_route = Some
     \<lparr>pb_url = ''http://t/ok'', pb_interval_ms = 300, pb_ok_statuses = [200, 204], pb_has_classify = False, pb_headers = []\<rparr>"
  by (simp_all add: probed_route_def sample_route_def)

lemma route_prober_restrained_witness:
  "\<exists>s. (probe_step (sample_env HR_Timeout HA_NoHook))\<^sup>*\<^sup>* (prober_start 0 fatal_world) s
     \<and> map fst (ps_log s) = [5000] \<and> length (ps_running s) = 1 \<and> probes_ok (ps_log s)"
proof -
  let ?E = "sample_env HR_Timeout HA_NoHook" and ?s0 = "prober_start 0 fatal_world"
  let ?s1 = "prober_tick 5000 ?s0"
  let ?s3 = "prober_spawn (prober_examine ?s1)"
  have "probe_step ?E ?s0 ?s1" by (rule probe_step.tick) (simp_all add: prober_start_def)
  moreover have "probe_step ?E ?s1 (prober_examine ?s1)"
    by (rule probe_step.examine) (simp add: prober_start_def prober_tick_def Let_def)
  moreover have "probe_step ?E (prober_examine ?s1) ?s3" by (rule probe_step.spawn)
  ultimately have run: "(probe_step ?E)\<^sup>*\<^sup>* ?s0 ?s3" by (meson converse_rtranclp_into_rtranclp rtranclp.rtrancl_refl)
  have todo: "ps_todo ?s1 = [(probed_route, 0)]" "ps_now ?s1 = 5000" "ps_world ?s1 = fatal_world" "ps_log ?s1 = []"
    "ps_waiting ?s1 = None" "ps_permits ?s1 = 1" "ps_running ?s1 = []"
    by (simp_all add: prober_tick_def prober_start_def fatal_world_simps probed_route_simps Let_def)
  have st: "route_state_of 1 (plain_entry ''p'' True) = route_state_default" "en_transport_fatal (plain_entry ''p'' True)"
    by (simp_all add: plain_entry_def route_state_of_def)
  obtain p where p: "rd_probe probed_route = Some p" "pb_interval_ms p = 300" by (simp add: probed_route_simps)
  have due: "probe_due probed_route p (plain_entry ''p'' True) 5000"
    by (simp add: probe_due_def probed_route_simps(1) st entry_tier_def Let_def p)
      (simp add: route_state_default_def u64_max_def)
  obtain w2 where s2: "prober_examine ?s1 = ?s1\<lparr>ps_todo := [], ps_waiting := Some (probed_route, 0),
      ps_log := [(5000, probed_route, 0, plain_entry ''p'' True)], ps_world := w2\<rparr>"
    unfolding prober_examine_def todo list.case prod.case p option.case Let_def fatal_world_simps if_P [OF due] by blast
  have logged: "map fst (ps_log ?s3) = [5000]" "length (ps_running ?s3) = 1"
    unfolding s2 by (simp_all add: prober_spawn_def todo)
  show ?thesis
    by (intro exI [of _ ?s3] conjI run) (use route_prober_restrained [OF run] logged in simp_all)
qed

text \<open>
  What an answered probe does. A status from the list (or a verdict of the classifier) restores the
  proxy: its ban on the route, its failure streak there and its transport flag are gone. Another status, or no answer at all,
  changes nothing. No probe touches another proxy, another route, or the tags of the proxy.
\<close>

theorem probe_effects:
  assumes "rd_probe route = Some p" and "\<not> pb_has_classify p"
    and net: "net (send_to_upstream (ev_libs E) (en_upstream (entry_at w a)) ''GET''
        (probe_headers (ev_libs E) (pb_url p) (pb_headers p)) [] None) = (res, in_time)"
  defines "w' \<equiv> finish_probe E net route a w"
  shows "(case res of
        HR_Ok resp \<Rightarrow>
          if rsp_status resp \<in> set (pb_ok_statuses p)
          then \<not> is_banned t (route_state_of (rd_id route) (entry_at w' a))
               \<and> rs_consecutive_failures (route_state_of (rd_id route) (entry_at w' a)) = 0
               \<and> \<not> en_transport_fatal (entry_at w' a)
               \<and> (\<forall>r. r = rd_id route \<or> route_state_of r (entry_at w' a) = route_state_of r (entry_at w a))
               \<and> en_tags (entry_at w' a) = en_tags (entry_at w a)
          else entry_at w' a = entry_at w a
      | _ \<Rightarrow> entry_at w' a = entry_at w a)
    \<and> (\<forall>b. b = a \<or> entry_at w' b = entry_at w b)"
  using assms
  by (simp add: finish_probe_def probe_request_def probe_answer_def probe_outcome_of_def probe_effect_def
      clear_ban_def is_banned_def split: http_result.split)

lemma probe_effects_witness:
  "\<not> en_transport_fatal (entry_at (finish_probe (sample_env HR_Timeout HA_NoHook)
     (\<lambda>_. (HR_Ok \<lparr>rsp_status = 204, rsp_headers = ph_empty, rsp_body = []\<rparr>, True)) probed_route 0 fatal_world) 0)"
  using probe_effects [OF probed_route_simps(2), of "\<lambda>_. (HR_Ok \<lparr>rsp_status = 204, rsp_headers = ph_empty, rsp_body = []\<rparr>, True)"
      "sample_env HR_Timeout HA_NoHook" fatal_world 0 _ True 7]
  by simp

end
