(* ===== verification/Stream.thy ===== *)
theory Stream
  imports Attempt "HOL-Library.Sublist"
begin

text \<open>
  The task of \<^verbatim>\<open>intermediate-proxy/src/stream.rs\<close> that pipes a response body to the client and,
  when the transfer breaks, goes on with another proxy from the byte it has reached. What the client has been sent is a
  list of items, \<open>Inr\<close> a chunk and \<open>Inl\<close> an error; \<open>takes n\<close> tells whether it still
  receives after \<open>n\<close> items. The task may run forever when the pool keeps gaining proxies, so \<open>pump\<close> is a
  partial function; \<open>stream_pump_returns\<close> shows when it ends.
\<close>

type_synonym sent = "(string + string) list"

definition offer :: "(nat \<Rightarrow> bool) \<Rightarrow> string + string \<Rightarrow> sent \<Rightarrow> sent option" where
  "offer takes item out = (if takes (length out) then Some (out @ [item]) else None)"

subsection \<open>Finding a proxy to go on with\<close>

definition range_value :: "u64 \<Rightarrow> string" where
  "range_value n = ''bytes='' @ show_nat (unat n) @ ''-''"

definition range_extra :: "'h header_ops \<Rightarrow> u64 \<Rightarrow> 'h" where
  "range_extra H n =
     (if ho_value_str H (range_value n) then ho_insert H ''range'' (range_value n) (ho_empty H) else ho_empty H)"

definition resume_headers :: "'h header_ops \<Rightarrow> 'h \<Rightarrow> 'h" where
  "resume_headers H headers = ho_remove H ''if-modified-since'' (ho_remove H ''if-none-match'' headers)"

definition note_recovery_failure :: "('h, 'u, 't, 'r, 'm, 'x) env \<Rightarrow> 'r route \<Rightarrow> addr \<Rightarrow> u64 option \<Rightarrow> string
    \<Rightarrow> ('r, 'm, 'x) world \<Rightarrow> ('r, 'm, 'x) world" where
  "note_recovery_failure E route a latency reason w =
     upd_entry a (upd_route_state (rd_id route) (observe_failure (ev_now E 0 w) latency reason (rd_slow_ms route))) w"

definition note_recovery_success :: "('h, 'u, 't, 'r, 'm, 'x) env \<Rightarrow> 'r route \<Rightarrow> addr \<Rightarrow> u64
    \<Rightarrow> ('r, 'm, 'x) world \<Rightarrow> ('r, 'm, 'x) world" where
  "note_recovery_success E route a elapsed w =
     upd_entry a (\<lambda>e. let e1 = upd_route_state (rd_id route) (observe_success (ev_now E 0 w) elapsed) e
       in e1\<lparr>en_global := (en_global e1)\<lparr>gs_success_count := gs_success_count (en_global e1) + 1\<rparr>\<rparr>) w"

text \<open>
  The walk over the snapshot: the proxy found with its status and body, the URLs tried, and the world.
\<close>

fun recover :: "('h, 'u, 't, 'r, 'm, 'x) env \<Rightarrow> 'r route \<Rightarrow> 'h pump_job \<Rightarrow> u64 \<Rightarrow> u64 \<Rightarrow> addr list \<Rightarrow> string set
    \<Rightarrow> ('r, 'm, 'x) world \<Rightarrow> (addr \<times> u16 \<times> body_stream) option \<times> string set \<times> ('r, 'm, 'x) world" where
  "recover E route job n now [] tried w = (None, tried, w)"
| "recover E route job n now (a # as) tried w =
     (let (st, e) = get_route_state (rd_id route) (entry_at w a);
          w1 = upd_entry a (\<lambda>_. e) w
      in if Banned \<le> entry_tier e st route now then recover E route job n now as tried w1
         else if en_url e \<in> tried then recover E route job n now as tried w1
         else
           (let H = ev_headers E; tried1 = insert (en_url e) tried;
                out = send_to_upstream (ev_libs E) (en_upstream e) (pj_method job) (resume_headers H (pj_headers job))
                  (pj_body job) (Some (range_extra H n));
                (res, elapsed, w2) = ev_send E out (rd_timeout_ms route) w1
            in case res of
                 HR_Ok rr \<Rightarrow>
                   if rsp_status rr = 206 \<or> rsp_status rr = 200
                   then (Some (a, rsp_status rr, rsp_body rr), tried1, note_recovery_success E route a elapsed w2)
                   else recover E route job n now as tried1
                     (note_recovery_failure E route a (Some elapsed) (status_reason ''recovery status '' (rsp_status rr)) w2)
               | HR_Err re \<Rightarrow> recover E route job n now as tried1
                   (note_recovery_failure E route a None (''recovery: '' @ describe_reqwest_error re) w2)
               | HR_Timeout \<Rightarrow> recover E route job n now as tried1
                   (note_recovery_failure E route a None ''recovery timeout'' w2)))"

text \<open>
  An upstream that ignores the range sends the body from its start: the first \<open>n\<close> bytes are
  skipped. \<open>SkipGone\<close>: the client has left.
\<close>

datatype skipped = SkipGone | SkipDone u64 body_stream sent

fun skip_sent :: "(nat \<Rightarrow> bool) \<Rightarrow> u64 \<Rightarrow> u64 \<Rightarrow> body_stream \<Rightarrow> sent \<Rightarrow> skipped" where
  "skip_sent takes n got [] out = SkipDone n [] out"
| "skip_sent takes n got (Inl e # cs) out =
     (if got < n then SkipDone n cs out else SkipDone n (Inl e # cs) out)"
| "skip_sent takes n got (Inr c # cs) out =
     (if got < n
      then (let rem = n - got; cl = of_nat (length c) in
            if cl \<le> rem then skip_sent takes n (got + cl) cs out
            else (let keep = drop (unat rem) c in
                  case offer takes (Inr keep) out of
                    None \<Rightarrow> SkipGone
                  | Some out1 \<Rightarrow> SkipDone (n + of_nat (length keep)) cs out1))
      else SkipDone n (Inr c # cs) out)"

subsection \<open>The task\<close>

text \<open>
  The body of the loop either ends the task or goes on with the rest of a stream, the number of bytes
  sent, the URL in use, the URLs tried, the items sent and the world.
\<close>

datatype 'w pump_next = PumpStop sent 'w | PumpOn body_stream u64 string "string set" sent 'w

definition pump_step :: "('h, 'u, 't, 'r, 'm, 'x) env \<Rightarrow> (nat \<Rightarrow> bool) \<Rightarrow> 'r route \<Rightarrow> 'h pump_job
    \<Rightarrow> body_stream \<Rightarrow> u64 \<Rightarrow> string \<Rightarrow> string set \<Rightarrow> sent \<Rightarrow> ('r, 'm, 'x) world
    \<Rightarrow> ('r, 'm, 'x) world pump_next" where
  "pump_step E takes route job stream n url tried out w =
     (let w0 = ev_read E w in
      case stream of
        [] \<Rightarrow> PumpStop out w0
      | Inr c # cs \<Rightarrow>
          (case offer takes (Inr c) out of
             None \<Rightarrow> PumpStop out w0
           | Some out1 \<Rightarrow> PumpOn cs (n + of_nat (length c)) url tried out1 w0)
      | Inl e # cs \<Rightarrow>
          (let reason = describe_reqwest_error e in
           if \<not> pj_can_recover job then PumpStop (unwrap_or (offer takes (Inl reason) out) out) w0
           else
             (let w1 = (case pool_find (wo_pool w0) url of
                    Some a \<Rightarrow> note_recovery_failure E route a None (''stream error: '' @ reason) w0
                  | None \<Rightarrow> w0);
                  (found, tried1, w2) =
                    recover E route job n (ev_now E 1 w1) (pool_snapshot (wo_pool w1)) tried w1
              in case found of
                   None \<Rightarrow> PumpStop out w2
                 | Some (a, status, ns) \<Rightarrow>
                     (case (if status = 200 \<and> 0 < n then skip_sent takes n 0 ns out else SkipDone n ns out) of
                        SkipGone \<Rightarrow> PumpStop out w2
                      | SkipDone n1 ns1 out1 \<Rightarrow> PumpOn ns1 n1 (en_url (entry_at w2 a)) tried1 out1 w2))))"

partial_function (option) pump :: "('h, 'u, 't, 'r, 'm, 'x) env \<Rightarrow> (nat \<Rightarrow> bool) \<Rightarrow> 'r route \<Rightarrow> 'h pump_job
    \<Rightarrow> body_stream \<Rightarrow> u64 \<Rightarrow> string \<Rightarrow> string set \<Rightarrow> sent \<Rightarrow> ('r, 'm, 'x) world
    \<Rightarrow> (sent \<times> ('r, 'm, 'x) world) option" where
  "pump E takes route job stream n url tried out w =
     (case pump_step E takes route job stream n url tried out w of
        PumpStop out1 w1 \<Rightarrow> Some (out1, w1)
      | PumpOn stream1 n1 url1 tried1 out1 w1 \<Rightarrow> pump E takes route job stream1 n1 url1 tried1 out1 w1)"

definition run_pump :: "('h, 'u, 't, 'r, 'm, 'x) env \<Rightarrow> (nat \<Rightarrow> bool) \<Rightarrow> 'r route \<Rightarrow> 'h pump_job
    \<Rightarrow> ('r, 'm, 'x) world \<Rightarrow> (sent \<times> ('r, 'm, 'x) world) option" where
  "run_pump E takes route job w =
     pump E takes route job (pj_stream job) 0 (pj_used_url job) (pj_tried job) [] w"

subsection \<open>Lemmas\<close>

text \<open>A stream that sends a prefix of \<open>rest\<close>, with an error only at its end.\<close>

fun serves :: "string \<Rightarrow> body_stream \<Rightarrow> bool" where
  "serves rest [] = True"
| "serves rest (Inl e # cs) = (cs = [])"
| "serves rest (Inr c # cs) = (prefix c rest \<and> serves (drop (length c) rest) cs)"

text \<open>
  What the recovery relies on: upstreams answer a range request for a resource \<open>R\<close> with \<open>R\<close>
  (200) or with the rest of it from the first byte asked for (206), as far as the transfer gets.
\<close>

definition ranges_honoured :: "('h, 'u, 't, 'r, 'm, 'x) env \<Rightarrow> string \<Rightarrow> bool" where
  "ranges_honoured E R =
     (\<forall>out ms w resp el w' n. ev_send E out ms w = (HR_Ok resp, el, w') \<longrightarrow>
        header_vals (ev_headers E) (or_headers out) ''range'' = [range_value n] \<longrightarrow>
        (rsp_status resp = 200 \<longrightarrow> serves R (rsp_body resp))
        \<and> (rsp_status resp = 206 \<longrightarrow> serves (drop (unat n) R) (rsp_body resp)))"

definition chunk_data :: "sent \<Rightarrow> string" where
  "chunk_data out = concat (List.map_filter (\<lambda>i. case i of Inr c \<Rightarrow> Some c | Inl e \<Rightarrow> None) out)"

lemma chunk_data_simps [simp]:
  "chunk_data [] = []" "chunk_data (out @ [Inr c]) = chunk_data out @ c" "chunk_data (out @ [Inl e]) = chunk_data out"
  by (simp_all add: chunk_data_def List.map_filter_def)

lemma offer_Some: "offer takes i out = Some out1 \<Longrightarrow> out1 = out @ [i]"
  by (simp add: offer_def split: if_splits)

lemma range_value_ascii: "visible_ascii (range_value n)"
proof -
  have "\<forall>c\<in>set (show_nat (unat n)). 32 \<le> byte_of c \<and> byte_of c < 127"
    using show_nat_digit by fastforce
  then show ?thesis by (simp add: range_value_def visible_ascii_def)
qed

lemma recovery_range:
  assumes "header_laws (lb_headers L)"
  shows "header_vals (lb_headers L)
    (or_headers (send_to_upstream L u m h b (Some (range_extra (lb_headers L) n)))) ''range'' = [range_value n]"
proof -
  have name: "literal_name ''range''" by (simp add: literal_name_def)
  have "header_vals (lb_headers L) (range_extra (lb_headers L) n) ''range'' = [range_value n]"
    using ascii_value_ok [OF assms range_value_ascii] literal_header_ok [OF assms name range_value_ascii]
    by (simp add: range_extra_def header_vals_insert [OF assms])
  then show ?thesis
    by (cases "us_kind u")
      (simp_all add: send_to_upstream_def http_proxy_forward_def socks_forward_def header_vals_endpoint [OF assms]
        header_vals_direct [OF assms] override_vals_def)
qed

lemma unat_add_length:
  assumes "unat (n :: u64) + l \<le> length R" and "length R < 2 ^ 64"
  shows "unat (n + of_nat l) = unat n + l"
  using assms by (simp add: unat_word_ariths unat_of_nat)

lemma skip_sent_serves:
  assumes "serves (drop (unat got) R) ns" and "got \<le> n" and "unat n \<le> length R" and "length R < 2 ^ 64"
    and "chunk_data out = take (unat n) R"
    and "skip_sent takes n got ns out = SkipDone n1 ns1 out1"
  shows "chunk_data out1 = take (unat n1) R \<and> unat n1 \<le> length R \<and> serves (drop (unat n1) R) ns1"
  using assms
proof (induction takes n got ns out rule: skip_sent.induct)
  case (1 takes n got out)
  then show ?case by auto
next
  case (2 takes n got e cs out)
  then show ?case by (auto split: if_splits)
next
  case (3 takes n got c cs out)
  have pre: "prefix c (drop (unat got) R)" and rest: "serves (drop (length c) (drop (unat got) R)) cs"
    using "3.prems" by simp_all
  have len: "unat got + length c \<le> length R"
    using prefix_length_le [OF pre] "3.prems"(2,3) by (simp add: word_le_nat_alt)
  have got: "unat (got + of_nat (length c)) = unat got + length c"
    by (rule unat_add_length [OF len "3.prems"(4)])
  have cl: "unat (of_nat (length c) :: u64) = length c"
    using len "3.prems"(4) by (simp add: unat_of_nat)
  have rem: "unat (n - got) = unat n - unat got"
    using "3.prems"(2) by (simp add: unat_sub)
  consider (stop) "\<not> got < n" | (skip) "got < n" "of_nat (length c) \<le> n - got"
    | (cut) "got < n" "\<not> of_nat (length c) \<le> n - got" by blast
  then show ?case
  proof cases
    case stop
    then have "got = n" using "3.prems"(2) by simp
    with stop "3.prems" show ?thesis by auto
  next
    case skip
    have "length c \<le> unat n - unat got" using skip(2) cl rem by (simp add: word_le_nat_alt)
    then have le: "got + of_nat (length c) \<le> n"
      using got skip(1) by (simp add: word_le_nat_alt word_less_nat_alt)
    have "serves (drop (unat (got + of_nat (length c))) R) cs" using rest got by (simp add: add.commute)
    then show ?thesis
      using "3.IH" [OF skip(1) refl refl skip(2) _ le "3.prems"(3,4,5)] "3.prems"(6) skip by (simp add: Let_def)
  next
    case cut
    have big: "unat n - unat got < length c" using cut(2) cl rem by (simp add: word_le_nat_alt)
    let ?keep = "drop (unat n - unat got) c"
    have le: "unat got \<le> unat n" using "3.prems"(2) by (simp add: word_le_nat_alt)
    obtain o1 where o1: "offer takes (Inr ?keep) out = Some o1"
      and res: "n1 = n + of_nat (length ?keep)" "ns1 = cs" "out1 = o1"
      using "3.prems"(6) cut rem by (auto simp: Let_def split: option.splits)
    have n1: "unat n1 = unat got + length c"
      using unat_add_length [of n "length ?keep" R] "3.prems"(4) len big le res(1) by simp
    obtain z where z: "drop (unat got) R = c @ z" using pre by (auto elim: prefixE)
    have R: "R = take (unat got) R @ c @ z" using z by (metis append_take_drop_id)
    have "take (unat n) R = take (unat got) R @ take (unat n - unat got) c"
    proof -
      have "take (unat n) R = take (unat got) R @ take (unat n - unat got) (drop (unat got) R)"
        using le by (metis le_add_diff_inverse take_add)
      then show ?thesis using z big by simp
    qed
    moreover have "take (unat n1) R = take (unat got) R @ c"
      using z n1 by (simp add: take_add)
    ultimately have "chunk_data out1 = take (unat n1) R"
      using offer_Some [OF o1] "3.prems"(5) res(3) by simp
    moreover have "serves (drop (unat n1) R) ns1" using rest n1 res(2) by (simp add: add.commute)
    ultimately show ?thesis using n1 len by simp
  qed
qed

lemma ranges_honouredD:
  assumes "ranges_honoured E R" and "ev_send E out ms w = (HR_Ok resp, el, w')"
    and "header_vals (ev_headers E) (or_headers out) ''range'' = [range_value n]"
  shows "(rsp_status resp = 200 \<longrightarrow> serves R (rsp_body resp))
    \<and> (rsp_status resp = 206 \<longrightarrow> serves (drop (unat n) R) (rsp_body resp))"
  using assms unfolding ranges_honoured_def by blast

lemma recover_serves:
  assumes H: "header_laws (ev_headers E)" and R: "ranges_honoured E R"
    and "recover E route job n now as tried w = (Some (a, st, ns), tried1, w1)"
  shows "(st = 200 \<longrightarrow> serves R ns) \<and> (st = 206 \<longrightarrow> serves (drop (unat n) R) ns) \<and> (st = 200 \<or> st = 206)"
  using assms(3)
proof (induction as arbitrary: tried w)
  case Nil
  then show ?case by simp
next
  case (Cons b as)
  obtain rs e where e: "get_route_state (rd_id route) (entry_at w b) = (rs, e)" by (meson surj_pair)
  define v where "v = upd_entry b (\<lambda>_. e) w"
  define req where "req = send_to_upstream (ev_libs E) (en_upstream e) (pj_method job)
    (resume_headers (ev_headers E) (pj_headers job)) (pj_body job) (Some (range_extra (ev_headers E) n))"
  obtain res el v1 where s: "ev_send E req (rd_timeout_ms route) v = (res, el, v1)" by (metis prod_cases3)
  have range: "header_vals (ev_headers E) (or_headers req) ''range'' = [range_value n]"
    unfolding req_def by (rule recovery_range [OF H])
  note run = Cons.prems [unfolded recover.simps e prod.case Let_def, folded v_def req_def, unfolded s prod.case]
  show ?case
  proof (cases "Banned \<le> entry_tier e rs route now \<or> en_url e \<in> tried")
    case True
    then show ?thesis using run Cons.IH by (auto split: if_splits)
  next
    case False
    show ?thesis
    proof (cases res)
      case (HR_Ok rr)
      show ?thesis
      proof (cases "rsp_status rr = 206 \<or> rsp_status rr = 200")
        case True
        then have "st = rsp_status rr" "ns = rsp_body rr" using run False HR_Ok by auto
        then show ?thesis using ranges_honouredD [OF R s [unfolded HR_Ok] range] True by auto
      next
        case bad: False
        then show ?thesis using run False HR_Ok Cons.IH by auto
      qed
    qed (use run False Cons.IH in auto)
  qed
qed

text \<open>What a run has sent: a prefix of the resource, and no error when it may resume.\<close>

definition sent_ok :: "string \<Rightarrow> 'h pump_job \<Rightarrow> sent \<Rightarrow> bool" where
  "sent_ok R job out = (prefix (chunk_data out) R \<and> (pj_can_recover job \<longrightarrow> (\<forall>i\<in>set out. \<not> isl i)))"

definition pump_at :: "string \<Rightarrow> body_stream \<Rightarrow> u64 \<Rightarrow> sent \<Rightarrow> bool" where
  "pump_at R stream n out =
     (serves (drop (unat n) R) stream \<and> unat n \<le> length R \<and> chunk_data out = take (unat n) R \<and> (\<forall>i\<in>set out. \<not> isl i))"

lemma pump_at_sent: "pump_at R stream n out \<Longrightarrow> sent_ok R job out"
  by (auto simp: pump_at_def sent_ok_def take_is_prefix)

lemma skip_sent_chunks:
  "skip_sent takes n got ns out = SkipDone n1 ns1 out1 \<Longrightarrow> \<forall>i\<in>set out. \<not> isl i \<Longrightarrow> \<forall>i\<in>set out1. \<not> isl i"
  by (induction takes n got ns out rule: skip_sent.induct)
    (auto simp: Let_def dest!: offer_Some split: if_splits option.splits)

lemma pump_at_chunk:
  assumes "pump_at R (Inr c # cs) n out" and "length R < 2 ^ 64"
  shows "pump_at R cs (n + of_nat (length c)) (out @ [Inr c])"
proof -
  have pre: "prefix c (drop (unat n) R)" and rest: "serves (drop (length c) (drop (unat n) R)) cs"
    and n: "unat n \<le> length R" and sent: "chunk_data out = take (unat n) R"
    using assms(1) by (simp_all add: pump_at_def)
  obtain z where z: "drop (unat n) R = c @ z" using pre by (auto elim: prefixE)
  have "unat n + length c \<le> length R" using prefix_length_le [OF pre] n by simp
  moreover from this have "unat (n + of_nat (length c)) = unat n + length c"
    using assms(2) by (rule unat_add_length)
  moreover have "take (unat n + length c) R = take (unat n) R @ c" using z by (simp add: take_add)
  moreover have "serves (drop (unat n + length c) R) cs" using rest by (simp add: add.commute)
  ultimately show ?thesis
    using assms(1) sent by (simp add: pump_at_def)
qed

lemma pump_at_resume:
  assumes "header_laws (ev_headers E)" and "ranges_honoured E R" and len: "length R < 2 ^ 64"
    and "recover E route job n now as tried w = (Some (a, st, ns), tried1, w1)"
    and "(if st = 200 \<and> 0 < n then skip_sent takes n 0 ns out else SkipDone n ns out) = SkipDone n1 ns1 out1"
    and at: "pump_at R stream n out"
  shows "pump_at R ns1 n1 out1"
proof (cases "st = 200 \<and> 0 < n")
  case True
  have "serves R ns" using recover_serves [OF assms(1,2,4)] True by simp
  then show ?thesis
    using skip_sent_serves [of 0 R ns n out takes n1 ns1 out1] skip_sent_chunks [of takes n 0 ns out n1 ns1 out1]
      True assms(5) at len by (simp add: pump_at_def)
next
  case False
  have "serves (drop (unat n) R) ns"
    using recover_serves [OF assms(1,2,4)] False by (auto simp: word_greater_zero_iff)
  moreover have "n1 = n" "ns1 = ns" "out1 = out" using assms(5) False by (simp_all split: if_splits)
  ultimately show ?thesis using at by (simp add: pump_at_def)
qed

lemma pump_step_stop:
  assumes "pump_step E takes route job stream n url tried out w = PumpStop out1 w1" and "pump_at R stream n out"
  shows "sent_ok R job out1"
proof (cases stream)
  case Nil
  then show ?thesis using assms(1) pump_at_sent [OF assms(2)] by (simp add: pump_step_def)
next
  case (Cons x cs)
  have ok: "sent_ok R job out" by (rule pump_at_sent [OF assms(2)])
  show ?thesis
  proof (cases x)
    case (Inr c)
    then show ?thesis using assms(1) ok Cons by (auto simp: pump_step_def Let_def split: option.splits)
  next
    case (Inl e)
    show ?thesis
    proof (cases "pj_can_recover job")
      case True
      then have "out1 = out"
        using assms(1) Cons Inl
        by (auto simp: pump_step_def prod.case_eq_if Let_def split: option.splits skipped.splits)
      then show ?thesis using ok by simp
    next
      case False
      then have "out1 = out \<or> (\<exists>r. out1 = out @ [Inl r])"
        using assms(1) Cons Inl by (auto simp: pump_step_def offer_def Let_def)
      then show ?thesis using ok False by (auto simp: sent_ok_def)
    qed
  qed
qed

lemma pump_step_on:
  assumes H: "header_laws (ev_headers E)" and R: "ranges_honoured E R" and len: "length R < 2 ^ 64"
    and step: "pump_step E takes route job stream n url tried out w = PumpOn stream1 n1 url1 tried1 out1 w1"
    and at: "pump_at R stream n out"
  shows "pump_at R stream1 n1 out1"
proof (cases stream)
  case Nil
  then show ?thesis using step by (simp add: pump_step_def)
next
  case (Cons x cs)
  show ?thesis
  proof (cases x)
    case (Inr c)
    then have "stream1 = cs" "n1 = n + of_nat (length c)" "out1 = out @ [Inr c]"
      using step Cons by (auto simp: pump_step_def Let_def dest: offer_Some split: option.splits)
    then show ?thesis using pump_at_chunk [OF _ len] at Cons Inr by simp
  next
    case (Inl e)
    define w0 where "w0 = (case pool_find (wo_pool (ev_read E w)) url of
        Some a \<Rightarrow> note_recovery_failure E route a None (''stream error: '' @ describe_reqwest_error e) (ev_read E w)
      | None \<Rightarrow> ev_read E w)"
    obtain found tried2 w2 where
      rec: "recover E route job n (ev_now E 1 w0) (pool_snapshot (wo_pool w0)) tried w0 = (found, tried2, w2)"
      by (metis prod_cases3)
    have "pj_can_recover job" using step Cons Inl by (simp add: pump_step_def Let_def split: if_splits)
    then obtain a st ns where found: "found = Some (a, st, ns)"
      and skip: "(if st = 200 \<and> 0 < n then skip_sent takes n 0 ns out else SkipDone n ns out) = SkipDone n1 stream1 out1"
      using step Cons Inl rec
      by (auto simp: pump_step_def w0_def Let_def split: option.splits skipped.splits)
    show ?thesis by (rule pump_at_resume [OF H R len rec [unfolded found] skip at])
  qed
qed

lemma pump_sent_ok:
  assumes H: "header_laws (ev_headers E)" and R: "ranges_honoured E R" and len: "length R < 2 ^ 64"
    and run: "pump E takes route job stream n url tried out w = Some (out', w')" and at: "pump_at R stream n out"
  shows "sent_ok R job out'"
proof -
  have "header_laws (ev_headers E) \<longrightarrow> ranges_honoured E R \<longrightarrow> pump_at R stream n out
      \<longrightarrow> sent_ok R job (fst (out', w'))"
  proof (rule pump.raw_induct [where P = "\<lambda>E takes route job stream n url tried out w r.
      header_laws (ev_headers E) \<longrightarrow> ranges_honoured E R \<longrightarrow> pump_at R stream n out \<longrightarrow> sent_ok R job (fst r)",
      OF _ run], intro impI)
    fix pump E takes route job stream n url tried out w r
    assume ih: "\<And>E takes route job stream n url tried out w r. pump E takes route job stream n url tried out w = Some r
        \<Longrightarrow> header_laws (ev_headers E) \<longrightarrow> ranges_honoured E R \<longrightarrow> pump_at R stream n out \<longrightarrow> sent_ok R job (fst r)"
      and step: "(case pump_step E takes route job stream n url tried out w of
        PumpStop out1 w1 \<Rightarrow> Some (out1, w1)
      | PumpOn stream1 n1 url1 tried1 out1 w1 \<Rightarrow> pump E takes route job stream1 n1 url1 tried1 out1 w1) = Some r"
      and H: "header_laws (ev_headers E)" and R: "ranges_honoured E R" and at: "pump_at R stream n out"
    show "sent_ok R job (fst r)"
    proof (cases "pump_step E takes route job stream n url tried out w")
      case (PumpStop out1 w1)
      then show ?thesis using pump_step_stop [OF PumpStop at] step by auto
    next
      case (PumpOn stream1 n1 url1 tried1 out1 w1)
      then show ?thesis using ih [of E takes route job stream1 n1 url1 tried1 out1 w1 r]
          pump_step_on [OF H R len PumpOn at] H R step by simp
    qed
  qed
  then show ?thesis using H R at by simp
qed

text \<open>Proxies are never renamed: all their URLs stay in \<open>U\<close>, whatever runs during an await.\<close>

definition urls_in :: "string set \<Rightarrow> ('r, 'm, 'x) world \<Rightarrow> bool" where
  "urls_in U w = (\<forall>a. en_url (entry_at w a) \<in> U)"

definition keeps_urls :: "('h, 'u, 't, 'r, 'm, 'x) env \<Rightarrow> string set \<Rightarrow> bool" where
  "keeps_urls E U =
     (\<forall>w. urls_in U w \<longrightarrow> urls_in U (ev_read E w) \<and> (\<forall>out ms. urls_in U (snd (snd (ev_send E out ms w)))))"

lemma urls_in_upd: "urls_in U w \<Longrightarrow> (\<And>e. en_url (f e) = en_url e) \<Longrightarrow> urls_in U (upd_entry a f w)"
  by (simp add: urls_in_def)

lemma urls_in_note:
  "urls_in U w \<Longrightarrow> urls_in U (note_recovery_failure E route a l r w)"
  "urls_in U w \<Longrightarrow> urls_in U (note_recovery_success E route a el w)"
  by (simp_all add: note_recovery_failure_def note_recovery_success_def urls_in_upd Let_def)

lemma recover_urls:
  assumes keeps: "keeps_urls E U" and "urls_in U w"
    and "recover E route job n now as tried w = (found, tried1, w1)"
  shows "urls_in U w1 \<and> tried \<subseteq> tried1 \<and> (found \<noteq> None \<longrightarrow> (\<exists>u\<in>U. u \<in> tried1 - tried))"
  using assms(2,3)
proof (induction as arbitrary: tried w)
  case Nil
  then show ?case by auto
next
  case (Cons b as)
  obtain rs e where e: "get_route_state (rd_id route) (entry_at w b) = (rs, e)" by (meson surj_pair)
  then have url: "en_url e = en_url (entry_at w b)" by (metis route_state_frame(1) snd_conv)
  define v where "v = upd_entry b (\<lambda>_. e) w"
  have v: "urls_in U v" using Cons.prems(1) url by (simp add: v_def urls_in_def)
  have u: "en_url e \<in> U" using Cons.prems(1) url by (simp add: urls_in_def)
  define req where "req = send_to_upstream (ev_libs E) (en_upstream e) (pj_method job)
    (resume_headers (ev_headers E) (pj_headers job)) (pj_body job) (Some (range_extra (ev_headers E) n))"
  obtain res el v1 where s: "ev_send E req (rd_timeout_ms route) v = (res, el, v1)" by (metis prod_cases3)
  have v1: "urls_in U v1" using keeps v s by (metis keeps_urls_def snd_conv)
  note run = Cons.prems(2) [unfolded recover.simps e prod.case Let_def, folded v_def req_def, unfolded s prod.case]
  show ?case
  proof (cases "Banned \<le> entry_tier e rs route now \<or> en_url e \<in> tried")
    case True
    then show ?thesis using run Cons.IH [OF v] by (auto split: if_splits)
  next
    case False
    have retry: "urls_in U w1 \<and> tried \<subseteq> tried1 \<and> (found \<noteq> None \<longrightarrow> (\<exists>u\<in>U. u \<in> tried1 - tried))"
      if "recover E route job n now as (insert (en_url e) tried) (note_recovery_failure E route b l r v1) = (found, tried1, w1)"
      for l r using Cons.IH [OF urls_in_note(1) [OF v1] that] by auto
    show ?thesis
    proof (cases res)
      case (HR_Ok rr)
      show ?thesis
      proof (cases "rsp_status rr = 206 \<or> rsp_status rr = 200")
        case True
        then have "w1 = note_recovery_success E route b el v1" "tried1 = insert (en_url e) tried"
          using run False HR_Ok by auto
        then show ?thesis using urls_in_note(2) [OF v1] u False by auto
      next
        case bad: False
        then show ?thesis using run False HR_Ok retry by auto
      qed
    qed (use run False retry in auto)
  qed
qed

lemma pump_step_progress:
  assumes keeps: "keeps_urls E U" and fin: "finite U" and w: "urls_in U w"
    and step: "pump_step E takes route job stream n url tried out w = PumpOn stream1 n1 url1 tried1 out1 w1"
  shows "urls_in U w1 \<and> (tried1 = tried \<and> length stream1 < length stream \<or> card (U - tried1) < card (U - tried))"
proof (cases stream)
  case Nil
  then show ?thesis using step by (simp add: pump_step_def)
next
  case (Cons x cs)
  have w0: "urls_in U (ev_read E w)" using keeps w by (simp add: keeps_urls_def)
  show ?thesis
  proof (cases x)
    case (Inr c)
    then show ?thesis using step Cons w0 by (auto simp: pump_step_def Let_def split: option.splits)
  next
    case (Inl e)
    define v where "v = (case pool_find (wo_pool (ev_read E w)) url of
        Some a \<Rightarrow> note_recovery_failure E route a None (''stream error: '' @ describe_reqwest_error e) (ev_read E w)
      | None \<Rightarrow> ev_read E w)"
    have v: "urls_in U v" using w0 by (simp add: v_def urls_in_note split: option.split)
    obtain found tried2 w2 where
      rec: "recover E route job n (ev_now E 1 v) (pool_snapshot (wo_pool v)) tried v = (found, tried2, w2)"
      by (metis prod_cases3)
    have "pj_can_recover job" using step Cons Inl by (simp add: pump_step_def Let_def split: if_splits)
    then have "found \<noteq> None" and "tried1 = tried2" and "w1 = w2"
      using step Cons Inl rec by (auto simp: pump_step_def v_def Let_def split: option.splits skipped.splits)
    moreover note recover_urls [OF keeps v rec]
    ultimately have "urls_in U w1" and "U - tried1 \<subset> U - tried" by auto
    then show ?thesis using fin by (simp add: psubset_card_mono)
  qed
qed

lemma pump_returns:
  assumes keeps: "keeps_urls E U" and fin: "finite U" and "urls_in U w"
  shows "\<exists>out' w'. pump E takes route job stream n url tried out w = Some (out', w')"
  using assms(3)
proof (induction "(tried, stream)" arbitrary: tried stream n url out w
    rule: wf_induct_rule [OF wf_inv_image [OF wf_lex_prod [OF wf_less_than wf_less_than],
      of "\<lambda>(tried, stream). (card (U - tried), length stream)"]])
  case (1 tried stream n url out w)
  show ?case
  proof (cases "pump_step E takes route job stream n url tried out w")
    case (PumpStop out1 w1)
    then show ?thesis by (simp add: pump.simps)
  next
    case (PumpOn stream1 n1 url1 tried1 out1 w1)
    have "urls_in U w1" and
      "((tried1, stream1), (tried, stream)) \<in> inv_image (less_than <*lex*> less_than)
        (\<lambda>(tried, stream). (card (U - tried), length stream))"
      using pump_step_progress [OF keeps fin "1.prems" PumpOn] by auto
    then have "\<exists>out' w'. pump E takes route job stream1 n1 url1 tried1 out1 w1 = Some (out', w')"
      using "1.hyps" by blast
    then show ?thesis using PumpOn by (simp add: pump.simps)
  qed
qed

subsection \<open>Properties\<close>

text \<open>
  C4: Recovery never corrupts a body. If the upstreams answer the request for a resource \<open>R\<close> with a prefix
  of \<open>R\<close> and honour ranges, then whatever the proxies, the order of breakdowns and the moment the
  client leaves, the data the client has been sent when the task ends is a prefix of \<open>R\<close>: no byte is
  repeated, dropped in between, or taken from elsewhere. A stream that may be resumed never
  passes an error on.
\<close>

theorem stream_delivers_prefix:
  assumes "header_laws (ev_headers E)" and "ranges_honoured E R" and "length R < 2 ^ 64"
    and "serves R (pj_stream job)" and "run_pump E takes route job w = Some (out, w')"
  shows "prefix (chunk_data out) R \<and> (pj_can_recover job \<longrightarrow> (\<forall>i\<in>set out. \<not> isl i))"
  using pump_sent_ok [OF assms(1-3) assms(5) [unfolded run_pump_def]] assms(4)
  by (simp add: pump_at_def sent_ok_def)

text \<open>
  A resumption that repeats the body from its start: \<open>def\<close> follows the three bytes already sent.
\<close>

definition sample_job :: "plain_header_map pump_job" where
  "sample_job =
     \<lparr>pj_stream = [Inr ''abc'', Inl \<lparr>he_chain = [''reset''], he_connect = False\<rparr>], pj_used_url = ''u'', pj_method = ''GET'',
      pj_headers = ph_empty, pj_body = [], pj_can_recover = True, pj_tried = {}\<rparr>"

definition resuming_env :: "body_stream \<Rightarrow> (plain_header_map, unit, plain_table, unit, unit, unit) env" where
  "resuming_env body = sample_env (HR_Ok \<lparr>rsp_status = 200, rsp_headers = ph_empty, rsp_body = body\<rparr>) HA_NoHook"

definition one_proxy_world :: "(unit, unit, unit) world" where
  "one_proxy_world = (sample_world [0])\<lparr>wo_heap := \<lparr>hp_at = (\<lambda>_. plain_entry ''p'' False), hp_next = 1\<rparr>,
     wo_pool := \<lparr>po_entries = [0], po_by_url = [(''p'', 0)]\<rparr>\<rparr>"

lemma resuming_env_simps [simp]:
  "ev_read (resuming_env body) w = w" "ev_now (resuming_env body) k w = 5"
  "ev_send (resuming_env body) out ms w = (HR_Ok \<lparr>rsp_status = 200, rsp_headers = ph_empty, rsp_body = body\<rparr>, 40, w)"
  "ev_libs (resuming_env body) = plain_libs"
  by (simp_all add: resuming_env_def)

lemma resuming_recover:
  "\<exists>w1. recover (resuming_env body) (sample_route Random) sample_job n 5 [0] {} one_proxy_world
     = (Some (0, 200, body), {''p''}, w1) \<and> en_url (entry_at w1 0) = ''p''"
proof -
  obtain rs e where e: "get_route_state (rd_id (sample_route Random)) (entry_at one_proxy_world 0) = (rs, e)"
    by (meson surj_pair)
  have at: "entry_at one_proxy_world 0 = plain_entry ''p'' False"
    by (simp add: one_proxy_world_def entry_at_def)
  have "rs = route_state_default" and url: "en_url e = ''p''" and "en_transport_fatal e = False"
    using e at by (auto simp: get_route_state_def plain_entry_def)
  then have "entry_tier e rs (sample_route Random) 5 = Healthy"
    by (simp add: entry_tier_def is_banned_def route_state_default_def sample_route_def Let_def)
  moreover have "\<not> Banned \<le> Healthy" by (simp add: less_eq_tier_def)
  ultimately show ?thesis
    using url by (simp add: e Let_def note_recovery_success_def)
qed

lemma sample_pump:
  "\<exists>w1. run_pump (resuming_env body) (\<lambda>_. True) (sample_route Random) sample_job one_proxy_world
     = (case skip_sent (\<lambda>_. True) 3 0 body [Inr ''abc''] of
          SkipGone \<Rightarrow> Some ([Inr ''abc''], w1)
        | SkipDone n1 ns1 out1 \<Rightarrow>
            pump (resuming_env body) (\<lambda>_. True) (sample_route Random) sample_job ns1 n1 ''p'' {''p''} out1 w1)"
proof -
  let ?pump = "pump (resuming_env body) (\<lambda>_. True) (sample_route Random) sample_job"
  let ?err = "[Inl \<lparr>he_chain = [''reset''], he_connect = False\<rparr>]"
  have "pump_step (resuming_env body) (\<lambda>_. True) (sample_route Random) sample_job (Inr ''abc'' # ?err) 0 ''u'' {} []
      one_proxy_world = PumpOn ?err 3 ''u'' {} [Inr ''abc''] one_proxy_world"
    by (simp add: pump_step_def offer_def)
  then have "run_pump (resuming_env body) (\<lambda>_. True) (sample_route Random) sample_job one_proxy_world
      = ?pump ?err 3 ''u'' {} [Inr ''abc''] one_proxy_world"
    unfolding run_pump_def by (subst pump.simps) (simp add: sample_job_def)
  moreover obtain w1 where rec: "recover (resuming_env body) (sample_route Random) sample_job 3 5 [0] {} one_proxy_world
      = (Some (0, 200, body), {''p''}, w1)" and url: "en_url (entry_at w1 0) = ''p''"
    using resuming_recover by blast
  have job: "pj_can_recover sample_job" "pj_headers sample_job = ph_empty" by (simp_all add: sample_job_def)
  have pool: "pool_find (wo_pool one_proxy_world) ''u'' = None" "pool_snapshot (wo_pool one_proxy_world) = [0]"
    by (simp_all add: one_proxy_world_def sample_world_def pool_find_def pool_snapshot_def)
  have "pump_step (resuming_env body) (\<lambda>_. True) (sample_route Random) sample_job ?err 3 ''u'' {} [Inr ''abc'']
      one_proxy_world = (case skip_sent (\<lambda>_. True) 3 0 body [Inr ''abc''] of
          SkipGone \<Rightarrow> PumpStop [Inr ''abc''] w1 | SkipDone n1 ns1 out1 \<Rightarrow> PumpOn ns1 n1 ''p'' {''p''} out1 w1)"
    using rec url pool job by (simp add: pump_step_def del: recover.simps split: skipped.split)
  then have "?pump ?err 3 ''u'' {} [Inr ''abc''] one_proxy_world
     = (case skip_sent (\<lambda>_. True) 3 0 body [Inr ''abc''] of
          SkipGone \<Rightarrow> Some ([Inr ''abc''], w1)
        | SkipDone n1 ns1 out1 \<Rightarrow> ?pump ns1 n1 ''p'' {''p''} out1 w1)"
    by (subst pump.simps) (simp split: skipped.split)
  ultimately show ?thesis by auto
qed

lemma stream_delivers_prefix_witness:
  "\<exists>out w'. run_pump (resuming_env [Inr ''abcdef'']) (\<lambda>_. True) (sample_route Random) sample_job one_proxy_world = Some (out, w')
     \<and> out = [Inr ''abc'', Inr ''def''] \<and> prefix (chunk_data out) ''abcdef''"
proof -
  let ?E = "resuming_env [Inr ''abcdef'']"
  have skip: "skip_sent (\<lambda>_. True) 3 0 [Inr ''abcdef''] [Inr ''abc''] = SkipDone 6 [] [Inr ''abc'', Inr ''def'']"
    by (simp add: offer_def word_le_nat_alt)
  obtain w1 where "run_pump ?E (\<lambda>_. True) (sample_route Random) sample_job one_proxy_world
      = pump ?E (\<lambda>_. True) (sample_route Random) sample_job [] 6 ''p'' {''p''} [Inr ''abc'', Inr ''def''] w1"
    using sample_pump [of "[Inr ''abcdef'']"] unfolding skip by auto
  then have run: "run_pump ?E (\<lambda>_. True) (sample_route Random) sample_job one_proxy_world
      = Some ([Inr ''abc'', Inr ''def''], w1)"
    by (simp add: pump.simps pump_step_def)
  have "header_laws (ev_headers ?E)" using plain_libs_laws by simp
  moreover have "ranges_honoured ?E ''abcdef''" by (simp add: ranges_honoured_def)
  moreover have "serves ''abcdef'' (pj_stream sample_job)" by (simp add: sample_job_def)
  ultimately have "prefix (chunk_data [Inr ''abc'', Inr ''def'']) ''abcdef''"
    using stream_delivers_prefix [OF _ _ _ _ run] by simp
  with run show ?thesis by blast
qed

text \<open>
  C11: The task always ends when the proxies' URLs come from a finite set, whatever the pool, the
  network and the client do meanwhile: every break costs a URL that was not tried before, and between two
  breaks the task only consumes its stream.
\<close>

theorem stream_pump_returns:
  assumes "finite U" and "keeps_urls E U" and "urls_in U w"
  shows "\<exists>out w'. run_pump E takes route job w = Some (out, w')"
  unfolding run_pump_def by (rule pump_returns [OF assms(2,1,3)])

lemma stream_pump_returns_witness:
  "\<exists>out w'. run_pump (resuming_env [Inr ''a'', Inl \<lparr>he_chain = [], he_connect = False\<rparr>]) (\<lambda>n. n < 9)
     (sample_route Random) sample_job one_proxy_world = Some (out, w')"
proof (rule stream_pump_returns)
  show "finite {''p''}" by simp
  show "keeps_urls (resuming_env [Inr ''a'', Inl \<lparr>he_chain = [], he_connect = False\<rparr>]) {''p''}"
    by (simp add: keeps_urls_def)
  show "urls_in {''p''} one_proxy_world"
    by (simp add: urls_in_def one_proxy_world_def entry_at_def plain_entry_def)
qed

text \<open>
  A break while the bytes already sent are being skipped ends the task as if the body were complete: the client of a
  six-byte resource gets three bytes and no error.
\<close>

lemma skip_break_truncates:
  "\<exists>w1. run_pump (resuming_env [Inr ''ab'', Inl \<lparr>he_chain = [''reset''], he_connect = False\<rparr>]) (\<lambda>_. True)
     (sample_route Random) sample_job one_proxy_world = Some ([Inr ''abc''], w1)"
proof -
  let ?body = "[Inr ''ab'', Inl \<lparr>he_chain = [''reset''], he_connect = False\<rparr>]"
  have skip: "skip_sent (\<lambda>_. True) 3 0 ?body [Inr ''abc''] = SkipDone 3 [] [Inr ''abc'']"
    by (simp add: word_le_nat_alt word_less_nat_alt)
  show ?thesis using sample_pump [of ?body] unfolding skip by (auto simp: pump.simps pump_step_def)
qed

end
