(* ===== verification/Server.thy ===== *)
theory Server
  imports Handler Health Prober Stream
begin

text \<open>
  \<^verbatim>\<open>intermediate-proxy/src/main.rs\<close>: the settings, the start-up, and the whole server as a transition
  system. After the start-up the two watchers reload the pool and the script, and everything else (requests,
  recoveries, probes, health views) only does bookkeeping on entries and moves the cursor of the VM
  ring; \<open>sys_step\<close> interleaves these freely. The parts of TLS that this repository decides are here too
  (\<^verbatim>\<open>tls.rs\<close>, \<open>parse_domains\<close>).
\<close>

subsection \<open>Settings\<close>

record settings =
  sg_proxy_file :: string
  sg_proxy_refresh_ms :: u64
  sg_routes_file :: string
  sg_routes_refresh_ms :: u64
  sg_max_concurrent_probes :: nat
  sg_instr_limit :: u32
  sg_max_hard_attempts :: nat
  sg_transport_probe_url :: string
  sg_transport_probe_interval_ms :: u64
  sg_transport_probe_timeout_ms :: u64
  sg_vm_count :: nat
  sg_dns_check :: bool

text \<open>\<open>cpus\<close> is the parallelism the platform reports, if it does.\<close>

definition settings_from_env :: "u64 option \<Rightarrow> environ \<Rightarrow> settings" where
  "settings_from_env cpus env =
     \<lparr>sg_proxy_file = env_string env ''PROXY_FILE'' ''/etc/proxies.txt'',
      sg_proxy_refresh_ms = env_u64 env ''PROXY_REFRESH_MS'' 30000,
      sg_routes_file = env_string env ''ROUTES_FILE'' ''/etc/routes.lua'',
      sg_routes_refresh_ms = env_u64 env ''ROUTES_REFRESH_MS'' 30000,
      sg_max_concurrent_probes = unat (env_u64 env ''MAX_CONCURRENT_PROBES'' 16),
      sg_instr_limit = ucast (env_u64 env ''LUA_INSTRUCTION_LIMIT'' 1000000),
      sg_max_hard_attempts = unat (env_u64 env ''MAX_HARD_ATTEMPTS'' 20),
      sg_transport_probe_url = env_string env ''TRANSPORT_PROBE_URL'' ''https://www.google.com/generate_204'',
      sg_transport_probe_interval_ms = env_u64 env ''TRANSPORT_PROBE_INTERVAL_MS'' 10000,
      sg_transport_probe_timeout_ms = env_u64 env ''TRANSPORT_PROBE_TIMEOUT_MS'' 8000,
      sg_vm_count = unat (env_u64 env ''LUA_VM_COUNT'' (max (unwrap_or cpus 4 * 2) 4)),
      sg_dns_check = env_bool env ''DNS_CHECK'' True\<rparr>"

definition parse_domains :: "string \<Rightarrow> string list" where
  "parse_domains env_value = filter (\<lambda>s. s \<noteq> []) (map trim (split_on (CHR '','') env_value))"

text \<open>How the server listens: \<open>LS_Panic\<close> is TLS without a domain.\<close>

datatype listen =
    LS_Panic
  | LS_Tls "string list" string string bool
  | LS_Plain u16

definition listen_from_env :: "environ \<Rightarrow> listen" where
  "listen_from_env env =
     (if env_bool env ''TLS_ENABLED'' False
      then (case parse_domains (unwrap_or (env ''DOMAINS'') []) of
          [] \<Rightarrow> LS_Panic
        | d # ds \<Rightarrow> LS_Tls (d # ds) (unwrap_or (env ''ACME_EMAIL'') (''admin@'' @ d))
            (unwrap_or (env ''ACME_CACHE_DIR'') ''/var/cache/acme'') (env_bool env ''ACME_STAGING'' False))
      else LS_Plain (port_from_env env 3000))"

subsection \<open>Start-up\<close>

record ('r, 'm) system =
  sy_pool :: proxy_pool
  sy_heap :: heap
  sy_lua :: "('m, 'r) lua_pool"
  sy_proxy_mtime :: "u64 option"
  sy_routes_mtime :: "u64 option"

datatype ('r, 'm) startup = SU_Panic panic | SU_Exit string | SU_Up "('r, 'm) system"

text \<open>
  What the libraries contribute: whether an address makes a proxy and a client can be built, the regex
  compiler, the tables and the VM loader of Lua, the parent directory of a path.
\<close>

record ('r, 't, 'm) platform =
  pf_proxy_ok :: "string \<Rightarrow> bool"
  pf_build_ok :: "client_cfg \<Rightarrow> bool"
  pf_regex :: "string \<Rightarrow> string + 'r"
  pf_lua :: "'t lua_ops"
  pf_new_vm :: "('m, 't) vm_loader"
  pf_parent :: "string \<Rightarrow> string option"

definition startup :: "('r, 't, 'm) platform \<Rightarrow> settings \<Rightarrow> heap \<Rightarrow> string option \<Rightarrow> string + string
    \<Rightarrow> u64 option \<Rightarrow> u64 option \<Rightarrow> ('r, 'm) startup" where
  "startup P sg h proxies routes mtime1 mtime2 =
     (case pool_new (pf_proxy_ok P) (pf_build_ok P) (load_initial proxies) h of
        Inl e \<Rightarrow> SU_Panic e
      | Inr (pool, h1) \<Rightarrow>
          (case build_from_file (pf_regex P) (pf_lua P) (pf_parent P) (pf_new_vm P) routes (sg_routes_file sg)
                  (sg_vm_count sg) (sg_instr_limit sg) of
             Inl e \<Rightarrow> SU_Exit (''FATAL: cannot load routes file '' @ [CHR 0x27] @ sg_routes_file sg @ [CHR 0x27] @ '': '' @ e)
           | Inr lua \<Rightarrow> SU_Up
               \<lparr>sy_pool = pool, sy_heap = h1, sy_lua = lua, sy_proxy_mtime = mtime1, sy_routes_mtime = mtime2\<rparr>))"

subsection \<open>The running server\<close>

text \<open>What requests, recoveries, probes and health views do to an entry.\<close>

inductive bookkeeping :: "'r itself \<Rightarrow> (entry \<Rightarrow> entry) \<Rightarrow> bool" for T :: "'r itself" where
  bk_success: "bookkeeping T (record_success clk rid latency)"
| bk_failure: "bookkeeping T (record_failure clk (route :: 'r route) latency reason ban_ms global_fatal)"
| bk_touch: "bookkeeping T (\<lambda>e. snd (get_route_state rid e))"
| bk_state: "bookkeeping T (upd_route_state rid f)"
| bk_global: "bookkeeping T (\<lambda>e. e\<lparr>en_global := g (en_global e)\<rparr>)"
| bk_probe: "bookkeeping T (probe_effect rid outcome)"
| bk_alive: "bookkeeping T (\<lambda>e. snd (clear_transport_fatal e))"

inductive sys_step :: "('r, 't, 'm) platform \<Rightarrow> ('r, 'm) system \<Rightarrow> ('r, 'm) system \<Rightarrow> bool" for P where
  sys_proxies: "watcher_tick (pf_proxy_ok P) (pf_build_ok P) meta file (sy_proxy_mtime s) (sy_pool s) (sy_heap s)
       = (m, Inr (p, h)) \<Longrightarrow> sys_step P s (s\<lparr>sy_proxy_mtime := m, sy_pool := p, sy_heap := h\<rparr>)"
| sys_routes: "routes_tick (pf_regex P) (pf_lua P) (pf_new_vm P) meta file (sy_routes_mtime s) (sy_lua s) = (m, lua)
       \<Longrightarrow> sys_step P s (s\<lparr>sy_routes_mtime := m, sy_lua := lua\<rparr>)"
| sys_entry: "bookkeeping TYPE('r) f \<Longrightarrow> sys_step P s (s\<lparr>sy_heap := heap_upd a f (sy_heap s)\<rparr>)"
| sys_hook: "sys_step P s (s\<lparr>sy_lua := snd (pick_vm locked (sy_lua s))\<rparr>)"

inductive_cases sys_stepE: "sys_step P s s'"

subsection \<open>Lemmas\<close>

lemma bookkeeping_url: "bookkeeping T f \<Longrightarrow> en_url (f e) = en_url e"
  by (induction rule: bookkeeping.induct) (auto simp: probe_effect_def split: probe_outcome.split)

lemma pool_ok_heap_upd:
  assumes "pool_ok p h" and "\<And>e. en_url (f e) = en_url e"
  shows "pool_ok p (heap_upd a f h)"
proof -
  have "en_url (hp_at (heap_upd a f h) b) = en_url (hp_at h b)" "hp_next (heap_upd a f h) = hp_next h" for b
    using assms(2) by (simp_all add: heap_upd_def)
  then show ?thesis using assms(1) by (simp add: pool_ok_def)
qed

lemma pool_new_ok:
  assumes "pool_new pa bo ps h = Inr (p, h1)" and "distinct (map pp_url ps)"
  shows "pool_ok p h1"
proof -
  obtain acc where "reload_loop pa bo [] ps reload_acc0 h = Inr (acc, h1)" and p: "p = ra_pool acc"
    using assms(1) pool_new_reload [of pa bo ps "ra_pool reload_acc0" h 0 0]
    by (auto simp: pool_new_def reload_acc0_def split: sum.splits prod.splits)
  then have "reload_inv pa bo [] h ps acc h1"
    using reload_loop_inv [of pa bo "[]" ps reload_acc0 h acc h1 h "[]"] reload_inv_start assms(2)
    by (simp add: old_ok_def)
  from reload_inv_pool_ok [OF this assms(2)] show ?thesis by (simp add: p)
qed

lemma distinct_parsed: "distinct (map pp_url (parse_proxies content))"
  using clean_parse_proxies by (simp add: clean_proxies_def)

lemma watcher_tick_ok:
  assumes "watcher_tick pa bo meta file mt p h = (m, Inr (p', h'))" and "pool_ok p h"
  shows "pool_ok p' h'"
proof (cases "p' = p \<and> h' = h")
  case True
  then show ?thesis using assms(2) by simp
next
  case False
  then obtain content where "pool_reload pa bo (parse_proxies content) p h = Inr (p', h')"
    using assms(1) by (auto simp: watcher_tick_def Let_def split: option.splits if_splits)
  then show ?thesis using pool_reload_inv [OF assms(2) distinct_parsed] by blast
qed

text \<open>A script pool that can serve: at least one VM, and a well-formed configuration.\<close>

definition lua_ok :: "('m, 'r) lua_pool \<Rightarrow> bool" where
  "lua_ok lua =
     (lp_vms lua \<noteq> [] \<and> rc_routes (lp_config lua) \<noteq> []
      \<and> map rd_id (rc_routes (lp_config lua)) = map (\<lambda>k. of_nat (k + 1)) [0..<length (rc_routes (lp_config lua))]
      \<and> list_all route_wf (rc_routes (lp_config lua)))"

lemma load_vms_ok:
  assumes "load_vms rx L nv src dir budget 0 (max n 1) None = Inr (vms, Some c)"
  shows "vms \<noteq> [] \<and> rc_routes c \<noteq> []
    \<and> map rd_id (rc_routes c) = map (\<lambda>k. of_nat (k + 1)) [0..<length (rc_routes c)] \<and> list_all route_wf (rc_routes c)"
proof -
  obtain k where k: "max n 1 = Suc k" by (cases n) auto
  have "length vms = Suc k" using load_vms_length [OF assms] k by simp
  moreover obtain cfg where "parse_router_config rx L cfg = Inr c"
    using load_vms_config0 assms unfolding k by (metis option.inject)
  ultimately show ?thesis using parse_router_config_wf by fastforce
qed

lemma lua_build_ok:
  assumes "lua_build rx L pd nv src path n budget = Inr lua"
  shows "lua_ok lua"
proof -
  obtain vms c where "load_vms rx L nv src (routes_dir_of pd path) budget 0 (max n 1) None = Inr (vms, Some c)"
    and lua: "lp_vms lua = vms" "lp_config lua = c"
    using assms by (auto simp: lua_build_def Let_def split: sum.splits prod.splits option.splits)
  from load_vms_ok [OF this(1)] show ?thesis by (simp add: lua_ok_def lua)
qed

lemma lua_reload_ok:
  assumes "lua_ok lua"
  shows "lua_ok (snd (lua_reload rx L nv src lua))"
proof (cases "snd (lua_reload rx L nv src lua) = lua")
  case False
  then obtain vms c where load: "load_vms rx L nv src (lp_routes_dir lua) (lp_instr_limit lua) 0
        (max (length (lp_vms lua)) 1) None = Inr (vms, Some c)"
    and res: "snd (lua_reload rx L nv src lua) = lua\<lparr>lp_config := c, lp_vms := vms\<rparr>"
    by (auto simp: lua_reload_def Let_def split: sum.splits prod.splits option.splits)
  from load_vms_ok [OF load] show ?thesis unfolding res by (simp add: lua_ok_def)
qed (simp add: assms)

definition system_ok :: "('r, 'm) system \<Rightarrow> bool" where
  "system_ok s = (pool_ok (sy_pool s) (sy_heap s) \<and> lua_ok (sy_lua s))"

lemma system_ok_startup:
  assumes "startup P sg h proxies routes t1 t2 = SU_Up s"
  shows "system_ok s"
proof -
  obtain pool h1 lua where pool: "pool_new (pf_proxy_ok P) (pf_build_ok P) (load_initial proxies) h = Inr (pool, h1)"
    and lua: "build_from_file (pf_regex P) (pf_lua P) (pf_parent P) (pf_new_vm P) routes (sg_routes_file sg)
        (sg_vm_count sg) (sg_instr_limit sg) = Inr lua"
    and s: "sy_pool s = pool" "sy_heap s = h1" "sy_lua s = lua"
    using assms by (auto simp: startup_def split: sum.splits prod.splits)
  have "distinct (map pp_url (load_initial proxies))"
    by (cases proxies) (simp_all add: load_initial_def distinct_parsed)
  moreover have "lua_ok lua" using lua lua_build_ok by (auto simp: build_from_file_def split: sum.splits)
  ultimately show ?thesis using pool_new_ok [OF pool] by (simp add: system_ok_def s)
qed

lemma system_ok_step:
  assumes "sys_step P s s'" and ok: "system_ok s"
  shows "system_ok s'"
  using assms(1)
proof cases
  case (sys_proxies meta content m p h)
  then show ?thesis using watcher_tick_ok ok by (fastforce simp: system_ok_def)
next
  case (sys_routes meta content m lua)
  then have "lua = sy_lua s \<or> (\<exists>src. lua = snd (lua_reload (pf_regex P) (pf_lua P) (pf_new_vm P) src (sy_lua s)))"
    by (auto simp: routes_tick_def split: option.splits if_splits)
  then have "lua_ok lua" using ok lua_reload_ok by (auto simp: system_ok_def)
  then show ?thesis using ok sys_routes(1) by (simp add: system_ok_def)
next
  case (sys_entry f a)
  have "pool_ok (sy_pool s) (heap_upd a f (sy_heap s))"
    using ok bookkeeping_url [OF sys_entry(2)] by (intro pool_ok_heap_upd) (simp_all add: system_ok_def)
  then show ?thesis using ok sys_entry(1) by (simp add: system_ok_def)
next
  case (sys_hook locked)
  have "lua_ok (snd (pick_vm locked (sy_lua s)))"
    using ok by (simp add: system_ok_def lua_ok_def pick_vm_def Let_def split: option.split)
  then show ?thesis using ok sys_hook by (simp add: system_ok_def)
qed

subsection \<open>Properties\<close>

text \<open>
  C2: The server never reaches an inconsistent state. If it starts, then after any interleaving of hot
  reloads of the proxy list and of the script with the bookkeeping of requests, recoveries and probes, a lookup by URL
  agrees with the list of proxies and no URL is there twice, there is a VM to run hooks on, there is a
  route, and the routes are numbered in file order and well formed.
\<close>

theorem server_stays_consistent:
  assumes "startup P sg h proxies routes t1 t2 = SU_Up s0" and "(sys_step P)\<^sup>*\<^sup>* s0 s"
  shows "pool_ok (sy_pool s) (sy_heap s) \<and> lua_ok (sy_lua s)"
proof -
  have "system_ok s"
    using assms(2) by (induction rule: rtranclp_induct) (auto intro: system_ok_startup [OF assms(1)] system_ok_step)
  then show ?thesis by (simp add: system_ok_def)
qed

definition sample_platform :: "(string, plain_table, unit) platform" where
  "sample_platform =
     \<lparr>pf_proxy_ok = (\<lambda>_. True), pf_build_ok = (\<lambda>_. True), pf_regex = (\<lambda>s. Inr s), pf_lua = plain_ops,
      pf_new_vm = (\<lambda>_ _ _ _. Inr ((), sample_script)), pf_parent = (\<lambda>_. None)\<rparr>"

lemma server_stays_consistent_witness:
  "\<exists>s0 :: (string, unit) system.
     startup sample_platform ((settings_from_env None (\<lambda>_. None))\<lparr>sg_vm_count := 1\<rparr>) \<lparr>hp_at = sample_store, hp_next = 0\<rparr>
       None (Inr []) None None = SU_Up s0
     \<and> lua_ok (snd (pick_vm (\<lambda>_. True) (sy_lua s0)))"
proof -
  let ?sg = "(settings_from_env None (\<lambda>_. None))\<lparr>sg_vm_count := 1\<rparr>" and ?h = "\<lparr>hp_at = sample_store, hp_next = 0\<rparr>"
  obtain c where c: "parse_router_config (\<lambda>s. Inr s :: string + string) plain_ops sample_script = Inr c"
    using sample_script_parses ..
  obtain lua where "build_from_file (\<lambda>s. Inr s) plain_ops (\<lambda>_. None) (\<lambda>_ _ _ _. Inr ((), sample_script)) (Inr [])
      (sg_routes_file ?sg) 1 (sg_instr_limit ?sg) = Inr lua"
    by (simp add: build_from_file_def lua_build_def c)
  then obtain s0 where s0: "startup sample_platform ?sg ?h None (Inr []) None None = SU_Up s0"
    by (simp add: startup_def sample_platform_def load_initial_def pool_new_def)
  have "sys_step sample_platform s0 (s0\<lparr>sy_lua := snd (pick_vm (\<lambda>_. True) (sy_lua s0))\<rparr>)" by (rule sys_hook)
  then have "(sys_step sample_platform)\<^sup>*\<^sup>* s0 (s0\<lparr>sy_lua := snd (pick_vm (\<lambda>_. True) (sy_lua s0))\<rparr>)" ..
  from server_stays_consistent [OF s0 this] s0 show ?thesis by auto
qed

end
