(* ===== verification/Guarantee.thy ===== *)
theory Guarantee
  imports Server
begin

text \<open>
  The tasks of the server as sequences of its steps. \<open>Server\<close> says what the shared state may
  go through (\<open>sys_step\<close>); here every task of the code, a request, its streaming task, a health view, a
  prober, is shown to do nothing else between two awaits. \<open>world_moves\<close> is the interface: a relation on
  worlds that contains the awaits and the elementary steps and is closed under sequencing. Every task stays in every such
  relation; it is interpreted by reachability under \<open>sys_step\<close>.
\<close>

subsection \<open>Composition of updates\<close>

lemma upd_entry_comp: "upd_entry a f (upd_entry a g w) = upd_entry a (\<lambda>e. f (g e)) w"
  by (simp add: upd_entry_def heap_upd_def)

lemma upd_entry_const: "upd_entry a (\<lambda>_. f (entry_at w a)) w = upd_entry a f w"
  by (simp add: upd_entry_def heap_upd_def entry_at_def)

lemma set_store_self: "set_store (hp_at (wo_heap w)) w = w"
  by (simp add: set_store_def)

lemma set_store_upd: "set_store (\<sigma>(a := f (\<sigma> a))) w = upd_entry a f (set_store \<sigma> w)"
  by (simp add: set_store_def upd_entry_def heap_upd_def)

text \<open>The world after one turn of the streaming loop.\<close>

definition next_world :: "('r, 'm, 'x) world pump_next \<Rightarrow> ('r, 'm, 'x) world" where
  "next_world p = (case p of PumpStop out w \<Rightarrow> w | PumpOn stream n url tried out w \<Rightarrow> w)"

subsection \<open>The interface\<close>

locale world_moves =
  fixes E :: "('h, 'u, 't, 'r, 'm, 'x) env"
    and R :: "('r, 'm, 'x) world \<Rightarrow> ('r, 'm, 'x) world \<Rightarrow> bool"
  assumes stay: "R w w"
    and seq: "R u v \<Longrightarrow> R v w \<Longrightarrow> R u w"
    and send: "R w (snd (snd (ev_send E out ms w)))"
    and sleep: "R w (ev_sleep E ms w)"
    and read: "R w (ev_read E w)"
    and entry: "bookkeeping TYPE('r) f \<Longrightarrow> R w (upd_entry a f w)"
    and hook: "R w (w\<lparr>wo_lua := snd (pick_vm locked (wo_lua w)), wo_ext := x\<rparr>)"
    and cursor: "R w (w\<lparr>wo_cursor := c\<rparr>)"
begin

text \<open>Each elementary step at the end of a sequence.\<close>

lemma then_send: "R u w \<Longrightarrow> R u (snd (snd (ev_send E out ms w)))"
  using seq send by blast

lemma then_sleep: "R u w \<Longrightarrow> R u (ev_sleep E ms w)"
  using seq sleep by blast

lemma then_read: "R u w \<Longrightarrow> R u (ev_read E w)"
  using seq read by blast

lemma then_entry: "bookkeeping TYPE('r) f \<Longrightarrow> R u w \<Longrightarrow> R u (upd_entry a f w)"
  using seq entry by blast

lemma then_cursor: "R u w \<Longrightarrow> R u (w\<lparr>wo_cursor := c\<rparr>)"
  using seq cursor by blast

lemma then_touch: "R u w \<Longrightarrow> R u (upd_entry a (\<lambda>_. snd (get_route_state rid (entry_at w a))) w)"
  unfolding upd_entry_const [where f = "\<lambda>e. snd (get_route_state rid e)" for rid]
  by (rule then_entry [OF bk_touch])

lemma then_succeed: "R u w \<Longrightarrow> R u (succeed E route a elapsed w)"
  unfolding succeed_def by (rule then_entry [OF bk_success])

lemma then_fail: "R u w \<Longrightarrow> R u (fail E route a latency reason ban fatal w)"
  unfolding fail_def by (rule then_entry [OF bk_failure])

lemma then_recovery_failure: "R u w \<Longrightarrow> R u (note_recovery_failure E route a latency reason w)"
  unfolding note_recovery_failure_def by (rule then_entry [OF bk_state])

lemma then_recovery_success:
  assumes "R u w"
  shows "R u (note_recovery_success E route a elapsed w)"
proof -
  define f where "f = upd_route_state (rd_id route) (observe_success (ev_now E 0 w) elapsed)"
  define g where "g = (\<lambda>e :: entry. e\<lparr>en_global := (en_global e)\<lparr>gs_success_count := gs_success_count (en_global e) + 1\<rparr>\<rparr>)"
  have "note_recovery_success E route a elapsed w = upd_entry a g (upd_entry a f w)"
    by (simp add: note_recovery_success_def upd_entry_comp f_def g_def Let_def)
  moreover have "bookkeeping TYPE('r) f" unfolding f_def by (rule bk_state)
  moreover have "bookkeeping TYPE('r) g"
    unfolding g_def by (rule bk_global [where g = "\<lambda>gs. gs\<lparr>gs_success_count := gs_success_count gs + 1\<rparr>"])
  ultimately show ?thesis using assms by (simp add: then_entry)
qed

text \<open>Calls of the script.\<close>

lemma then_call:
  assumes "R u w"
  shows "R u (snd (with_lua (\<lambda>p x. let (ans, p', x') = call_hook S rid name args p x in (g ans, p', x')) w))"
proof -
  obtain vm p' where p: "pick_vm (sc_locked S (wo_ext w)) (wo_lua w) = (vm, p')" by force
  obtain ans x' where c: "sc_call S vm rid name args (wo_ext w) = (ans, x')" by force
  have "R w (w\<lparr>wo_lua := p', wo_ext := x'\<rparr>)"
    using hook [where w = w and locked = "sc_locked S (wo_ext w)" and x = x'] by (simp add: p)
  then show ?thesis using seq [OF assms] by (simp add: with_lua_def call_hook_def p c Let_def)
qed

lemma then_on_request: "R u w \<Longrightarrow> R u (snd (with_lua (on_request S rid ctx) w))"
  unfolding on_request_def by (rule then_call)

lemma then_on_response: "R u w \<Longrightarrow> R u (snd (with_lua (on_response S rid ctx hr ban) w))"
  unfolding on_response_def by (rule then_call)

lemma then_on_exhausted: "R u w \<Longrightarrow> R u (snd (with_lua (on_exhausted S rid ctx) w))"
  unfolding on_exhausted_def by (rule then_call)

lemma then_classify: "R u w \<Longrightarrow> R u (snd (with_lua (probe_classify S rid st hs body ok) w))"
  unfolding probe_classify_def by (rule then_call)

lemma select_from_moves:
  "R u (w\<lparr>wo_lua := p, wo_ext := x\<rparr>) \<Longrightarrow> select_from S ctx rs p x = (r, p', x')
   \<Longrightarrow> R u (w\<lparr>wo_lua := p', wo_ext := x'\<rparr>)"
proof (induction rs arbitrary: p x)
  case (Cons r0 rs)
  show ?case
  proof (cases "mt_has_predicate (rd_matcher r0)")
    case True
    obtain ok p1 x1 where e: "eval_predicate S (rd_id r0) ctx p x = (ok, p1, x1)" by (metis prod_cases3)
    have "R u (snd (with_lua (eval_predicate S (rd_id r0) ctx) (w\<lparr>wo_lua := p, wo_ext := x\<rparr>)))"
      unfolding eval_predicate_def by (rule then_call [OF Cons.prems(1)])
    then have "R u (w\<lparr>wo_lua := p1, wo_ext := x1\<rparr>)" by (simp add: with_lua_def e)
    from Cons.IH [OF this] this Cons.prems(2) True e show ?thesis by (cases ok) auto
  next
    case False
    then show ?thesis using Cons.prems by simp
  qed
qed simp

lemma then_select: "R u w \<Longrightarrow> R u (snd (with_lua (select_route is_match S cfg host path meth ctx) w))"
proof -
  assume "R u w"
  obtain r p x where s: "select_from S ctx (candidates is_match cfg host path meth) (wo_lua w) (wo_ext w) = (r, p, x)"
    by (metis prod_cases3)
  have "R u (w\<lparr>wo_lua := p, wo_ext := x\<rparr>)"
    by (rule select_from_moves [OF _ s]) (simp add: \<open>R u w\<close>)
  then show ?thesis by (simp add: with_lua_def select_route_def s)
qed

lemmas then_hook = then_on_request then_on_response then_on_exhausted then_classify then_select

lemmas then_step = then_send then_sleep then_read then_cursor then_touch then_succeed then_fail
  then_recovery_failure then_recovery_success then_hook

text \<open>The scans of the pool.\<close>

lemma then_scan_live:
  "R u (set_store \<sigma> w) \<Longrightarrow> R u (set_store (snd (scan_live r pall pany now snap \<sigma>)) w)"
proof (induction snap arbitrary: \<sigma>)
  case (Cons a snap)
  define \<sigma>1 where "\<sigma>1 = \<sigma>(a := snd (get_route_state (rd_id r) (\<sigma> a)))"
  have "R u (set_store \<sigma>1 w)"
    unfolding \<sigma>1_def set_store_upd [where f = "\<lambda>e. snd (get_route_state (rd_id r) e)"]
    by (rule then_entry [OF bk_touch Cons.prems])
  from Cons.IH [OF this] Cons.IH [OF Cons.prems] show ?case
    by (simp add: prod.case_eq_if Let_def flip: \<sigma>1_def)
qed simp

lemma then_scan_fatal:
  "R u (set_store \<sigma> w) \<Longrightarrow> R u (set_store (snd (scan_fatal r pall pany tried now snap \<sigma>)) w)"
proof (induction snap arbitrary: \<sigma>)
  case (Cons a snap)
  define \<sigma>1 where "\<sigma>1 = \<sigma>(a := snd (get_route_state (rd_id r) (\<sigma> a)))"
  have "R u (set_store \<sigma>1 w)"
    unfolding \<sigma>1_def set_store_upd [where f = "\<lambda>e. snd (get_route_state (rd_id r) e)"]
    by (rule then_entry [OF bk_touch Cons.prems])
  from Cons.IH [OF this] Cons.IH [OF Cons.prems] show ?case
    by (simp add: prod.case_eq_if Let_def flip: \<sigma>1_def)
qed simp

subsection \<open>One attempt\<close>

lemma then_judge: "R u w \<Longrightarrow> R u (snd (judge E route ctx hr w))"
  by (simp add: judge_def then_hook)

lemma then_retry_same: "R u w \<Longrightarrow> R u (snd (retry_same E route a elapsed status delay w))"
  by (simp add: retry_same_def then_fail then_sleep)

lemma then_capture: "R u w \<Longrightarrow> R u (snd (capture_attempt E route a req pairs attempt elapsed resp w))"
  by (simp add: capture_attempt_def Let_def prod.case_eq_if then_step then_judge then_retry_same
      split: sum.split response_verdict.split)

lemma then_stream: "R u w \<Longrightarrow> R u (snd (stream_attempt E route a req pairs base attempt elapsed resp w))"
  by (simp add: stream_attempt_def Let_def prod.case_eq_if then_step then_judge then_retry_same
      split: response_verdict.split)

lemma then_attempt: "R u w \<Longrightarrow> R u (snd (run_attempt E route cand req pairs base attempt w))"
  by (simp add: run_attempt_def Let_def prod.case_eq_if then_step then_capture then_stream
      split: http_result.split)

subsection \<open>Dispatching\<close>

lemma then_sequential:
  "R u w \<Longrightarrow> R u (snd (snd (snd (sequential_loop E route req pairs base url plan attempt tried failures w))))"
proof (induction plan arbitrary: attempt tried failures w)
  case (Cons cand plan)
  note step = then_attempt [OF Cons.prems] then_attempt [OF then_sleep [OF Cons.prems]]
  show ?case
    by (simp add: Let_def prod.case_eq_if Cons.prems step Cons.IH [OF step(1)] Cons.IH [OF step(2)]
        split: sum.split)
qed simp

lemma then_turn:
  assumes "R u w"
  shows "case hedge_turn E route req pairs base url ev st w of
      Inl (res, st1, w1) \<Rightarrow> R u w1 | Inr (st1, w1) \<Rightarrow> R u w1"
proof (cases ev)
  case EvTimer
  then show ?thesis by (simp add: then_read [OF assms])
next
  case (EvDone k)
  obtain idx cand where c: "hs_futs st ! (k mod length (hs_futs st)) = (idx, cand)" by force
  obtain r w1 where a: "run_attempt E route cand req pairs base (of_nat (idx + 1)) (ev_read E w) = (r, w1)" by force
  have "R u w1" using then_attempt [OF then_read [OF assms]] a by (metis snd_conv)
  then show ?thesis by (simp add: EvDone hedge_turn_Done [OF c a] split: sum.split)
qed

lemma then_hedge:
  "R u w \<Longrightarrow> hedge_loop E route req pairs base url sched st w = Some (res, st', w') \<Longrightarrow> R u w'"
proof (induction sched arbitrary: st w)
  case Nil
  then show ?case using hedge_loop_idle hedge_loop_Nil by (metis Pair_inject option.distinct(1) option.inject)
next
  case (Cons ev sched)
  note turn = then_turn [OF Cons.prems(1), of route req pairs base url ev st]
  show ?case
  proof (cases "hs_futs st = []")
    case True
    with Cons.prems show ?thesis by (simp add: hedge_loop_idle)
  next
    case False
    with Cons.prems(2) turn Cons.IH show ?thesis by (auto simp: hedge_loop_Cons split: sum.splits)
  qed
qed

lemma then_run_plan:
  assumes "R u w" and "run_plan E route req pairs base sched plan tried failures w = Some (res, tried', failures', w')"
  shows "R u w'"
proof -
  have "R u w'" if "dispatch_hedged E route req pairs base sched plan tried failures w = Some (res, tried', failures', w')"
    using that then_hedge [OF assms(1)] by (auto simp: dispatch_hedged_def Let_def split: option.splits)
  moreover have "R u w'" if "dispatch_sequential E route req pairs base plan tried failures w = (res, tried', failures', w')"
    using that then_sequential [OF assms(1)] by (metis dispatch_sequential_def snd_conv)
  ultimately show ?thesis using assms by (simp add: run_plan_def split: if_splits)
qed

lemma then_fatal: "R u w \<Longrightarrow> R u (snd (snd (fatal_loop E route req base tried as failures w)))"
proof (induction "as" arbitrary: failures w)
  case (Cons a as)
  note step = then_send [OF Cons.prems] then_read [OF then_send [OF Cons.prems]]
  show ?case
    by (simp add: Let_def prod.case_eq_if step Cons.IH [OF step(1)] Cons.IH [OF step(2)] split: http_result.split)
qed simp

lemma then_try_fatal: "R u w \<Longrightarrow> R u (snd (snd (try_fatal E route req base pall pany tried failures w)))"
  by (simp add: try_fatal_def fallback_pool_def Let_def prod.case_eq_if then_fatal then_scan_fatal set_store_self)

lemma then_round_plan:
  assumes "R u w"
  shows "R u (snd (round_plan E route pr forced w))"
proof -
  have "R u ((set_store (snd (snd (build_plan rnd hash now route snap pall pany sk cur (hp_at (wo_heap w))))) w)
      \<lparr>wo_cursor := c\<rparr>)" for rnd hash now snap pall pany sk cur c
    using then_cursor [OF then_scan_live [of u "hp_at (wo_heap w)" w]] assms
    by (simp add: build_plan_def Let_def prod.case_eq_if set_store_self)
  then show ?thesis
    by (simp add: round_plan_def Let_def prod.case_eq_if then_touch split: option.split)
qed

lemma then_exhausted: "R u w \<Longrightarrow> R u (snd (exhausted_verdict_of E route ctx w))"
  by (simp add: exhausted_verdict_of_def then_hook)

lemma then_prepare: "R u w \<Longrightarrow> R u (snd (prepare E route req pairs w))"
  by (simp add: prepare_def Let_def prod.case_eq_if then_hook)

text \<open>What follows a round that found no answer; \<open>again\<close> is the next round.\<close>

lemma then_verdict:
  assumes w: "R u w" and again: "\<And>tried0 w1. R u w1 \<Longrightarrow> \<not> over \<Longrightarrow> again tried0 w1 = Some (resp, w') \<Longrightarrow> R u w'"
    and run: "(case v of
         EV_TryFatal \<Rightarrow>
           (case try_fatal E route req base pall pany tried failures w of
              (Some resp, failures2, w4) \<Rightarrow> Some (resp, w4)
            | (None, failures2, w4) \<Rightarrow> Some (give_up E hi route failures2, w4))
       | EV_WaitProbe timeout_ms \<Rightarrow>
           (let w4 = ev_sleep E (min timeout_ms 30000) w in
            if over then Some (give_up E hi route failures, w4) else again tried w4)
       | EV_RetryAll \<Rightarrow> if over then Some (give_up E hi route failures, w) else again {} w
       | EV_ReturnError status body \<Rightarrow>
           Some (text_response (ev_headers E) (unwrap_or (status_from_u16 status) BAD_GATEWAY) body, w)) = Some (resp, w')"
  shows "R u w'"
proof (cases v)
  case EV_TryFatal
  obtain r fs w4 where f: "try_fatal E route req base pall pany tried failures w = (r, fs, w4)" by (metis prod_cases3)
  have "R u w4" using then_try_fatal [OF w] f by (metis snd_conv)
  with run f EV_TryFatal show ?thesis by (cases r) simp_all
next
  case (EV_WaitProbe ms)
  with run again [OF then_sleep [OF w]] then_sleep [OF w] show ?thesis
    by (simp add: Let_def split: if_splits) blast+
next
  case EV_RetryAll
  with run again [OF w] w show ?thesis by (simp split: if_splits)
next
  case (EV_ReturnError status body)
  with run w show ?thesis by simp
qed

lemma then_rounds:
  "R u w \<Longrightarrow> run_rounds E hi route req pairs pr max_hard sched n forced tried failures w = Some (resp, w')
   \<Longrightarrow> R u w'"
proof (induction "max_hard - n" arbitrary: n forced tried failures w rule: less_induct)
  case less
  obtain plan w1 where p: "round_plan E route pr forced w = (plan, w1)" by force
  have w1: "R u w1" using then_round_plan [OF less.prems(1)] p by (metis snd_conv)
  obtain res tried1 failures1 w2
    where d: "run_plan E route req pairs (pp_base_headers pr) (sched n) plan tried failures w1
      = Some (res, tried1, failures1, w2)"
    using less.prems(2) p by (subst (asm) run_rounds.simps) (force simp: Let_def split: option.splits)
  have w2: "R u w2" by (rule then_run_plan [OF w1 d])
  show ?case
  proof (cases res)
    case (Some r)
    with less.prems(2) p d w2 show ?thesis by (subst (asm) run_rounds.simps) simp
  next
    case None
    obtain v w3 where v: "exhausted_verdict_of E route (exhausted_ctx route req pairs tried1) w2 = (v, w3)" by force
    have w3: "R u w3" using then_exhausted [OF w2] v by (metis snd_conv)
    have run: "(case v of
         EV_TryFatal \<Rightarrow>
           (case try_fatal E route req (pp_base_headers pr) (pp_pool_all pr) (pp_pool_any pr) tried1 failures1 w3 of
              (Some resp, failures2, w4) \<Rightarrow> Some (resp, w4)
            | (None, failures2, w4) \<Rightarrow> Some (give_up E hi route failures2, w4))
       | EV_WaitProbe timeout_ms \<Rightarrow>
           (let w4 = ev_sleep E (min timeout_ms 30000) w3 in
            if max_hard \<le> n + 1 then Some (give_up E hi route failures1, w4)
            else run_rounds E hi route req pairs pr max_hard sched (n + 1) None tried1 failures1 w4)
       | EV_RetryAll \<Rightarrow>
           if max_hard \<le> n + 1 then Some (give_up E hi route failures1, w3)
           else run_rounds E hi route req pairs pr max_hard sched (n + 1) None {} failures1 w3
       | EV_ReturnError status body \<Rightarrow>
           Some (text_response (ev_headers E) (unwrap_or (status_from_u16 status) BAD_GATEWAY) body, w3)) = Some (resp, w')"
      using less.prems(2) p d v None by (subst (asm) run_rounds.simps) simp
    show ?thesis
      by (rule then_verdict [OF w3 _ run]) (rule less.hyps, simp_all)
  qed
qed

lemma then_run: "R u w \<Longrightarrow> run E hi route req max_hard sched w = Some (resp, w') \<Longrightarrow> R u w'"
  using then_rounds [OF then_prepare] by (simp add: run_def Let_def prod.case_eq_if)

subsection \<open>Requests\<close>

lemma then_serve_routed:
  assumes "R u w" and "serve_routed E A req rw w = Some (resp, w')"
  shows "R u w'"
proof -
  obtain found w1 where s: "with_lua (select_route (ap_is_match A) (ev_script E) (lp_config (wo_lua w)) (rq_host req)
      (rq_path req) (rq_method req)
      (probe_ctx (rq_target_url req) (rq_host req) (rq_path req) (rq_method req)
        (str_header_pairs (ev_headers E) (rq_headers req)))) w = (found, w1)" by force
  have w1: "R u w1" using then_select [OF assms(1)] s by (metis snd_conv)
  show ?thesis
  proof (cases found)
    case None
    with assms(2) s w1 show ?thesis by (simp add: serve_routed_def Let_def)
  next
    case (Some route)
    obtain r where "run E (ap_hash_iter A) route req (ap_max_hard_attempts A) (ap_sched A route)
        (w1\<lparr>wo_cursor := ap_cursor A route w1\<rparr>) = Some (r, w')"
      using assms(2) s Some by (auto simp: serve_routed_def Let_def)
    with then_run [OF then_cursor [OF w1]] show ?thesis by blast
  qed
qed

lemma then_serve:
  assumes "R u w" and "serve E A target req rw known w = Some (resp, known', w')"
  shows "R u w'"
  using assms(2) then_serve_routed [OF then_read [OF assms(1)]] then_read [OF assms(1)] assms(1)
  by (auto simp: serve_def Let_def prod.case_eq_if split: option.splits if_splits)

lemma then_proxy_handler:
  "R u w \<Longrightarrow> proxy_handler E A req known w = Some (resp, known', w') \<Longrightarrow> R u w'"
  using then_serve by (auto simp: proxy_handler_def split: option.splits)

lemma then_x_target_handler:
  "R u w \<Longrightarrow> x_target_handler E A encoded req known w = Some (resp, known', w') \<Longrightarrow> R u w'"
  using then_serve by (auto simp: x_target_handler_def split: option.splits)

subsection \<open>The streaming task\<close>

lemma then_recover:
  "R u w \<Longrightarrow> R u (snd (snd (recover E route job n now as tried w)))"
proof (induction "as" arbitrary: tried w)
  case (Cons a as)
  note touch = then_touch [OF Cons.prems, of a "rd_id route"]
  note sent = then_send [OF touch]
  show ?case
    by (simp add: Let_def prod.case_eq_if touch Cons.IH [OF touch] then_recovery_success [OF sent]
        Cons.IH [OF then_recovery_failure [OF sent]] split: http_result.split)
qed simp

lemma then_pump_step:
  assumes "R u w"
  shows "R u (next_world (pump_step E takes route job stream n url tried out w))"
proof -
  note r = then_read [OF assms]
  note f = then_recovery_failure [OF r]
  show ?thesis
    by (simp add: pump_step_def next_world_def Let_def prod.case_eq_if r f then_recover [OF r] then_recover [OF f]
        split: list.split sum.split option.split skipped.split)
qed

lemma then_pump:
  assumes "pump E takes route job stream n url tried out w = Some (out', w')" and "R u w"
  shows "R u w'"
proof -
  have "E = E \<longrightarrow> R u w \<longrightarrow> R u (snd (out', w'))"
  proof (rule pump.raw_induct [where P = "\<lambda>E' takes route job stream n url tried out w r.
        E' = E \<longrightarrow> R u w \<longrightarrow> R u (snd r)", OF _ assms(1)], intro impI)
    fix pump' E' takes route job stream n url tried out w r
    assume ih: "\<And>E' takes route job stream n url tried out w r. pump' E' takes route job stream n url tried out w = Some r
        \<Longrightarrow> E' = E \<longrightarrow> R u w \<longrightarrow> R u (snd r)"
      and step: "(case pump_step E' takes route job stream n url tried out w of
          PumpStop out1 w1 \<Rightarrow> Some (out1, w1)
        | PumpOn stream1 n1 url1 tried1 out1 w1 \<Rightarrow> pump' E' takes route job stream1 n1 url1 tried1 out1 w1) = Some r"
      and E: "E' = E" and u: "R u w"
    have "R u (next_world (pump_step E' takes route job stream n url tried out w))"
      unfolding E by (rule then_pump_step [OF u])
    with step ih E show "R u (snd r)"
      by (auto simp: next_world_def split: pump_next.splits)
  qed
  with assms(2) show ?thesis by simp
qed

lemma then_run_pump: "R u w \<Longrightarrow> run_pump E takes route job w = Some (out, w') \<Longrightarrow> R u w'"
  using then_pump by (simp add: run_pump_def)

subsection \<open>Probers\<close>

lemma then_finish_probe: "R u w \<Longrightarrow> R u (finish_probe E net route a w)"
  by (simp add: finish_probe_def probe_outcome_of_def Let_def prod.case_eq_if then_hook then_entry [OF bk_probe]
      split: option.split sum.split)

lemma then_finish_transport: "R u w \<Longrightarrow> R u (finish_transport (ev_libs E) net url ms a w)"
  by (simp add: finish_transport_def then_entry [OF bk_alive] split: sum.split)

lemma then_prober_examine: "R u (ps_world s) \<Longrightarrow> R u (ps_world (prober_examine s))"
  by (simp add: prober_examine_def Let_def then_entry [OF bk_touch] then_entry [OF bk_state]
      split: list.split prod.split option.split)

lemma then_prober_finish: "R u (ps_world s) \<Longrightarrow> R u (ps_world (prober_finish E net i s))"
  by (simp add: prober_finish_def prod.case_eq_if Let_def then_finish_probe)

subsection \<open>Health views\<close>

lemma then_route_tiers: "R u (set_store \<sigma> w) \<Longrightarrow> R u (set_store (snd (route_tiers r now snap \<sigma>)) w)"
proof -
  have "R u (set_store \<sigma> w) \<Longrightarrow> R u (set_store (snd (fold (count_tier r now) snap (c, \<sigma>))) w)" for c
  proof (induction snap arbitrary: c \<sigma>)
    case (Cons a snap)
    define \<sigma>1 where "\<sigma>1 = \<sigma>(a := snd (get_route_state (rd_id r) (\<sigma> a)))"
    have "R u (set_store \<sigma>1 w)"
      unfolding \<sigma>1_def set_store_upd [where f = "\<lambda>e. snd (get_route_state (rd_id r) e)"]
      by (rule then_entry [OF bk_touch Cons.prems])
    moreover have "\<exists>c'. fold (count_tier r now) (a # snap) (c, \<sigma>) = fold (count_tier r now) snap (c', \<sigma>1)"
      by (simp add: count_tier_def prod.case_eq_if Let_def flip: \<sigma>1_def) blast
    ultimately show ?case using Cons.IH by metis
  qed simp
  then show "R u (set_store \<sigma> w) \<Longrightarrow> R u (set_store (snd (route_tiers r now snap \<sigma>)) w)"
    by (simp add: route_tiers_def)
qed

lemma then_tier_counts: "R u (set_store \<sigma> w) \<Longrightarrow> R u (set_store (snd (tier_counts show_sel now snap rs \<sigma>)) w)"
proof (induction rs arbitrary: \<sigma>)
  case (Cons r rs)
  from Cons.IH [OF then_route_tiers [OF Cons.prems]] show ?case by (simp add: prod.case_eq_if Let_def)
qed simp

lemma then_route_proxies: "R u (set_store \<sigma> w) \<Longrightarrow> R u (set_store (snd (route_proxies r now snap \<sigma>)) w)"
proof (induction snap arbitrary: \<sigma>)
  case (Cons a snap)
  define \<sigma>1 where "\<sigma>1 = \<sigma>(a := snd (get_route_state (rd_id r) (\<sigma> a)))"
  have "R u (set_store \<sigma>1 w)"
    unfolding \<sigma>1_def set_store_upd [where f = "\<lambda>e. snd (get_route_state (rd_id r) e)"]
    by (rule then_entry [OF bk_touch Cons.prems])
  from Cons.IH [OF this] show ?case by (simp add: prod.case_eq_if Let_def flip: \<sigma>1_def)
qed simp

lemma then_proxy_routes: "R u w \<Longrightarrow> R u (upd_entry a (\<lambda>_. snd (proxy_routes now rs (entry_at w a))) w)"
proof (induction rs arbitrary: w)
  case Nil
  then show ?case by (simp add: upd_entry_def heap_upd_def entry_at_def)
next
  case (Cons r rs)
  define w1 where "w1 = upd_entry a (\<lambda>e. snd (get_route_state (rd_id r) e)) w"
  have "R u w1" unfolding w1_def by (rule then_entry [OF bk_touch Cons.prems])
  from Cons.IH [OF this] show ?case
    by (simp add: w1_def upd_entry_comp prod.case_eq_if Let_def)
qed

lemma then_health: "R u w \<Longrightarrow> R u (snd (health_handler E show_sel print w))"
  by (simp add: health_handler_def prod.case_eq_if Let_def then_tier_counts set_store_self)

lemma then_route_detail: "R u w \<Longrightarrow> R u (snd (route_detail_handler E print name w))"
  by (simp add: route_detail_handler_def prod.case_eq_if Let_def then_route_proxies set_store_self split: option.split)

lemma then_proxy_detail: "R u w \<Longrightarrow> R u (snd (proxy_detail_handler E print query w))"
  by (simp add: proxy_detail_handler_def prod.case_eq_if Let_def then_proxy_routes split: option.split)

end

subsection \<open>The server's steps as such a relation\<close>

definition sys_of :: "u64 option \<Rightarrow> u64 option \<Rightarrow> ('r, 'm, 'x) world \<Rightarrow> ('r, 'm) system" where
  "sys_of m1 m2 w =
     \<lparr>sy_pool = wo_pool w, sy_heap = wo_heap w, sy_lua = wo_lua w, sy_proxy_mtime = m1, sy_routes_mtime = m2\<rparr>"

definition moves :: "('r, 't, 'm) platform \<Rightarrow> ('r, 'm, 'x) world \<Rightarrow> ('r, 'm, 'x) world \<Rightarrow> bool" where
  "moves P w w' = (\<forall>m1 m2. \<exists>m1' m2'. (sys_step P)\<^sup>*\<^sup>* (sys_of m1 m2 w) (sys_of m1' m2' w'))"

text \<open>What the other tasks do while one awaits.\<close>

definition awaits_move :: "('r, 't, 'm) platform \<Rightarrow> ('h, 'u, 't, 'r, 'm, 'x) env \<Rightarrow> bool" where
  "awaits_move P E =
     (\<forall>w. moves P w (ev_read E w) \<and> (\<forall>ms. moves P w (ev_sleep E ms w))
        \<and> (\<forall>out ms. moves P w (snd (snd (ev_send E out ms w)))))"

lemma moves_same: "wo_pool w' = wo_pool w \<Longrightarrow> wo_heap w' = wo_heap w \<Longrightarrow> wo_lua w' = wo_lua w \<Longrightarrow> moves P w w'"
  by (auto simp: moves_def sys_of_def)

lemma moves_trans: "moves P u v \<Longrightarrow> moves P v w \<Longrightarrow> moves P u w"
  unfolding moves_def by (meson rtranclp_trans)

lemma moves_step: "(\<And>m1 m2. sys_step P (sys_of m1 m2 w) (sys_of m1 m2 w')) \<Longrightarrow> moves P w w'"
  unfolding moves_def by blast

lemma moves_entry:
  assumes "bookkeeping TYPE('r) f"
  shows "moves P w (upd_entry a f (w :: ('r, 'm, 'x) world))"
proof (rule moves_step)
  fix m1 m2
  show "sys_step P (sys_of m1 m2 w) (sys_of m1 m2 (upd_entry a f w))"
    using sys_entry [OF assms, of P "sys_of m1 m2 w" a] by (simp add: sys_of_def upd_entry_def)
qed

lemma moves_hook: "moves P w (w\<lparr>wo_lua := snd (pick_vm locked (wo_lua w)), wo_ext := x\<rparr>)"
proof (rule moves_step)
  fix m1 m2
  show "sys_step P (sys_of m1 m2 w)
      (sys_of m1 m2 (w\<lparr>wo_lua := snd (pick_vm locked (wo_lua w)), wo_ext := x\<rparr>))"
    using sys_hook [of P "sys_of m1 m2 w" locked] by (simp add: sys_of_def)
qed

interpretation tasks: world_moves E "\<lambda>w w'. awaits_move P E \<longrightarrow> moves P w w'" for P E
  by unfold_locales (auto simp: awaits_move_def moves_same moves_entry moves_hook intro: moves_trans)

subsection \<open>Properties\<close>

text \<open>The tasks of the code that share the server's state.\<close>

inductive task :: "('h, 'u, 't, 'r, 'm, 'x) env \<Rightarrow> ('r, 'm, 'x) app \<Rightarrow> ('r, 'm, 'x) world \<Rightarrow> ('r, 'm, 'x) world \<Rightarrow> bool"
  for E A where
  task_request: "proxy_handler E A req known w = Some (reply, known', w') \<Longrightarrow> task E A w w'"
| task_link: "x_target_handler E A encoded req known w = Some (reply, known', w') \<Longrightarrow> task E A w w'"
| task_stream: "run_pump E takes route job w = Some (out, w') \<Longrightarrow> task E A w w'"
| task_health: "task E A w (snd (health_handler E show_sel print w))"
| task_route: "task E A w (snd (route_detail_handler E print name w))"
| task_proxy: "task E A w (snd (proxy_detail_handler E print query w))"
| task_examine: "task E A (ps_world s) (ps_world (prober_examine s))"
| task_probe: "task E A w (finish_probe E net route a w)"
| task_transport: "task E A w (finish_transport (ev_libs E) net url ms a w)"

lemma task_moves: "task E A w w' \<Longrightarrow> awaits_move P E \<Longrightarrow> moves P w w'"
  by (induction rule: task.induct)
    (use tasks.stay tasks.then_proxy_handler tasks.then_x_target_handler tasks.then_run_pump tasks.then_health
      tasks.then_route_detail tasks.then_proxy_detail tasks.then_prober_examine tasks.then_finish_probe
      tasks.then_finish_transport in metis)+

text \<open>
  C1: The code takes no other steps than those of the server, and stays consistent. Whatever requests, links, streaming
  tasks, health views and probes run after the start-up, one after the other or interleaved at
  their awaits with each other and with hot reloads: the state they lead to is reached by steps of the server,
  a lookup by URL agrees with the list of proxies, no URL is there twice, there is a VM, and the routes are well formed.
\<close>

theorem tasks_refine_server:
  assumes "awaits_move P E" and "startup P sg h proxies routes t1 t2 = SU_Up (sys_of t1 t2 w0)"
    and "(task E A)\<^sup>*\<^sup>* w0 w"
  shows "\<exists>m1 m2. (sys_step P)\<^sup>*\<^sup>* (sys_of t1 t2 w0) (sys_of m1 m2 w)
    \<and> pool_ok (wo_pool w) (wo_heap w) \<and> lua_ok (wo_lua w)"
proof -
  have "moves P w0 w" using assms(3)
    by (induction rule: rtranclp_induct) (auto intro: moves_same moves_trans task_moves [OF _ assms(1)])
  then obtain m1 m2 where run: "(sys_step P)\<^sup>*\<^sup>* (sys_of t1 t2 w0) (sys_of m1 m2 w)"
    unfolding moves_def by blast
  have "system_ok (sys_of m1 m2 w)"
    using run by (induction rule: rtranclp_induct) (auto intro: system_ok_startup [OF assms(2)] system_ok_step)
  with run show ?thesis by (auto simp: system_ok_def sys_of_def)
qed

definition unit_platform :: "(unit, plain_table, unit) platform" where
  "unit_platform =
     \<lparr>pf_proxy_ok = (\<lambda>_. True), pf_build_ok = (\<lambda>_. True), pf_regex = (\<lambda>_. Inr ()), pf_lua = plain_ops,
      pf_new_vm = (\<lambda>_ _ _ _. Inr ((), sample_script)), pf_parent = (\<lambda>_. None)\<rparr>"

lemma unit_platform_starts:
  "\<exists>w0 :: (unit, unit, unit) world.
     startup unit_platform ((settings_from_env None (\<lambda>_. None))\<lparr>sg_vm_count := 1\<rparr>) \<lparr>hp_at = sample_store, hp_next = 0\<rparr>
       None (Inr []) None None = SU_Up (sys_of None None w0)"
proof -
  let ?sg = "(settings_from_env None (\<lambda>_. None))\<lparr>sg_vm_count := 1\<rparr>" and ?h = "\<lparr>hp_at = sample_store, hp_next = 0\<rparr>"
  have "\<exists>c. parse_router_config (\<lambda>_. Inr () :: string + unit) plain_ops sample_script = Inr c"
    by (simp add: parse_router_config_def sample_script_def parse_route_def parse_matcher_def
      parse_host_def parse_path_def get_string_def utf8_valid_ascii strip_prefix_def Let_def)
  then obtain lua where "build_from_file (\<lambda>_. Inr () :: string + unit) plain_ops (\<lambda>_. None)
      (\<lambda>_ _ _ _. Inr ((), sample_script)) (Inr []) (sg_routes_file ?sg) 1 (sg_instr_limit ?sg) = Inr lua"
    by (auto simp: build_from_file_def lua_build_def)
  then obtain p h where "startup unit_platform ?sg ?h None (Inr []) None None
      = SU_Up \<lparr>sy_pool = p, sy_heap = h, sy_lua = lua, sy_proxy_mtime = None, sy_routes_mtime = None\<rparr>"
    by (simp add: startup_def unit_platform_def load_initial_def pool_new_def)
  then show ?thesis
    by (intro exI [of _ "\<lparr>wo_heap = h, wo_pool = p, wo_lua = lua, wo_cursor = 0, wo_ext = ()\<rparr>"]) (simp add: sys_of_def)
qed

lemma tasks_refine_server_witness:
  "\<exists>w0 w :: (unit, unit, unit) world. \<exists>reply known'.
     x_target_handler (sample_env HR_Timeout HA_NoHook) sample_app ''http://t/x''
       \<lparr>in_method = ''GET'', in_headers = ph_empty, in_body = []\<rparr> [] w0 = Some (reply, known', w)
     \<and> pool_ok (wo_pool w) (wo_heap w) \<and> lua_ok (wo_lua w)"
proof -
  let ?E = "sample_env HR_Timeout HA_NoHook"
  obtain w0 :: "(unit, unit, unit) world" where up: "startup unit_platform
      ((settings_from_env None (\<lambda>_. None))\<lparr>sg_vm_count := 1\<rparr>) \<lparr>hp_at = sample_store, hp_next = 0\<rparr>
      None (Inr []) None None = SU_Up (sys_of None None w0)"
    using unit_platform_starts by blast
  have aw: "awaits_move unit_platform ?E" by (simp add: awaits_move_def moves_same)
  have "completes sample_app" by (simp add: completes_def sample_app_def)
  then obtain reply known' w where h: "x_target_handler ?E sample_app ''http://t/x''
      \<lparr>in_method = ''GET'', in_headers = ph_empty, in_body = []\<rparr> [] w0 = Some (reply, known', w)"
    using serve_Some [of sample_app ?E] by (fastforce simp: x_target_handler_def split: option.split)
  then have "(task ?E sample_app)\<^sup>*\<^sup>* w0 w" using task_link by blast
  from tasks_refine_server [OF aw up this] h show ?thesis by blast
qed

end
