(* ===== verification/Listen.thy ===== *)
theory Listen
  imports Server
begin

text \<open>
  How the servers come up: \<^verbatim>\<open>proxy-common/src/server.rs\<close> (the log filter, the listening socket),
  \<^verbatim>\<open>intermediate-proxy/src/tls.rs\<close> (the ACME configuration, the two listeners, the guard around a
  handshake) and the \<^verbatim>\<open>main\<close> of the intermediate proxy from its settings to its listeners. The calls of
  the operating system answer anything; the ACME state machine and TLS itself are libraries.
\<close>

subsection \<open>The log filter\<close>

text \<open>
  \<open>valid\<close> is the strict parser of filters, \<open>lossy\<close> the one that ignores what it does not understand.
\<close>

definition init_tracing :: "(string \<Rightarrow> 'f option) \<Rightarrow> (string \<Rightarrow> 'f) \<Rightarrow> environ \<Rightarrow> string \<Rightarrow> 'f" where
  "init_tracing valid lossy env default_level =
     (case Option.bind (env ''RUST_LOG'') valid of
        Some f \<Rightarrow> f
      | None \<Rightarrow>
          (let level = unwrap_or (env ''LOG_LEVEL'') default_level in
           unwrap_or (valid level) (lossy default_level)))"

subsection \<open>The listening socket\<close>

datatype sock_call =
    SC_New
  | SC_Reuseaddr bool
  | SC_Reuseport bool
  | SC_Bind ipv4 u16
  | SC_Listen nat

type_synonym 'x sockets = "sock_call \<Rightarrow> 'x \<Rightarrow> (string + unit) \<times> 'x"

text \<open>A call whose failure is a panic with the given message.\<close>

definition expect_call :: "'x sockets \<Rightarrow> sock_call \<Rightarrow> string \<Rightarrow> 'x \<Rightarrow> (panic + unit) \<times> 'x" where
  "expect_call sys call msg x =
     (case sys call x of
        (Inl e, x1) \<Rightarrow> (Inl (Panic (msg @ '': '' @ e)), x1)
      | (Inr u, x1) \<Rightarrow> (Inr u, x1))"

fun expect_calls :: "'x sockets \<Rightarrow> (sock_call \<times> string) list \<Rightarrow> 'x \<Rightarrow> (panic + unit) \<times> 'x" where
  "expect_calls sys [] x = (Inr (), x)"
| "expect_calls sys ((call, msg) # calls) x =
     (case expect_call sys call msg x of
        (Inl p, x1) \<Rightarrow> (Inl p, x1)
      | (Inr u, x1) \<Rightarrow> expect_calls sys calls x1)"

definition bind_calls :: "u16 \<Rightarrow> (sock_call \<times> string) list" where
  "bind_calls port =
     [(SC_New, ''failed to create socket''), (SC_Reuseaddr True, ''failed to set SO_REUSEADDR''),
      (SC_Reuseport True, ''failed to set SO_REUSEPORT''), (SC_Bind 0 port, ''failed to bind''),
      (SC_Listen 1024, ''failed to listen'')]"

definition bind_tcp :: "'x sockets \<Rightarrow> u16 \<Rightarrow> 'x \<Rightarrow> (panic + unit) \<times> 'x" where
  "bind_tcp sys port x = expect_calls sys (bind_calls port) x"

subsection \<open>TLS\<close>

record acme_config =
  ac_domains :: "string list"
  ac_contact :: "string list"
  ac_cache :: string
  ac_production :: bool

definition acme_config_of :: "string list \<Rightarrow> string \<Rightarrow> string \<Rightarrow> bool \<Rightarrow> acme_config" where
  "acme_config_of domains email cache_dir staging =
     \<lparr>ac_domains = domains, ac_contact = [''mailto:'' @ email], ac_cache = cache_dir, ac_production = (\<not> staging)\<rparr>"

record keepalive =
  ka_time_s :: nat
  ka_interval_s :: nat
  ka_retries :: nat

definition HANDSHAKE_TIMEOUT :: u64 where "HANDSHAKE_TIMEOUT = 10000"

definition guard_keepalive :: keepalive where
  "guard_keepalive = \<lparr>ka_time_s = 60, ka_interval_s = 10, ka_retries = 3\<rparr>"

text \<open>
  \<open>accepted\<close> is when the inner acceptor answers and what, if it ever does; \<open>set_keepalive\<close> is the socket
  option, whose failure is ignored.
\<close>

definition guarded_accept :: "(keepalive \<Rightarrow> 'x \<Rightarrow> bool \<times> 'x) \<Rightarrow> ('x \<Rightarrow> (u64 \<times> (string + 's)) option) \<Rightarrow> 'x
    \<Rightarrow> (string + 's) \<times> 'x" where
  "guarded_accept set_keepalive accepted x =
     (let x1 = snd (set_keepalive guard_keepalive x) in
      (case accepted x1 of
         Some (ms, r) \<Rightarrow> if ms \<le> HANDSHAKE_TIMEOUT then r else Inl ''tls handshake timed out''
       | None \<Rightarrow> Inl ''tls handshake timed out'', x1))"

text \<open>A listener: its port, the ACME configuration of its acceptor, and whether the guard is around it.\<close>

record listener =
  ln_port :: u16
  ln_acme :: "acme_config option"
  ln_guarded :: bool

definition tls_listeners :: "string list \<Rightarrow> string \<Rightarrow> string \<Rightarrow> bool \<Rightarrow> listener list" where
  "tls_listeners domains email cache_dir staging =
     [\<lparr>ln_port = 80, ln_acme = None, ln_guarded = True\<rparr>,
      \<lparr>ln_port = 443, ln_acme = Some (acme_config_of domains email cache_dir staging), ln_guarded = True\<rparr>]"

text \<open>\<^verbatim>\<open>tls::serve\<close>: a listener that cannot bind is logged, the other goes on.\<close>

definition tls_serve :: "(u16 \<Rightarrow> 'x \<Rightarrow> (string + unit) \<times> 'x) \<Rightarrow> string list \<Rightarrow> string \<Rightarrow> string \<Rightarrow> bool \<Rightarrow> 'x
    \<Rightarrow> listener list \<times> 'x" where
  "tls_serve bind_addr domains email cache_dir staging x =
     fold (\<lambda>l (ls, x). case bind_addr (ln_port l) x of
         (Inr u, x1) \<Rightarrow> (ls @ [l], x1)
       | (Inl e, x1) \<Rightarrow> (ls, x1)) (tls_listeners domains email cache_dir staging) ([], x)"

subsection \<open>The main function of the intermediate proxy\<close>

definition start_listening :: "'x sockets \<Rightarrow> (u16 \<Rightarrow> 'x \<Rightarrow> (string + unit) \<times> 'x) \<Rightarrow> listen \<Rightarrow> 'x
    \<Rightarrow> (panic + listener list) \<times> 'x" where
  "start_listening sys bind_addr how x =
     (case how of
        LS_Panic \<Rightarrow> (Inl (Panic ''TLS_ENABLED=true but DOMAINS is empty''), x)
      | LS_Tls domains email cache_dir staging \<Rightarrow>
          (let (ls, x1) = tls_serve bind_addr domains email cache_dir staging x in (Inr ls, x1))
      | LS_Plain port \<Rightarrow>
          (case bind_tcp sys port x of
             (Inl p, x1) \<Rightarrow> (Inl p, x1)
           | (Inr u, x1) \<Rightarrow> (Inr [\<lparr>ln_port = port, ln_acme = None, ln_guarded = False\<rparr>], x1)))"

text \<open>The tasks that run beside the requests, with their intervals, time limits and numbers of permits.\<close>

datatype background =
    BG_ProxyWatcher string u64
  | BG_RoutesWatcher string u64
  | BG_RouteProber nat
  | BG_TransportProber string u64 u64 nat

definition background_tasks :: "settings \<Rightarrow> background list" where
  "background_tasks sg =
     [BG_ProxyWatcher (sg_proxy_file sg) (sg_proxy_refresh_ms sg),
      BG_RoutesWatcher (sg_routes_file sg) (sg_routes_refresh_ms sg),
      BG_RouteProber (sg_max_concurrent_probes sg),
      BG_TransportProber (sg_transport_probe_url sg) (sg_transport_probe_interval_ms sg)
        (sg_transport_probe_timeout_ms sg) (sg_max_concurrent_probes sg)]"

text \<open>\<^verbatim>\<open>AppState\<close>, with the shared state it refers to.\<close>

record ('r, 'm, 'd) app_state =
  as_system :: "('r, 'm) system"
  as_max_hard_attempts :: nat
  as_dns :: "'d dns_check option"

datatype ('r, 'm, 'd) boot =
    BT_Panic panic
  | BT_Exit string
  | BT_Serving "('r, 'm, 'd) app_state" "background list" "listener list"

definition intermediate_main :: "('r, 't, 'm) platform \<Rightarrow> u64 option \<Rightarrow> environ \<Rightarrow> heap \<Rightarrow> string option
    \<Rightarrow> string + string \<Rightarrow> u64 option \<Rightarrow> u64 option \<Rightarrow> string + 'd \<Rightarrow> 'x sockets
    \<Rightarrow> (u16 \<Rightarrow> 'x \<Rightarrow> (string + unit) \<times> 'x) \<Rightarrow> 'x \<Rightarrow> ('r, 'm, 'd) boot \<times> 'x" where
  "intermediate_main P cpus env h proxies routes mtime1 mtime2 resolver sys bind_addr x =
     (let sg = settings_from_env cpus env in
      case startup P sg h proxies routes mtime1 mtime2 of
        SU_Panic p \<Rightarrow> (BT_Panic p, x)
      | SU_Exit msg \<Rightarrow> (BT_Exit msg, x)
      | SU_Up s \<Rightarrow>
          (let st = \<lparr>as_system = s, as_max_hard_attempts = sg_max_hard_attempts sg,
                as_dns = if sg_dns_check sg then from_system resolver else None\<rparr> in
           case start_listening sys bind_addr (listen_from_env env) x of
             (Inl p, x1) \<Rightarrow> (BT_Panic p, x1)
           | (Inr ls, x1) \<Rightarrow> (BT_Serving st (background_tasks sg) ls, x1)))"

subsection \<open>Lemmas\<close>

lemma expect_calls_ok:
  assumes "expect_calls sys calls x = (Inr (), x')" and "(call, msg) \<in> set calls"
  shows "\<exists>y. fst (sys call y) = Inr ()"
  using assms
proof (induction calls arbitrary: x)
  case (Cons c calls)
  obtain x1 where c: "sys (fst c) x = (Inr (), x1)" and rest: "expect_calls sys calls x1 = (Inr (), x')"
    using Cons.prems(1) by (cases c) (auto simp: expect_call_def split: prod.splits sum.splits)
  show ?case
  proof (cases "c = (call, msg)")
    case True
    with c have "fst (sys call x) = Inr ()" by simp
    then show ?thesis ..
  next
    case False
    with Cons.IH [OF rest] Cons.prems(2) show ?thesis by auto
  qed
qed simp

text \<open>A listening socket has had its port bound on every interface.\<close>

lemma bind_tcp_bound:
  assumes "bind_tcp sys port x = (Inr (), x')"
  shows "\<exists>y. fst (sys (SC_Bind 0 port) y) = Inr ()"
  by (rule expect_calls_ok [OF assms [unfolded bind_tcp_def], of _ "''failed to bind''"]) (simp add: bind_calls_def)

lemma bind_tcp_up: "(\<And>call y. fst (sys call y) = Inr ()) \<Longrightarrow> \<exists>x'. bind_tcp sys port x = (Inr (), x')"
proof -
  assume ok: "\<And>call y. fst (sys call y) = Inr ()"
  have "\<exists>x'. expect_calls sys calls x = (Inr (), x')" for calls
  proof (induction calls arbitrary: x)
    case (Cons c calls)
    obtain y where "sys (fst c) x = (Inr (), y)" using ok [of "fst c" x] by (cases "sys (fst c) x") auto
    then show ?case using Cons.IH [of y] by (cases c) (simp add: expect_call_def)
  qed simp
  then show ?thesis by (simp add: bind_tcp_def)
qed

text \<open>A connection is only served when its handshake ended within the limit.\<close>

lemma guarded_accept_in_time:
  "fst (guarded_accept sk accepted x) = Inr s \<Longrightarrow> \<exists>ms y. accepted y = Some (ms, Inr s) \<and> ms \<le> HANDSHAKE_TIMEOUT"
  by (auto simp: guarded_accept_def Let_def split: option.splits if_splits intro!: exI)

lemma tls_serve_listeners: "set (fst (tls_serve b domains email cache_dir staging x)) \<subseteq> set (tls_listeners domains email cache_dir staging)"
  by (simp add: tls_serve_def tls_listeners_def prod.case_eq_if split: sum.split)

text \<open>What the main function has set up when it serves.\<close>

lemma listen_ports:
  assumes "start_listening sys bind_addr (listen_from_env env) x = (Inr ls, x')" and "l \<in> set ls"
  shows "if env_bool env ''TLS_ENABLED'' False then ln_port l \<in> {80, 443} \<and> ln_guarded l
    else ln_port l = port_from_env env 3000 \<and> ln_acme l = None"
proof (cases "env_bool env ''TLS_ENABLED'' False")
  case True
  then obtain domains email dir staging where how: "listen_from_env env = LS_Tls domains email dir staging"
    using assms(1) by (auto simp: listen_from_env_def start_listening_def split: list.splits)
  have "set ls \<subseteq> set (tls_listeners domains email dir staging)"
    using assms(1) tls_serve_listeners [of bind_addr domains email dir staging x]
    by (simp add: start_listening_def how prod.case_eq_if)
  with assms(2) True show ?thesis by (auto simp: tls_listeners_def)
next
  case False
  then show ?thesis using assms
    by (auto simp: listen_from_env_def start_listening_def split: prod.splits sum.splits)
qed

lemma main_serving:
  assumes "intermediate_main P cpus env h proxies routes t1 t2 resolver sys bind_addr x = (BT_Serving st bgs ls, x')"
  shows "system_ok (as_system st)" and "as_dns st \<noteq> None \<longrightarrow> env_bool env ''DNS_CHECK'' True"
    and "\<exists>y. start_listening sys bind_addr (listen_from_env env) x = (Inr ls, y)"
proof -
  let ?sg = "settings_from_env cpus env"
  obtain u y where up: "startup P ?sg h proxies routes t1 t2 = SU_Up u"
    and l: "start_listening sys bind_addr (listen_from_env env) x = (Inr ls, y)"
    and s: "as_system st = u" "as_dns st = (if sg_dns_check ?sg then from_system resolver else None)"
    using assms by (auto simp: intermediate_main_def Let_def split: startup.splits prod.splits sum.splits)
  from system_ok_startup [OF up] show "system_ok (as_system st)" by (simp add: s)
  show "as_dns st \<noteq> None \<longrightarrow> env_bool env ''DNS_CHECK'' True" by (simp add: s settings_from_env_def)
  from l show "\<exists>y. start_listening sys bind_addr (listen_from_env env) x = (Inr ls, y)" by blast
qed

end
