(* ===== verification/SimpleProxy.thy ===== *)
theory SimpleProxy
  imports Incoming
begin

text \<open>
  \<^verbatim>\<open>simple-proxy\<close>: \<^verbatim>\<open>handler.rs\<close>, \<^verbatim>\<open>outbound.rs\<close>, \<^verbatim>\<open>redirect.rs\<close> and the
  configuration in \<^verbatim>\<open>main.rs\<close>. The HTTP client that executes a request is \<open>se_send\<close>; the list of the requests it
  was given is part of a run, so that what leaves the proxy can be stated.
\<close>

subsection \<open>Authentication\<close>

definition constant_time_eq :: "string \<Rightarrow> string \<Rightarrow> bool" where
  "constant_time_eq a b =
     (if length a \<noteq> length b then False
      else fold (\<lambda>(x, y) diff. diff OR (of_char x XOR of_char y)) (zip a b) (0 :: u8) = 0)"

subsection \<open>The client\<close>

definition SP_DEFAULT_PROFILE :: string where "SP_DEFAULT_PROFILE = ''chrome_137''"

record 'p outbound =
  ob_emulation :: 'p
  ob_profile :: string

text \<open>\<open>build_error\<close> is the error of building the client, if it fails.\<close>

definition outbound_new :: "(string \<Rightarrow> 'p option) \<Rightarrow> ('p \<Rightarrow> string option) \<Rightarrow> string option \<Rightarrow> string + 'p outbound" where
  "outbound_new parse_profile build_error profile =
     (let requested = (case profile of
             Some p \<Rightarrow> if trim p \<noteq> [] then trim p else SP_DEFAULT_PROFILE
           | None \<Rightarrow> SP_DEFAULT_PROFILE);
          chosen = (case parse_profile requested of
             Some e \<Rightarrow> Inr (requested, e)
           | None \<Rightarrow>
               (case parse_profile SP_DEFAULT_PROFILE of
                  Some e \<Rightarrow> Inr (SP_DEFAULT_PROFILE, e)
                | None \<Rightarrow> Inl (''built-in profile '' @ SP_DEFAULT_PROFILE @ '' is unknown'')))
      in case chosen of
           Inl e \<Rightarrow> Inl e
         | Inr (name, e) \<Rightarrow>
             (case build_error e of
                Some err \<Rightarrow> Inl (''failed to build client ('' @ name @ ''): '' @ err)
              | None \<Rightarrow> Inr \<lparr>ob_emulation = e, ob_profile = name\<rparr>))"

record outgoing =
  og_method :: string
  og_url :: string
  og_headers :: "(string \<times> string) list"
  og_body :: "string option"

definition outgoing_for :: "'h header_ops \<Rightarrow> string \<Rightarrow> string \<Rightarrow> 'h \<Rightarrow> string option \<Rightarrow> outgoing" where
  "outgoing_for H meth url headers body =
     \<lparr>og_method = meth, og_url = url, og_headers = ho_iter H headers, og_body = body\<rparr>"

definition upstream_response :: "'h header_ops \<Rightarrow> string + (u16 \<times> (string \<times> string) list \<times> body_stream)
    \<Rightarrow> string + 'h http_resp" where
  "upstream_response H res =
     (case res of
        Inl e \<Rightarrow> Inl e
      | Inr (status, headers, body) \<Rightarrow>
          Inr \<lparr>rsp_status = unwrap_or (status_from_u16 status) BAD_GATEWAY,
               rsp_headers = copy_headers_if H (\<lambda>_. True) (List.map_filter (revalidate H) headers) (ho_empty H),
               rsp_body = body\<rparr>)"

subsection \<open>Replies\<close>

definition sp_resolve_redirect :: "'u url_ops \<Rightarrow> string \<Rightarrow> string \<Rightarrow> string option" where
  "sp_resolve_redirect U location base_url =
     (if is_http_url location then Some location
      else (case uo_parse U base_url of
          None \<Rightarrow> None
        | Some base \<Rightarrow>
            if starts_with location ''//'' then Some (uo_scheme U base @ '':'' @ location)
            else map_option (uo_string U) (uo_join U base location)))"

definition sp_redirect_response :: "'h header_ops \<Rightarrow> u16 \<Rightarrow> 'h \<Rightarrow> string \<Rightarrow> ('h, body_stream) reply" where
  "sp_redirect_response H status resp_headers new_location =
     (let filtered = filter_response_headers H resp_headers;
          h1 = insert_all H cors_headers (ho_empty H);
          h2 = copy_headers_if H (\<lambda>n. n \<noteq> ''location'') (ho_iter H filtered) h1;
          h3 = (if ho_value_str H new_location then ho_insert H ''location'' new_location h2 else h2)
      in \<lparr>rp_status = status, rp_headers = h3, rp_body = RB_Full []\<rparr>)"

definition sp_stream_response :: "'h header_ops \<Rightarrow> 'h http_resp \<Rightarrow> ('h, body_stream) reply" where
  "sp_stream_response H resp =
     (let filtered = filter_response_headers H (rsp_headers resp);
          h1 = insert_all H cors_headers (ho_empty H)
      in \<lparr>rp_status = rsp_status resp, rp_headers = copy_headers_if H (\<lambda>_. True) (ho_iter H filtered) h1,
          rp_body = RB_Piped (rsp_body resp)\<rparr>)"

definition sp_relay :: "('h, 'u) libs \<Rightarrow> string \<Rightarrow> 'h http_resp \<Rightarrow> ('h, body_stream) reply" where
  "sp_relay L target_url resp =
     (let H = lb_headers L; plain = sp_stream_response H resp in
      if is_redirection (rsp_status resp)
      then (case get_str H (rsp_headers resp) ''location'' of
          Some location \<Rightarrow>
            (case sp_resolve_redirect (lb_url L) location target_url of
               Some resolved \<Rightarrow> sp_redirect_response H (rsp_status resp) (rsp_headers resp) resolved
             | None \<Rightarrow> plain)
        | None \<Rightarrow> plain)
      else plain)"

definition sp_proxy_error :: "'h header_ops \<Rightarrow> string \<Rightarrow> ('h, body_stream) reply" where
  "sp_proxy_error H e =
     (let resp = text_response H 503 (''Proxy Error: '' @ e)
      in resp\<lparr>rp_headers := ho_insert H ''x-proxy-error'' ''upstream'' (rp_headers resp)\<rparr>)"

subsection \<open>The handler\<close>

record ('h, 'u, 'x) sp_env =
  se_libs :: "('h, 'u) libs"
  se_send :: "outgoing \<Rightarrow> 'x \<Rightarrow> (string + (u16 \<times> (string \<times> string) list \<times> body_stream)) \<times> 'x"

type_synonym 'x sp_run = "outgoing list \<times> 'x"

definition sp_authorized :: "'h header_ops \<Rightarrow> string option \<Rightarrow> 'h \<Rightarrow> bool" where
  "sp_authorized H auth_token headers =
     (case auth_token of
        None \<Rightarrow> True
      | Some expected \<Rightarrow> constant_time_eq (unwrap_or (get_str H headers ''x-proxy-auth'') []) expected)"

definition sp_forward :: "('h, 'u, 'x) sp_env \<Rightarrow> 'h incoming \<Rightarrow> string \<Rightarrow> 'u \<Rightarrow> 'x sp_run
    \<Rightarrow> ('h, body_stream) reply \<times> 'x sp_run" where
  "sp_forward E req target_url parsed r =
     (let L = se_libs E; H = lb_headers L;
          filtered = filter_request_headers H (in_headers req) (unwrap_or (uo_host (lb_url L) parsed) [])
      in case to_bytes (10 * 1024 * 1024) (in_body req) of
           None \<Rightarrow> (text_response H BAD_REQUEST ''Failed to read request body'', r)
         | Some body \<Rightarrow>
             (let out = outgoing_for H (in_method req) target_url filtered (with_body (in_method req) body);
                  (raw, x) = se_send E out (snd r);
                  r1 = (fst r @ [out], x)
              in case upstream_response H raw of
                   Inl e \<Rightarrow> (sp_proxy_error H e, r1)
                 | Inr resp \<Rightarrow> (sp_relay L target_url resp, r1)))"

definition sp_handler :: "('h, 'u, 'x) sp_env \<Rightarrow> string option \<Rightarrow> 'h incoming \<Rightarrow> 'x sp_run
    \<Rightarrow> ('h, body_stream) reply \<times> 'x sp_run" where
  "sp_handler E auth_token req r =
     (let L = se_libs E; H = lb_headers L in
      if \<not> sp_authorized H auth_token (in_headers req) then (text_response H 401 ''Unauthorized'', r)
      else (case get_str H (in_headers req) ''x-target'' of
          None \<Rightarrow> (text_response H BAD_REQUEST ''Missing X-Target header'', r)
        | Some target_header \<Rightarrow>
            (case decode_target L target_header of
               None \<Rightarrow> (text_response H BAD_REQUEST ''Invalid base64 encoded URL'', r)
             | Some target_url \<Rightarrow>
                 (case uo_parse (lb_url L) target_url of
                    None \<Rightarrow> (text_response H BAD_REQUEST ''Invalid target URL'', r)
                  | Some parsed \<Rightarrow> sp_forward E req target_url parsed r))))"

text \<open>The configuration: \<open>Inl\<close> is the exit of \<^verbatim>\<open>main\<close>; an empty token is no token.\<close>

definition sp_main_state :: "(string \<Rightarrow> 'p option) \<Rightarrow> ('p \<Rightarrow> string option) \<Rightarrow> environ
    \<Rightarrow> string + 'p outbound \<times> string option \<times> u16" where
  "sp_main_state parse_profile build_error env =
     (case outbound_new parse_profile build_error (env ''IMPERSONATE'') of
        Inl e \<Rightarrow> Inl e
      | Inr ob \<Rightarrow> Inr (ob, Option.bind (env ''AUTH_TOKEN'') (\<lambda>t. if t \<noteq> [] then Some t else None),
                       port_from_env env 8080))"

subsection \<open>Lemmas\<close>

lemma of_char_u8_eq: "(of_char x :: u8) = of_char y \<longleftrightarrow> x = y"
proof -
  have "unat (of_nat (of_char c) :: u8) = of_char c" for c
    using of_char_lt_256 [of c] by (simp add: unat_of_nat del: of_nat_of_char)
  then have unat: "unat (of_char c :: u8) = (of_char c :: nat)" for c by (metis of_nat_of_char)
  show ?thesis
  proof
    assume "(of_char x :: u8) = of_char y"
    then have "unat (of_char x :: u8) = unat (of_char y :: u8)" by (rule arg_cong)
    then have "(of_char x :: nat) = of_char y" unfolding unat .
    then show "x = y" by simp
  qed simp
qed

lemma xor_zero_iff: "(a XOR b = 0) \<longleftrightarrow> a = (b :: u8)"
  by (metis xor.assoc xor.left_neutral xor_self_eq)

lemma or_zero_iff: "(a OR b = 0) \<longleftrightarrow> a = 0 \<and> b = (0 :: u8)"
  by (auto simp: bit_eq_iff bit_or_iff)

lemma diff_fold:
  "fold (\<lambda>(x, y) diff. diff OR (of_char x XOR of_char y)) ps (d :: u8) = 0
   \<longleftrightarrow> d = 0 \<and> (\<forall>(x, y)\<in>set ps. x = y)"
  by (induction ps arbitrary: d) (auto simp: or_zero_iff xor_zero_iff of_char_u8_eq)

lemma constant_time_eq_iff: "constant_time_eq a b \<longleftrightarrow> a = b"
proof -
  have "(\<forall>(x, y)\<in>set (zip a b). x = y) \<longleftrightarrow> a = b" if "length a = length b"
    using that by (induction rule: list_induct2) auto
  then show ?thesis by (auto simp: constant_time_eq_def diff_fold)
qed

text \<open>What the handler does: reply without sending anything, or send one request for an http URL.\<close>

lemma sp_forward_sends:
  assumes "sp_forward E req target_url parsed (outs, x) = (reply, outs', x')"
  shows "outs' = outs
    \<or> (\<exists>body. outs' = outs @ [outgoing_for (lb_headers (se_libs E)) (in_method req) target_url
        (filter_request_headers (lb_headers (se_libs E)) (in_headers req)
          (unwrap_or (uo_host (lb_url (se_libs E)) parsed) [])) body])"
  using assms
  by (auto simp: sp_forward_def Let_def prod.case_eq_if split: option.splits sum.splits)

lemma sp_handler_sends:
  assumes "sp_handler E auth_token req (outs, x) = (reply, outs', x')"
  shows "outs' = outs
    \<or> (sp_authorized (lb_headers (se_libs E)) auth_token (in_headers req)
       \<and> (\<exists>url parsed body. is_http_url url \<and> uo_parse (lb_url (se_libs E)) url = Some parsed
            \<and> outs' = outs @ [outgoing_for (lb_headers (se_libs E)) (in_method req) url
                (filter_request_headers (lb_headers (se_libs E)) (in_headers req)
                  (unwrap_or (uo_host (lb_url (se_libs E)) parsed) [])) body]))"
proof (cases "sp_authorized (lb_headers (se_libs E)) auth_token (in_headers req)")
  case False
  then show ?thesis using assms by (simp add: sp_handler_def Let_def)
next
  case True
  show ?thesis
  proof (cases "get_str (lb_headers (se_libs E)) (in_headers req) ''x-target''")
    case None
    then show ?thesis using assms True by (simp add: sp_handler_def Let_def)
  next
    case (Some header)
    show ?thesis
    proof (cases "decode_target (se_libs E) header")
      case None
      then show ?thesis using assms True Some by (simp add: sp_handler_def Let_def)
    next
      case url: (Some url)
      show ?thesis
      proof (cases "uo_parse (lb_url (se_libs E)) url")
        case None
        then show ?thesis using assms True Some url by (simp add: sp_handler_def Let_def)
      next
        case parsed: (Some parsed)
        then have "sp_forward E req url parsed (outs, x) = (reply, outs', x')"
          using assms True Some url by (simp add: sp_handler_def Let_def)
        from sp_forward_sends [OF this] show ?thesis
          using True parsed decode_target_http [OF url] by blast
      qed
    qed
  qed
qed

definition values_of :: "string \<Rightarrow> outgoing \<Rightarrow> string list" where
  "values_of n out = map snd (filter (\<lambda>e. fst e = n) (og_headers out))"

subsection \<open>Properties\<close>

text \<open>
  C6: The token guards the proxy. With a token configured, a request whose \<^verbatim>\<open>X-Proxy-Auth\<close> is not
  exactly the token is answered 401 and nothing is sent. Otherwise at most one request is sent, for an http or https URL, and
  it carries neither the token nor the target header, asks for the identity encoding, and names the
  URL's host, when that is a legal header value.
\<close>

theorem simple_proxy_guarded:
  assumes H: "header_laws (lb_headers (se_libs E))"
    and run: "sp_handler E auth_token req ([], x) = (reply, outs, x')"
  shows "(\<forall>token. auth_token = Some token \<longrightarrow> token \<noteq> [] \<longrightarrow>
        get_str (lb_headers (se_libs E)) (in_headers req) ''x-proxy-auth'' \<noteq> Some token \<longrightarrow>
        outs = [] \<and> rp_status reply = 401)
    \<and> length outs \<le> 1
    \<and> (\<forall>out\<in>set outs. is_http_url (og_url out) \<and> values_of ''x-proxy-auth'' out = [] \<and> values_of ''x-target'' out = []
        \<and> values_of ''accept-encoding'' out = [''identity'']
        \<and> (\<exists>parsed. uo_parse (lb_url (se_libs E)) (og_url out) = Some parsed
            \<and> (let host = unwrap_or (uo_host (lb_url (se_libs E)) parsed) []
               in values_of ''host'' out = (if ho_value_str (lb_headers (se_libs E)) host then [host] else []))))"
proof -
  let ?H = "lb_headers (se_libs E)"
  have "outs = [] \<and> rp_status reply = 401"
    if "auth_token = Some token" "token \<noteq> []" "get_str ?H (in_headers req) ''x-proxy-auth'' \<noteq> Some token" for token
  proof -
    have "\<not> sp_authorized ?H auth_token (in_headers req)"
      using that by (cases "get_str ?H (in_headers req) ''x-proxy-auth''") (simp_all add: sp_authorized_def constant_time_eq_iff)
    then show ?thesis using run by (auto simp: sp_handler_def Let_def text_response_def typed_response_def)
  qed
  moreover have "values_of n (outgoing_for ?H m u (filter_request_headers ?H h host) b)
      = header_vals ?H (filter_request_headers ?H h host) n" for n m u h host b
    by (simp add: values_of_def outgoing_for_def header_vals_def)
  note vals = this header_vals_filter_request [OF H]
  moreover note sp_handler_sends [OF run]
  ultimately show ?thesis
    by (auto simp: vals SKIP_REQUEST_HEADERS_def Let_def) (auto simp: outgoing_for_def)
qed

definition sample_sp_env :: "(plain_header_map, unit, unit) sp_env" where
  "sample_sp_env =
     \<lparr>se_libs = plain_libs\<lparr>lb_url := (lb_url plain_libs)\<lparr>uo_parse := (\<lambda>_. Some ()), uo_host := (\<lambda>_. Some ''t'')\<rparr>\<rparr>,
      se_send = (\<lambda>_ x. (Inr (204, [], []), x))\<rparr>"

definition sample_sp_request :: "plain_header_map incoming" where
  "sample_sp_request =
     \<lparr>in_method = ''GET'', in_headers = ph_append ''x-target'' ''http://t/x'' ph_empty, in_body = []\<rparr>"

lemma sample_sp_headers:
  "get_str plain_headers (in_headers sample_sp_request) ''x-target'' = Some ''http://t/x''"
  "get_str plain_headers (in_headers sample_sp_request) ''x-proxy-auth'' = None"
proof -
  have plain: "ho_to_str plain_headers = visible_ascii" "ho_append plain_headers = ph_append" "ho_empty plain_headers = ph_empty"
    by (simp_all add: plain_headers_def)
  have names: "literal_name ''x-target''" "literal_name ''x-proxy-auth''" by (simp_all add: literal_name_def)
  have val: "visible_ascii ''http://t/x''" by (simp add: visible_ascii_def)
  have vals: "header_vals plain_headers (in_headers sample_sp_request) n = (if n = ''x-target'' then [''http://t/x''] else [])" for n
    using header_vals_append [OF plain_headers_laws literal_header_ok [OF plain_headers_laws names(1) val], of ph_empty]
      header_vals_empty [OF plain_headers_laws] by (simp add: plain sample_sp_request_def)
  show "get_str plain_headers (in_headers sample_sp_request) ''x-target'' = Some ''http://t/x''"
    using val by (simp add: get_str_vals [OF plain_headers_laws names(1)] vals plain)
  show "get_str plain_headers (in_headers sample_sp_request) ''x-proxy-auth'' = None"
    by (simp add: get_str_vals [OF plain_headers_laws names(2)] vals)
qed

lemma simple_proxy_guarded_witness:
  "\<exists>reply out x'. sp_handler sample_sp_env None sample_sp_request ([], ()) = (reply, [out], x')
      \<and> values_of ''x-target'' out = []
      \<and> fst (snd (sp_handler sample_sp_env (Some ''k'') sample_sp_request ([], ()))) = []"
proof -
  have laws: "header_laws (lb_headers (se_libs sample_sp_env))" using plain_libs_laws by (simp add: sample_sp_env_def)
  have ops: "lb_headers (se_libs sample_sp_env) = plain_headers" "lb_b64_decode (se_libs sample_sp_env) s = Some s"
    "uo_parse (lb_url (se_libs sample_sp_env)) s = Some ()" "se_send sample_sp_env out x = (Inr (204, [], []), x)" for s out x
    by (simp_all add: sample_sp_env_def plain_libs_def)
  have target: "decode_target (se_libs sample_sp_env) ''http://t/x'' = Some ''http://t/x''"
    by (simp add: decode_target_def ops is_http_url_def starts_with_def utf8_valid_ascii)
  obtain reply outs x' where run: "sp_handler sample_sp_env None sample_sp_request ([], ()) = (reply, outs, x')"
    by (metis prod_cases3)
  have "in_body sample_sp_request = []" by (simp add: sample_sp_request_def)
  then have "length outs = 1"
    using run
    by (auto simp: sp_handler_def sp_authorized_def ops sample_sp_headers target sp_forward_def to_bytes_def Let_def
        split: sum.splits)
  then obtain out where "outs = [out]" by (metis One_nat_def length_0_conv length_Suc_conv)
  moreover from this have "values_of ''x-target'' out = []"
    using simple_proxy_guarded [OF laws run] by simp
  moreover obtain r2 o2 y2 where run2: "sp_handler sample_sp_env (Some ''k'') sample_sp_request ([], ()) = (r2, o2, y2)"
    by (metis prod_cases3)
  moreover have "o2 = []"
    using simple_proxy_guarded [OF laws run2] by (simp add: ops sample_sp_headers)
  ultimately show ?thesis using run by simp
qed

end
