(* ===== verification/IpFilter.thy ===== *)
theory IpFilter
  imports NetAddr
begin

text \<open>
  \<^verbatim>\<open>simple-ipv6-proxy/src/filter.rs\<close>: which resolved addresses a request may not reach. The reference
  is a table of CIDR prefixes; \<open>is_blocked_ip_table\<close> shows that the octet and segment tests of the code decide
  exactly membership in it.
\<close>

subsection \<open>The filter\<close>

definition is_blocked_v4 :: "ipv4 \<Rightarrow> bool" where
  "is_blocked_v4 ip =
     (if is_unspecified4 ip \<or> is_loopback4 ip \<or> is_private4 ip \<or> is_link_local4 ip \<or> is_broadcast4 ip
         \<or> is_multicast4 ip \<or> is_documentation4 ip then True
      else (let o4 = octets4 ip in
        if o4 ! 0 = 0 then True
        else if o4 ! 0 = 100 \<and> 64 \<le> o4 ! 1 \<and> o4 ! 1 < 128 then True
        else if o4 ! 0 = 192 \<and> o4 ! 1 = 0 \<and> o4 ! 2 = 0 then True
        else if o4 ! 0 = 192 \<and> o4 ! 1 = 88 \<and> o4 ! 2 = 99 then True
        else if o4 ! 0 = 198 \<and> (o4 ! 1 = 18 \<or> o4 ! 1 = 19) then True
        else if 240 \<le> o4 ! 0 then True
        else False))"

definition is_blocked_v6 :: "ipv6 \<Rightarrow> bool" where
  "is_blocked_v6 ip =
     (if is_unspecified6 ip \<or> is_loopback6 ip \<or> is_multicast6 ip then True
      else (let s = segments ip in
        if s ! 0 AND 0xffc0 = 0xfe80 then True
        else if s ! 0 AND 0xfe00 = 0xfc00 then True
        else if s ! 0 = 0x2001 \<and> s ! 1 = 0x0db8 then True
        else if s ! 0 = 0x0064 \<and> s ! 1 = 0xff9b \<and> s ! 2 = 0x0001 then True
        else False))"

definition is_blocked_ip :: "ip_addr \<Rightarrow> bool" where
  "is_blocked_ip ip =
     (case ip of
        V4 v4 \<Rightarrow> is_blocked_v4 v4
      | V6 v6 \<Rightarrow>
          (case to_ipv4_mapped v6 of
             Some mapped \<Rightarrow> is_blocked_v4 mapped
           | None \<Rightarrow> is_blocked_v6 v6))"

subsection \<open>The reference: CIDR prefixes\<close>

definition blocked_v4_table :: "(ipv4 \<times> nat) list" where
  "blocked_v4_table =
     [(0x00000000, 8), (0x0A000000, 8), (0x64400000, 10), (0x7F000000, 8), (0xA9FE0000, 16), (0xAC100000, 12),
      (0xC0000000, 24), (0xC0000200, 24), (0xC0586300, 24), (0xC0A80000, 16), (0xC6120000, 15), (0xC6336400, 24),
      (0xCB007100, 24), (0xE0000000, 4), (0xF0000000, 4)]"

definition blocked_v6_table :: "(ipv6 \<times> nat) list" where
  "blocked_v6_table =
     [(0, 128), (1, 128), (of_segments [0xff00, 0, 0, 0, 0, 0, 0, 0], 8), (of_segments [0xfe80, 0, 0, 0, 0, 0, 0, 0], 10),
      (of_segments [0xfc00, 0, 0, 0, 0, 0, 0, 0], 7), (of_segments [0x2001, 0xdb8, 0, 0, 0, 0, 0, 0], 32),
      (of_segments [0x64, 0xff9b, 1, 0, 0, 0, 0, 0], 48)]"

definition mapped_prefix :: "ipv6 \<times> nat" where
  "mapped_prefix = (of_segments [0, 0, 0, 0, 0, 0xffff, 0, 0], 96)"

subsection \<open>Octets as numbers\<close>

lemma octets4_eq: "octets4 a = [octet 4 a 0, octet 4 a 1, octet 4 a 2, octet 4 a 3]"
  by (simp add: octets4_def upt_rec numeral_2_eq_2 numeral_3_eq_3)

lemma unat_drop_bit_div: "unat (drop_bit k a) = unat a div 2 ^ k"
  unfolding unat_drop_bit_eq by (rule drop_bit_eq_div)

lemma unat_octet: "unat (octet n a i) = unat a div 2 ^ (8 * (n - 1 - i)) mod 256"
  by (simp only: octet_def unsigned_ucast_eq unsigned_take_bit_eq unat_drop_bit_div take_bit_eq_mod) simp

text \<open>An IPv4 address by its four octets as numbers.\<close>

lemma octets4_nat:
  fixes a :: ipv4
  obtains o1 o2 o3 o4 :: nat where "o1 < 256" "o2 < 256" "o3 < 256" "o4 < 256"
    and "unat a = ((o1 * 256 + o2) * 256 + o3) * 256 + o4"
    and "unat (octet 4 a 0) = o1" "unat (octet 4 a 1) = o2" "unat (octet 4 a 2) = o3" "unat (octet 4 a 3) = o4"
proof -
  define n where "n = unat a"
  have n: "n < 4294967296" using unsigned_less [of a] by (simp add: n_def)
  define x y z where "x = n div 256" and "y = x div 256" and "z = y div 256"
  have z: "z = n div 16777216" and y: "y = n div 65536" by (simp_all add: x_def y_def z_def div_mult2_eq [symmetric])
  have "unat (octet 4 a 0) = z" "unat (octet 4 a 1) = y mod 256" "unat (octet 4 a 2) = x mod 256"
    "unat (octet 4 a 3) = n mod 256"
    using n by (simp_all add: unat_octet n_def [symmetric] x_def y z)
  moreover have "n = x * 256 + n mod 256" "x = y * 256 + x mod 256" "y = z * 256 + y mod 256"
    unfolding x_def y_def z_def by (simp_all only: div_mult_mod_eq)
  then have "unat a = ((z * 256 + y mod 256) * 256 + x mod 256) * 256 + n mod 256"
    unfolding n_def by simp
  moreover have "z < 256" using n by (simp add: z)
  ultimately show ?thesis by (intro that [of z "y mod 256" "x mod 256" "n mod 256"]) simp_all
qed

lemma in_prefix_div:
  fixes a :: "'a::len word"
  shows "in_prefix a (b, l) = (unat a div 2 ^ (LENGTH('a) - l) = unat b div 2 ^ (LENGTH('a) - l))"
  by (simp only: in_prefix_def word_unat_eq_iff unat_drop_bit_div fst_conv snd_conv)

text \<open>Leading parts of a number given by its octets.\<close>

lemma octets_div:
  fixes o1 o2 o3 o4 n :: nat
  assumes "n = ((o1 * 256 + o2) * 256 + o3) * 256 + o4" and "o2 < 256" "o3 < 256" "o4 < 256"
  shows "n div 2 ^ 24 = o1" "n div 2 ^ 16 = o1 * 256 + o2" "n div 2 ^ 8 = (o1 * 256 + o2) * 256 + o3"
    "n div 2 ^ 28 = o1 div 16" "n div 2 ^ 22 = (o1 * 256 + o2) div 64" "n div 2 ^ 20 = (o1 * 256 + o2) div 16"
    "n div 2 ^ 17 = (o1 * 256 + o2) div 2"
proof -
  have 8: "n div 256 = (o1 * 256 + o2) * 256 + o3" using assms by simp
  have "n div 256 div 256 = o1 * 256 + o2" using assms by (simp add: 8)
  then have 16: "n div 65536 = o1 * 256 + o2" by (simp add: div_mult2_eq [symmetric])
  have "n div 65536 div 256 = o1" using assms by (simp add: 16)
  then have 24: "n div 16777216 = o1" by (simp add: div_mult2_eq [symmetric])
  show "n div 2 ^ 24 = o1" "n div 2 ^ 16 = o1 * 256 + o2" "n div 2 ^ 8 = (o1 * 256 + o2) * 256 + o3"
    using 8 16 24 by simp_all
  show "n div 2 ^ 28 = o1 div 16" "n div 2 ^ 22 = (o1 * 256 + o2) div 64" "n div 2 ^ 20 = (o1 * 256 + o2) div 16"
    "n div 2 ^ 17 = (o1 * 256 + o2) div 2"
  proof -
    have "n div 268435456 = n div 16777216 div 16" "n div 4194304 = n div 65536 div 64"
      "n div 1048576 = n div 65536 div 16" "n div 131072 = n div 65536 div 2"
      by (simp_all add: div_mult2_eq [symmetric])
    then show "n div 2 ^ 28 = o1 div 16" "n div 2 ^ 22 = (o1 * 256 + o2) div 64"
      "n div 2 ^ 20 = (o1 * 256 + o2) div 16" "n div 2 ^ 17 = (o1 * 256 + o2) div 2"
      unfolding 16 24 by simp_all
  qed
qed

lemma div_eq_range:
  fixes k m q :: nat
  assumes "0 < k"
  shows "(m div k = q) = (q * k \<le> m \<and> m < q * k + k)"
proof
  assume "m div k = q"
  then show "q * k \<le> m \<and> m < q * k + k"
    using div_mult_mod_eq [of m k] mod_less_divisor [OF assms, of m] by auto
next
  assume "q * k \<le> m \<and> m < q * k + k"
  then show "m div k = q" by (intro div_nat_eqI) (simp_all add: algebra_simps)
qed

lemma low_octet_eq: "b < 256 \<Longrightarrow> (a * 256 + b = c) = (a = c div 256 \<and> b = c mod 256)" for a b c :: nat
  by auto

lemma high_bits_eq:
  fixes a b c k m :: nat
  assumes "b < 256" and "256 = m * k" and "0 < k"
  shows "((a * 256 + b) div k = c) = (a = c div m \<and> b div k = c mod m)"
proof -
  have "(a * 256 + b) div k = a * m + b div k"
    using assms(3) by (simp add: assms(2) mult.assoc [symmetric])
  moreover have "b div k < m" using assms by (simp add: less_mult_imp_div_less)
  ultimately show ?thesis by auto
qed

lemma is_blocked_v4_table: "is_blocked_v4 ip = list_ex (in_prefix ip) blocked_v4_table"
proof -
  obtain o1 o2 o3 o4 :: nat where b: "o1 < 256" "o2 < 256" "o3 < 256" "o4 < 256"
    and n: "unat ip = ((o1 * 256 + o2) * 256 + o3) * 256 + o4"
    and o: "unat (octet 4 ip 0) = o1" "unat (octet 4 ip 1) = o2" "unat (octet 4 ip 2) = o3" "unat (octet 4 ip 3) = o4"
    by (rule octets4_nat)
  note d = octets_div [OF n b(2-4)]
  have code: "is_blocked_v4 ip \<longleftrightarrow>
      o1 = 0 \<or> o1 = 10 \<or> o1 = 100 \<and> 64 \<le> o2 \<and> o2 < 128 \<or> o1 = 127 \<or> o1 = 169 \<and> o2 = 254
      \<or> o1 = 172 \<and> 16 \<le> o2 \<and> o2 \<le> 31 \<or> o1 = 192 \<and> o2 = 0 \<and> o3 = 0 \<or> o1 = 192 \<and> o2 = 0 \<and> o3 = 2
      \<or> o1 = 192 \<and> o2 = 88 \<and> o3 = 99 \<or> o1 = 192 \<and> o2 = 168 \<or> o1 = 198 \<and> (o2 = 18 \<or> o2 = 19)
      \<or> o1 = 198 \<and> o2 = 51 \<and> o3 = 100 \<or> o1 = 203 \<and> o2 = 0 \<and> o3 = 113 \<or> 224 \<le> o1 \<and> o1 < 240 \<or> 240 \<le> o1"
  proof -
    have zero: "ip = 0 \<Longrightarrow> o1 = 0" using n by simp
    show ?thesis
      unfolding is_blocked_v4_def is_unspecified4_def is_loopback4_def is_private4_def is_link_local4_def
        is_broadcast4_def is_multicast4_def is_documentation4_def Let_def octets4_eq
      using zero
      by (simp add: word_unat_eq_iff word_le_nat_alt word_less_nat_alt o o(2) [unfolded One_nat_def])
  qed
  have p: "in_prefix ip (c, 24) = (unat ip div 2 ^ 8 = unat c div 2 ^ 8)"
    "in_prefix ip (c, 16) = (unat ip div 2 ^ 16 = unat c div 2 ^ 16)"
    "in_prefix ip (c, 8) = (unat ip div 2 ^ 24 = unat c div 2 ^ 24)"
    "in_prefix ip (c, 10) = (unat ip div 2 ^ 22 = unat c div 2 ^ 22)"
    "in_prefix ip (c, 12) = (unat ip div 2 ^ 20 = unat c div 2 ^ 20)"
    "in_prefix ip (c, 15) = (unat ip div 2 ^ 17 = unat c div 2 ^ 17)"
    "in_prefix ip (c, 4) = (unat ip div 2 ^ 28 = unat c div 2 ^ 28)" for c
    by (simp_all add: in_prefix_div)
  have q: "((o1 * 256 + o2) * 256 + o3 = c) = ((o1 = c div 256 div 256 \<and> o2 = c div 256 mod 256) \<and> o3 = c mod 256)"
    "(o1 * 256 + o2 = c) = (o1 = c div 256 \<and> o2 = c mod 256)"
    "((o1 * 256 + o2) div 64 = c) = (o1 = c div 4 \<and> o2 div 64 = c mod 4)"
    "((o1 * 256 + o2) div 16 = c) = (o1 = c div 16 \<and> o2 div 16 = c mod 16)"
    "((o1 * 256 + o2) div 2 = c) = (o1 = c div 128 \<and> o2 div 2 = c mod 128)" for c
    using b by (simp_all only: low_octet_eq) (rule high_bits_eq; simp)+
  note r = p [unfolded d q]
  have cidr: "in_prefix ip (0x00000000, 8) \<longleftrightarrow> o1 = 0" "in_prefix ip (0x0A000000, 8) \<longleftrightarrow> o1 = 10"
    "in_prefix ip (0x64400000, 10) \<longleftrightarrow> o1 = 100 \<and> 64 \<le> o2 \<and> o2 < 128"
    "in_prefix ip (0x7F000000, 8) \<longleftrightarrow> o1 = 127" "in_prefix ip (0xA9FE0000, 16) \<longleftrightarrow> o1 = 169 \<and> o2 = 254"
    "in_prefix ip (0xAC100000, 12) \<longleftrightarrow> o1 = 172 \<and> 16 \<le> o2 \<and> o2 \<le> 31"
    "in_prefix ip (0xC0000000, 24) \<longleftrightarrow> o1 = 192 \<and> o2 = 0 \<and> o3 = 0"
    "in_prefix ip (0xC0000200, 24) \<longleftrightarrow> o1 = 192 \<and> o2 = 0 \<and> o3 = 2"
    "in_prefix ip (0xC0586300, 24) \<longleftrightarrow> o1 = 192 \<and> o2 = 88 \<and> o3 = 99"
    "in_prefix ip (0xC0A80000, 16) \<longleftrightarrow> o1 = 192 \<and> o2 = 168"
    "in_prefix ip (0xC6120000, 15) \<longleftrightarrow> o1 = 198 \<and> (o2 = 18 \<or> o2 = 19)"
    "in_prefix ip (0xC6336400, 24) \<longleftrightarrow> o1 = 198 \<and> o2 = 51 \<and> o3 = 100"
    "in_prefix ip (0xCB007100, 24) \<longleftrightarrow> o1 = 203 \<and> o2 = 0 \<and> o3 = 113"
    "in_prefix ip (0xE0000000, 4) \<longleftrightarrow> 224 \<le> o1 \<and> o1 < 240" "in_prefix ip (0xF0000000, 4) \<longleftrightarrow> 240 \<le> o1"
    using b(1) by (simp_all add: r) (auto simp: div_eq_range)
  show ?thesis
    unfolding code blocked_v4_table_def by (simp only: list_ex_Nil_iff list_ex_Cons_iff cidr simp_thms)
qed

text \<open>The segments of an IPv6 address as numbers: the leading part of the address, 16 bits at a time.\<close>

definition lead :: "ipv6 \<Rightarrow> nat \<Rightarrow> nat" where
  "lead a k = unat a div 2 ^ (128 - 16 * k)"

lemma lead_Suc:
  assumes "k < 8"
  shows "lead a (Suc k) = lead a k * 65536 + unat (segments a ! k)"
proof -
  have "unat (segments a ! k) = lead a (Suc k) mod 65536"
    using assms by (simp add: segments_def unsigned_ucast_eq unsigned_take_bit_eq unat_drop_bit_div take_bit_eq_mod lead_def
        diff_mult_distrib2)
  moreover have "lead a k = lead a (Suc k) div 65536"
  proof -
    have "(2::nat) ^ (128 - 16 * k) = 2 ^ (128 - 16 * Suc k) * 2 ^ 16"
      unfolding power_add [symmetric] using assms by (intro arg_cong [of _ _ "(^) 2"]) simp
    then show ?thesis by (simp add: lead_def div_mult2_eq)
  qed
  ultimately show ?thesis by (metis div_mult_mod_eq)
qed

lemma lead_0 [simp]: "lead a 0 = 0"
proof -
  have "unat a < 2 ^ 128" using unsigned_less [of a, where 'a = nat] by simp
  then show ?thesis by (simp add: lead_def)
qed

lemma segment_bound: "unat (segments a ! k) < 65536"
  using unsigned_less [of "segments a ! k"] by simp

lemma low_segment: "x < 65536 \<Longrightarrow> y < 65536 \<Longrightarrow> (a * 65536 + x = b * 65536 + y) = (a = b \<and> x = y)" for a b x y :: nat
proof -
  assume "x < 65536" and "y < 65536"
  then have "(a * 65536 + x) div 65536 = a" "(a * 65536 + x) mod 65536 = x"
    "(b * 65536 + y) div 65536 = b" "(b * 65536 + y) mod 65536 = y" by simp_all
  then show ?thesis by metis
qed

lemma same_lead:
  assumes "k \<le> 8"
  shows "(lead a k = lead b k) = (take k (segments a) = take k (segments b))"
  using assms
proof (induction k)
  case (Suc k)
  have "(lead a (Suc k) = lead b (Suc k)) = (lead a k = lead b k \<and> unat (segments a ! k) = unat (segments b ! k))"
    using Suc.prems low_segment [OF segment_bound segment_bound] by (simp add: lead_Suc)
  moreover have "take (Suc k) (segments c) = take k (segments c) @ [segments c ! k]" for c
    using Suc.prems by (intro take_Suc_conv_app_nth) (simp add: segments_def)
  ultimately show ?case using Suc by (simp add: word_unat_eq_iff)
qed simp

lemma in_prefix_lead:
  "k \<le> 8 \<Longrightarrow> in_prefix (a :: ipv6) (b, 16 * k) = (take k (segments a) = take k (segments b))"
  by (simp add: in_prefix_div lead_def flip: same_lead)

lemma mask_eq_drop_bit:
  fixes x y :: u16
  assumes "m = NOT (mask k)"
  shows "(x AND m = push_bit k y AND m) = (drop_bit k x = drop_bit k (push_bit k y))"
proof -
  have "x AND m = push_bit k (drop_bit k x)" for x :: u16
    unfolding assms by (rule bit_word_eqI) (auto simp: bit_simps)
  moreover have "drop_bit k (push_bit k (drop_bit k z)) = drop_bit k z" for z :: u16
    by (rule bit_word_eqI) (auto simp: bit_simps dest: bit_imp_le_length)
  ultimately show ?thesis by metis
qed

lemma segment0_prefix:
  "(segments a ! 0 AND 0xffc0 = 0xfe80) = in_prefix a (of_segments [0xfe80, 0, 0, 0, 0, 0, 0, 0], 10)"
  "(segments a ! 0 AND 0xfe00 = 0xfc00) = in_prefix a (of_segments [0xfc00, 0, 0, 0, 0, 0, 0, 0], 7)"
  "(octets6 a ! 0 = 255) = in_prefix a (of_segments [0xff00, 0, 0, 0, 0, 0, 0, 0], 8)"
proof -
  have s0: "unat (segments a ! 0) = unat a div 2 ^ 112"
  proof -
    have "lead a (Suc 0) = unat (segments a ! 0)" using lead_Suc [of 0 a] by simp
    then show ?thesis by (simp add: lead_def)
  qed
  have 6: "(segments a ! 0 AND 0xffc0 = 0xfe80) = (drop_bit 6 (segments a ! 0) = 0x3fa)"
    using mask_eq_drop_bit [of "0xffc0" 6 "segments a ! 0" "0x3fa"] by (simp add: mask_eq_exp_minus_1)
  have 9: "(segments a ! 0 AND 0xfe00 = 0xfc00) = (drop_bit 9 (segments a ! 0) = 0x7e)"
    using mask_eq_drop_bit [of "0xfe00" 9 "segments a ! 0" "0x7e"] by (simp add: mask_eq_exp_minus_1)
  have d: "unat a div 2 ^ 112 div 2 ^ 6 = unat a div 2 ^ 118" "unat a div 2 ^ 112 div 2 ^ 9 = unat a div 2 ^ 121"
    by (simp_all add: div_mult2_eq [symmetric])
  show "(segments a ! 0 AND 0xffc0 = 0xfe80) = in_prefix a (of_segments [0xfe80, 0, 0, 0, 0, 0, 0, 0], 10)"
    unfolding 6 unfolding word_unat_eq_iff unat_drop_bit_div s0 d by (simp add: in_prefix_div)
  show "(segments a ! 0 AND 0xfe00 = 0xfc00) = in_prefix a (of_segments [0xfc00, 0, 0, 0, 0, 0, 0, 0], 7)"
    unfolding 9 unfolding word_unat_eq_iff unat_drop_bit_div s0 d by (simp add: in_prefix_div)
  have "unat a div 2 ^ 120 mod 256 = unat a div 2 ^ 120"
    using unsigned_less [of a, where 'a = nat] by simp
  then show "(octets6 a ! 0 = 255) = in_prefix a (of_segments [0xff00, 0, 0, 0, 0, 0, 0, 0], 8)"
    by (simp add: nth_octets6 word_unat_eq_iff unat_octet in_prefix_div)
qed

lemma take_segments:
  "take 2 (segments a) = [segments a ! 0, segments a ! 1]"
  "take 3 (segments a) = [segments a ! 0, segments a ! 1, segments a ! 2]"
  by (simp_all add: segments_def upt_rec numeral_2_eq_2 numeral_3_eq_3)

lemma segments_of_segments:
  "segments (of_segments [0x2001, 0xdb8, 0, 0, 0, 0, 0, 0]) = [0x2001, 0xdb8, 0, 0, 0, 0, 0, 0]"
  "segments (of_segments [0x64, 0xff9b, 1, 0, 0, 0, 0, 0]) = [0x64, 0xff9b, 1, 0, 0, 0, 0, 0]"
  "segments (of_segments [0, 0, 0, 0, 0, 0xffff, 0, 0]) = [0, 0, 0, 0, 0, 0xffff, 0, 0]"
  by (simp_all add: segments_def upt_rec)

lemma is_blocked_v6_table: "is_blocked_v6 ip = list_ex (in_prefix ip) blocked_v6_table"
proof -
  have two: "(segments ip ! 0 = 0x2001 \<and> segments ip ! 1 = 0xdb8)
      = in_prefix ip (of_segments [0x2001, 0xdb8, 0, 0, 0, 0, 0, 0], 32)"
    using in_prefix_lead [of 2 ip "of_segments [0x2001, 0xdb8, 0, 0, 0, 0, 0, 0]"]
    by (simp add: take_segments(1) [of ip] segments_of_segments del: of_segments.simps)
  have three: "(segments ip ! 0 = 0x64 \<and> segments ip ! 1 = 0xff9b \<and> segments ip ! 2 = 1)
      = in_prefix ip (of_segments [0x64, 0xff9b, 1, 0, 0, 0, 0, 0], 48)"
    using in_prefix_lead [of 3 ip "of_segments [0x64, 0xff9b, 1, 0, 0, 0, 0, 0]"]
    by (simp add: take_segments(2) [of ip] segments_of_segments del: of_segments.simps)
  have exact: "in_prefix ip (b, 128) = (ip = b)" for b by (simp add: in_prefix_def)
  have or: "(if P then True else Q) = (P \<or> Q)" for P Q by simp
  show ?thesis
    unfolding is_blocked_v6_def is_unspecified6_def is_loopback6_def is_multicast6_def Let_def segment0_prefix two three
      blocked_v6_table_def
    by (simp only: or list_ex_Nil_iff list_ex_Cons_iff exact simp_thms disj_assoc)
qed

lemma to_ipv4_mapped_eq: "to_ipv4_mapped ip = (if in_prefix ip mapped_prefix then Some (ucast ip) else None)"
proof -
  have eq: "(take 6 (segments ip) = [0, 0, 0, 0, 0, 0xffff]) = in_prefix ip mapped_prefix"
    using in_prefix_lead [of 6 ip "fst mapped_prefix"] by (simp add: mapped_prefix_def segments_of_segments del: of_segments.simps)
  have "(of_octets (drop 12 (octets6 ip)) :: ipv4) = ucast ip"
  proof (rule bit_word_eqI)
    fix k assume "k < LENGTH(32)"
    then have k: "k < 32" by simp
    then have "bit (of_octets (drop 12 (octets6 ip)) :: ipv4) k = bit (octets6 ip ! (15 - k div 8)) (k mod 8)"
      by (simp add: bit_of_octets)
    also have "\<dots> = bit ip k" using k by (simp add: bit_octets6)
    finally show "bit (of_octets (drop 12 (octets6 ip)) :: ipv4) k = bit (ucast ip :: ipv4) k"
      using k by (simp add: bit_simps)
  qed
  then show ?thesis unfolding to_ipv4_mapped_def eq by simp
qed

subsection \<open>Properties\<close>

text \<open>
  C15: The filter is exactly a table of CIDR prefixes. An IPv4 address is blocked if and only if it lies in one
  of the fifteen IPv4 prefixes; an IPv6 address is judged as IPv4 by its low 32 bits if it lies in
  \<^verbatim>\<open>::ffff:0:0/96\<close>, and otherwise is blocked if and only if it lies in one of the seven IPv6 prefixes.
\<close>

theorem is_blocked_ip_table:
  "is_blocked_ip ip =
    (case ip of
       V4 v4 \<Rightarrow> list_ex (in_prefix v4) blocked_v4_table
     | V6 v6 \<Rightarrow>
         if in_prefix v6 mapped_prefix then list_ex (in_prefix (ucast v6)) blocked_v4_table
         else list_ex (in_prefix v6) blocked_v6_table)"
  by (cases ip)
    (simp_all only: is_blocked_ip_def ip_addr.case to_ipv4_mapped_eq is_blocked_v4_table is_blocked_v6_table
      option.case if_distrib [of "case_option _ _"] cong: if_cong)

text \<open>The NAT64 image of an internal IPv4 address under the well-known prefix passes.\<close>

lemma nat64_passes:
  "\<not> is_blocked_ip (V6 (of_segments [0x64, 0xff9b, 0, 0, 0, 0, 0x0a00, 0x0001]))
   \<and> is_blocked_ip (V4 0x0a000001)"
  by (simp add: is_blocked_ip_def is_blocked_v4_table is_blocked_v6_table to_ipv4_mapped_eq blocked_v4_table_def
      blocked_v6_table_def mapped_prefix_def in_prefix_def)

end
