(* ===== verification/Subnet.thy ===== *)
theory Subnet
  imports NetAddr
begin

text \<open>
  \<^verbatim>\<open>simple-ipv6-proxy/src/subnet.rs\<close>: the source subnet, its parsing, and the drawing of a random
  source address. The random bytes are an argument. The two byte loops are shown to be the mask operations on the
  address as a 128-bit word.
\<close>

record subnet =
  sn_prefix :: ipv6
  sn_prefix_len :: u8

subsection \<open>The code\<close>

text \<open>\<^verbatim>\<open>((1u16 << host_bits) - 1) as u8\<close>\<close>

definition host_mask :: "nat \<Rightarrow> u8" where
  "host_mask host_bits = ucast (push_bit host_bits (1 :: u16) - 1)"

text \<open>One round of each loop; \<open>i\<close> is the index of the byte.\<close>

definition mask_byte :: "u8 list \<Rightarrow> nat \<Rightarrow> nat \<Rightarrow> u8" where
  "mask_byte bytes plen i =
     (let bit_start = i * 8; bit_end = bit_start + 8 in
      if bit_end \<le> plen then bytes ! i
      else if plen \<le> bit_start then 0
      else bytes ! i AND NOT (host_mask (bit_end - plen)))"

definition mask_prefix :: "ipv6 \<Rightarrow> u8 \<Rightarrow> ipv6" where
  "mask_prefix ip prefix_len = of_octets (map (mask_byte (octets6 ip) (unat prefix_len)) [0..<16])"

definition random_byte :: "u8 list \<Rightarrow> u8 list \<Rightarrow> nat \<Rightarrow> nat \<Rightarrow> u8" where
  "random_byte prefix_bytes rnd plen i =
     (let bit_start = i * 8; bit_end = bit_start + 8 in
      if plen \<le> bit_start then rnd ! i
      else if plen < bit_end
      then (prefix_bytes ! i AND NOT (host_mask (bit_end - plen))) OR (rnd ! i AND host_mask (bit_end - plen))
      else prefix_bytes ! i)"

definition random_addr :: "u8 list \<Rightarrow> subnet \<Rightarrow> ipv6" where
  "random_addr rnd s =
     (let plen = unat (sn_prefix_len s) in
      if plen = 128 then sn_prefix s
      else of_octets (map (random_byte (octets6 (sn_prefix s)) rnd plen) [0..<16]))"

definition split_once :: "char \<Rightarrow> string \<Rightarrow> (string \<times> string) option" where
  "split_once d s = map_option (\<lambda>i. (take i s, drop (Suc i) s)) (find_idx (\<lambda>c. c = d) s)"

definition parse_subnet :: "string \<Rightarrow> subnet option" where
  "parse_subnet s =
     (case split_once (CHR ''/'') (trim s) of
        None \<Rightarrow> None
      | Some (addr_str, prefix_str) \<Rightarrow>
          (case parse_uint 8 prefix_str of
             None \<Rightarrow> None
           | Some n \<Rightarrow>
               (let prefix_len = of_nat n :: u8 in
                if 128 < prefix_len then None
                else (case parse_ipv6 addr_str of
                    None \<Rightarrow> None
                  | Some ip \<Rightarrow> Some \<lparr>sn_prefix = mask_prefix ip prefix_len, sn_prefix_len = prefix_len\<rparr>))))"

definition subnet_from_env :: "(string \<Rightarrow> string option) \<Rightarrow> subnet option" where
  "subnet_from_env env = Option.bind (env ''IPV6_SUBNET'') parse_subnet"

subsection \<open>The loops as mask operations\<close>

lemma bit_host_mask:
  assumes "0 < h" and "h < 8"
  shows "bit (host_mask h) k = (k < h)"
proof -
  have "push_bit h (1 :: u16) - 1 = mask h"
    by (simp add: mask_eq_exp_minus_1 push_bit_eq_mult)
  then show ?thesis using assms by (simp add: host_mask_def bit_simps) auto
qed

text \<open>\<open>bit_start\<close> of byte \<open>i\<close> counts from the front, bit numbers of a word from the back.\<close>

lemma mask_prefix_word:
  assumes "unat len \<le> 128"
  shows "mask_prefix ip len = ip AND NOT (mask (128 - unat len))"
  unfolding mask_prefix_def
proof (rule of_octets6_eqI)
  fix i k :: nat
  assume i: "i < 16" and k: "k < 8"
  let ?p = "8 * (15 - i) + k"
  have p: "?p < 128" using i k by simp
  have "bit (mask_byte (octets6 ip) (unat len) i) k = (bit ip ?p \<and> 128 - unat len \<le> ?p)"
  proof (cases "i * 8 + 8 \<le> unat len")
    case True
    then have "128 - unat len \<le> ?p" by simp
    with True i k show ?thesis by (simp add: mask_byte_def bit_octets6)
  next
    case nofull: False
    show ?thesis
    proof (cases "unat len \<le> i * 8")
      case True
      then have "\<not> 128 - unat len \<le> ?p" using i k by linarith
      with True nofull show ?thesis by (simp add: mask_byte_def)
    next
      case False
      define h where "h = i * 8 + 8 - unat len"
      have h: "0 < h" "h < 8" using nofull False by (simp_all add: h_def)
      have "(128 - unat len \<le> ?p) = (\<not> k < h)" using i k False nofull by (auto simp: h_def)
      with nofull False i k show ?thesis
        by (simp add: mask_byte_def h_def [symmetric] bit_octets6 bit_and_iff bit_not_iff bit_host_mask [OF h])
    qed
  qed
  with i k p show "bit (map (mask_byte (octets6 ip) (unat len)) [0..<16] ! i) k = bit (ip AND NOT (mask (128 - unat len))) ?p"
    by (simp add: bit_simps not_less)
qed simp

lemma random_addr_word:
  assumes "unat (sn_prefix_len s) \<le> 128" and "length rnd = 16"
  shows "random_addr rnd s =
    (sn_prefix s AND NOT (mask (128 - unat (sn_prefix_len s))))
      OR (of_octets rnd AND mask (128 - unat (sn_prefix_len s)))"
proof (cases "unat (sn_prefix_len s) = 128")
  case True
  then show ?thesis by (simp add: random_addr_def)
next
  case no128: False
  let ?len = "unat (sn_prefix_len s)"
  let ?a = "sn_prefix s" and ?r = "of_octets rnd :: ipv6"
  have "of_octets (map (random_byte (octets6 ?a) rnd ?len) [0..<16])
      = (?a AND NOT (mask (128 - ?len))) OR (?r AND mask (128 - ?len))"
  proof (rule of_octets6_eqI)
    fix i k :: nat
    assume i: "i < 16" and k: "k < 8"
    let ?p = "8 * (15 - i) + k"
    have p: "?p < 128" using i k by simp
    have r: "bit ?r ?p = bit (rnd ! i) k"
      using bit_octets6 [OF i, of ?r k] k by (simp add: octets6_of_octets [OF assms(2)])
    have "bit (random_byte (octets6 ?a) rnd ?len i) k
        = (if 128 - ?len \<le> ?p then bit ?a ?p else bit ?r ?p)"
    proof (cases "?len \<le> i * 8")
      case True
      then have "\<not> 128 - ?len \<le> ?p" using i k by linarith
      with True show ?thesis by (simp add: random_byte_def r)
    next
      case some: False
      show ?thesis
      proof (cases "?len < i * 8 + 8")
        case False
        then have "128 - ?len \<le> ?p" by simp
        with False some i k show ?thesis by (simp add: random_byte_def bit_octets6)
      next
        case True
        define h where "h = i * 8 + 8 - ?len"
        have h: "0 < h" "h < 8" using True some by (simp_all add: h_def)
        have "(128 - ?len \<le> ?p) = (\<not> k < h)" using i k True some by (auto simp: h_def)
        with True some i k show ?thesis
          by (simp add: random_byte_def h_def [symmetric] bit_octets6 bit_simps bit_host_mask [OF h] r)
      qed
    qed
    with i k p show "bit (map (random_byte (octets6 ?a) rnd ?len) [0..<16] ! i) k
        = bit ((?a AND NOT (mask (128 - ?len))) OR (?r AND mask (128 - ?len))) ?p"
      by (auto simp: bit_simps not_less)
  qed simp
  with no128 show ?thesis by (simp add: random_addr_def Let_def)
qed

lemma in_prefix_mask:
  fixes a b :: ipv6
  shows "in_prefix a (b, n) = (a AND NOT (mask (128 - n)) = b AND NOT (mask (128 - n)))"
proof -
  have hi: "x AND NOT (mask k) = push_bit k (drop_bit k x)" for x :: ipv6 and k
    by (rule bit_word_eqI) (auto simp: bit_simps)
  have "drop_bit k (push_bit k (drop_bit k x)) = drop_bit k x" for x :: ipv6 and k
    by (rule bit_word_eqI) (auto simp: bit_simps dest: bit_imp_le_length)
  then show ?thesis unfolding in_prefix_def hi by (simp add: hi) metis
qed

lemma parse_subnet_wf:
  assumes "parse_subnet str = Some s"
  shows "unat (sn_prefix_len s) \<le> 128
    \<and> sn_prefix s AND NOT (mask (128 - unat (sn_prefix_len s))) = sn_prefix s"
proof -
  obtain ip n where len: "\<not> 128 < (of_nat n :: u8)"
    and s: "s = \<lparr>sn_prefix = mask_prefix ip (of_nat n), sn_prefix_len = of_nat n\<rparr>"
    using assms by (auto simp: parse_subnet_def Let_def split: option.splits prod.splits if_splits)
  from len have "unat (of_nat n :: u8) \<le> 128" by (simp add: word_less_nat_alt not_less)
  then show ?thesis by (simp add: s mask_prefix_word ac_simps)
qed

lemma random_addr_in:
  assumes "parse_subnet str = Some s" and "length rnd = 16"
  shows "in_prefix (random_addr rnd s) (sn_prefix s, unat (sn_prefix_len s))"
proof -
  let ?m = "mask (128 - unat (sn_prefix_len s)) :: ipv6"
  have "random_addr rnd s = (sn_prefix s AND NOT ?m) OR (of_octets rnd AND ?m)"
    using parse_subnet_wf [OF assms(1)] assms(2) by (simp add: random_addr_word)
  then have "random_addr rnd s AND NOT ?m = sn_prefix s AND NOT ?m" by (intro bit_word_eqI) (auto simp: bit_simps)
  then show ?thesis by (simp add: in_prefix_mask)
qed

subsection \<open>Properties\<close>

text \<open>
  C16: Source rotation. A configured subnet is in canonical form, and the addresses that can be drawn from
  it are exactly the addresses that lie in it: every draw stays inside, whatever the random bytes
  are, and no address of the subnet is out of reach.
\<close>

theorem random_addr_exact:
  assumes "parse_subnet str = Some s"
  shows "(\<exists>rnd. length rnd = 16 \<and> random_addr rnd s = a) = in_prefix a (sn_prefix s, unat (sn_prefix_len s))"
proof -
  let ?m = "mask (128 - unat (sn_prefix_len s)) :: ipv6"
  note wf = parse_subnet_wf [OF assms]
  show ?thesis
  proof
    assume "\<exists>rnd. length rnd = 16 \<and> random_addr rnd s = a"
    then show "in_prefix a (sn_prefix s, unat (sn_prefix_len s))" using random_addr_in [OF assms] by blast
  next
    assume "in_prefix a (sn_prefix s, unat (sn_prefix_len s))"
    then have eq: "a AND NOT ?m = sn_prefix s AND NOT ?m" by (simp add: in_prefix_mask)
    have "random_addr (octets6 a) s = (a AND NOT ?m) OR (a AND ?m)"
      unfolding eq using wf by (simp add: random_addr_word)
    also have "\<dots> = a" by (rule bit_word_eqI) (auto simp: bit_simps)
    finally show "\<exists>rnd. length rnd = 16 \<and> random_addr rnd s = a" by (intro exI [of _ "octets6 a"]) simp
  qed
qed

lemma random_addr_exact_witness:
  "\<exists>s. parse_subnet ''::1/128'' = Some s \<and> (\<forall>rnd. length rnd = 16 \<longrightarrow> random_addr rnd s = 1)"
proof -
  have "trim ''::1/128'' = ''::1/128''" by (rule trim_graphic_ends) (simp_all add: graphic_def)
  moreover have "parse_uint 8 ''128'' = Some 128" by (simp add: parse_uint_def from_str_radix_def digit_val_def)
  moreover have "parse_ipv6 ''::1'' = Some 1" by (simp add: parse_addr_simps)
  ultimately have s: "parse_subnet ''::1/128'' = Some \<lparr>sn_prefix = 1, sn_prefix_len = 128\<rparr>"
    by (simp add: parse_subnet_def split_once_def mask_prefix_word)
  have "random_addr rnd \<lparr>sn_prefix = 1, sn_prefix_len = 128\<rparr> = 1" if "length rnd = 16" for rnd
    using random_addr_exact [OF s, of "random_addr rnd \<lparr>sn_prefix = 1, sn_prefix_len = 128\<rparr>"] that
    by (auto simp: in_prefix_def)
  with s show ?thesis by blast
qed

end
