(* ===== verification/Neighbor.thy ===== *)
theory Neighbor
  imports NetAddr Util
begin

text \<open>
  \<^verbatim>\<open>simple-ipv6-proxy/src/neighbor.rs\<close> and \<^verbatim>\<open>nonlocal_bind.rs\<close>: the neighbour
  solicitation that announces a fresh source address to the gateway, the raw socket it leaves on, and the
  reading of the default route and of the MAC address. The system calls are \<open>os_call\<close>, which may answer
  anything; files and environment variables are arguments.
\<close>

subsection \<open>The packet\<close>

definition NEIGHBOR_SOLICITATION :: u8 where "NEIGHBOR_SOLICITATION = 135"
definition SOURCE_LINK_LAYER :: u8 where "SOURCE_LINK_LAYER = 1"

text \<open>\<^verbatim>\<open>packet[lo..].copy_from_slice(bytes)\<close>\<close>

definition copy_at :: "nat \<Rightarrow> u8 list \<Rightarrow> u8 list \<Rightarrow> u8 list" where
  "copy_at lo bytes packet = take lo packet @ bytes @ drop (lo + length bytes) packet"

definition solicitation :: "ipv6 \<Rightarrow> u8 list \<Rightarrow> u8 list" where
  "solicitation gateway mac =
     (let packet = replicate 32 0;
          packet = packet[0 := NEIGHBOR_SOLICITATION];
          packet = copy_at 8 (octets6 gateway) packet;
          packet = packet[24 := SOURCE_LINK_LAYER];
          packet = packet[25 := 1]
      in copy_at 26 mac packet)"

subsection \<open>Sending it\<close>

datatype syscall =
    SysSocket
  | SysSetHops int int
  | SysBind int ipv6
  | SysSendTo int "u8 list" ipv6
  | SysClose int

record 'x os =
  os_call :: "syscall \<Rightarrow> 'x \<Rightarrow> int \<times> 'x"
  os_error :: "'x \<Rightarrow> string"

definition send_on :: "'x os \<Rightarrow> int \<Rightarrow> ipv6 \<Rightarrow> ipv6 \<Rightarrow> u8 list \<Rightarrow> 'x \<Rightarrow> (string + unit) \<times> 'x" where
  "send_on os fd source gateway packet x =
     (let (set_res, x1) = os_call os (SysSetHops fd 255) x in
      if set_res < 0 then (Inl (os_error os x1), x1)
      else (let (bound, x2) = os_call os (SysBind fd source) x1 in
        if bound < 0 then (Inl (os_error os x2), x2)
        else (let (sent, x3) = os_call os (SysSendTo fd packet gateway) x2 in
          if sent < 0 then (Inl (os_error os x3), x3) else (Inr (), x3))))"

definition send_packet :: "'x os \<Rightarrow> ipv6 \<Rightarrow> ipv6 \<Rightarrow> u8 list \<Rightarrow> 'x \<Rightarrow> (string + unit) \<times> 'x" where
  "send_packet os source gateway packet x =
     (let (fd, x1) = os_call os SysSocket x in
      if fd < 0 then (Inl (os_error os x1), x1)
      else (let (result, x2) = send_on os fd source gateway packet x1;
                (_, x3) = os_call os (SysClose fd) x2
            in (result, x3)))"

subsection \<open>The primer\<close>

record primer =
  pm_gateway :: ipv6
  pm_packet :: "u8 list"

definition WARN_EVERY :: u64 where "WARN_EVERY = 60000"

text \<open>Whether a warning is logged, and the time of the last one; \<open>now\<close> in milliseconds.\<close>

definition warn_once_a_minute :: "u64 \<Rightarrow> u64 option \<Rightarrow> bool \<times> u64 option" where
  "warn_once_a_minute now last_warn =
     (if (case last_warn of Some at \<Rightarrow> sat_sub now at < WARN_EVERY | None \<Rightarrow> False)
      then (False, last_warn) else (True, Some now))"

definition prime :: "'x os \<Rightarrow> primer \<Rightarrow> u64 \<Rightarrow> ipv6 \<Rightarrow> u64 option \<Rightarrow> 'x \<Rightarrow> u64 option \<times> 'x" where
  "prime os p now source last_warn x =
     (let (result, x1) = send_packet os source (pm_gateway p) (pm_packet p) x in
      case result of
        Inl e \<Rightarrow> (snd (warn_once_a_minute now last_warn), x1)
      | Inr _ \<Rightarrow> (last_warn, x1))"

subsection \<open>Configuration\<close>

definition env_text :: "environ \<Rightarrow> string \<Rightarrow> string option" where
  "env_text env key = (case env key of Some s \<Rightarrow> if trim s \<noteq> [] then Some s else None | None \<Rightarrow> None)"

fun mac_bytes :: "nat \<Rightarrow> string list \<Rightarrow> u8 list option" where
  "mac_bytes 0 parts = Some []"
| "mac_bytes (Suc n) [] = None"
| "mac_bytes (Suc n) (p # parts) =
     (case from_str_radix 16 8 p of
        None \<Rightarrow> None
      | Some b \<Rightarrow> map_option (\<lambda>bs. of_nat b # bs) (mac_bytes n parts))"

definition read_mac :: "string option \<Rightarrow> u8 list option" where
  "read_mac file = Option.bind file (\<lambda>text. mac_bytes 6 (split_on (CHR '':'') (trim text)))"

definition zeros :: "nat \<Rightarrow> string" where
  "zeros n = replicate n (CHR ''0'')"

definition route_of_line :: "string \<Rightarrow> (ipv6 \<times> string) option" where
  "route_of_line line =
     (let f = split_whitespace line;
          is_default = (10 \<le> length f \<and> f ! 0 = zeros 32 \<and> f ! 1 = ''00'')
      in if 4 < length f \<and> is_default \<and> f ! 4 \<noteq> zeros 32
         then map_option (\<lambda>bits. (of_nat bits, f ! 9)) (from_str_radix 16 128 (f ! 4))
         else None)"

fun find_map :: "('a \<Rightarrow> 'b option) \<Rightarrow> 'a list \<Rightarrow> 'b option" where
  "find_map f [] = None"
| "find_map f (x # xs) = (case f x of Some y \<Rightarrow> Some y | None \<Rightarrow> find_map f xs)"

definition default_route :: "string option \<Rightarrow> (ipv6 \<times> string) option" where
  "default_route table = Option.bind table (\<lambda>t. find_map route_of_line (str_lines t))"

text \<open>\<open>route_file\<close> is the routing table, \<open>mac_file\<close> the address file of an interface.\<close>

definition primer_from_env :: "environ \<Rightarrow> string option \<Rightarrow> (string \<Rightarrow> string option) \<Rightarrow> primer option" where
  "primer_from_env env route_file mac_file =
     (let dflt = default_route route_file;
          iface = (case env_text env ''NDP_IFACE'' of Some i \<Rightarrow> Some i | None \<Rightarrow> map_option snd dflt)
      in case iface of
           None \<Rightarrow> None
         | Some i \<Rightarrow>
             (let gw = (case Option.bind (env_text env ''NDP_GATEWAY'') parse_ipv6 of
                          Some g \<Rightarrow> Some g | None \<Rightarrow> map_option fst dflt)
              in case gw of
                   None \<Rightarrow> None
                 | Some gateway \<Rightarrow>
                     (case read_mac (mac_file i) of
                        None \<Rightarrow> None
                      | Some mac \<Rightarrow> Some \<lparr>pm_gateway = gateway, pm_packet = solicitation gateway mac\<rparr>)))"

subsection \<open>Non-local binding\<close>

datatype bind_state = AlreadyOn | TurnedOn | BindFailed string

definition SYSCTL_PATH :: string where "SYSCTL_PATH = ''/proc/sys/net/ipv6/ip_nonlocal_bind''"

definition ensure_nonlocal_bind :: "(string + string) \<Rightarrow> (string + unit) \<Rightarrow> bind_state" where
  "ensure_nonlocal_bind contents written =
     (case contents of
        Inr current \<Rightarrow>
          if trim current = ''1'' then AlreadyOn
          else (case written of Inr _ \<Rightarrow> TurnedOn | Inl e \<Rightarrow> BindFailed (SYSCTL_PATH @ '': '' @ e))
      | Inl e \<Rightarrow> BindFailed (SYSCTL_PATH @ '': '' @ e))"

subsection \<open>Lemmas\<close>

lemma mac_bytes_length: "mac_bytes n parts = Some bs \<Longrightarrow> length bs = n"
  by (induction n parts arbitrary: bs rule: mac_bytes.induct) (auto split: option.splits)

lemma solicitation_layout:
  assumes "length mac = 6"
  shows "solicitation gateway mac = [135, 0, 0, 0, 0, 0, 0, 0] @ octets6 gateway @ [1, 1] @ mac"
  using assms
  by (simp add: solicitation_def copy_at_def NEIGHBOR_SOLICITATION_def SOURCE_LINK_LAYER_def Let_def
      list_update_append nth_append numeral_eq_Suc)

end
