(* ===== verification/Ipv6Proxy.thy ===== *)
theory Ipv6Proxy
  imports ProxyCommon Incoming IpFilter Subnet Neighbor
begin

text \<open>
  \<^verbatim>\<open>simple-ipv6-proxy\<close>: \<^verbatim>\<open>handler.rs\<close>, \<^verbatim>\<open>connect.rs\<close>, \<^verbatim>\<open>redirect.rs\<close>,
  \<^verbatim>\<open>emulated.rs\<close> and the configuration in \<^verbatim>\<open>main.rs\<close>. The resolver, the HTTP client, the
  random bytes and the operating system are fields of \<open>v6_env\<close>; each may change the shared
  \<open>v6_world\<close> in any way, since other requests run at every await. The list of the requests handed to the HTTP
  client is kept beside the world as a history that nothing reads.
\<close>

subsection \<open>The client request\<close>

text \<open>A request as the server hands it over; the body is still to be read.\<close>

definition MAX_REQUEST_BODY :: nat where "MAX_REQUEST_BODY = 10 * 1024 * 1024"

subsection \<open>Redirects\<close>

definition resolve_redirect :: "'u url_ops \<Rightarrow> string \<Rightarrow> string \<Rightarrow> string option" where
  "resolve_redirect U location base_url =
     (if is_http_url location then Some location
      else (case uo_parse U base_url of
          None \<Rightarrow> None
        | Some base \<Rightarrow>
            if starts_with location ''//'' then Some (uo_scheme U base @ '':'' @ location)
            else map_option (uo_string U) (uo_join U base location)))"

subsection \<open>The emulating client\<close>

definition DEFAULT_PROFILE :: string where "DEFAULT_PROFILE = ''chrome_137''"

record 'p emulator =
  em_emulation :: 'p
  em_profile :: string

definition emulator_new :: "(string \<Rightarrow> 'p option) \<Rightarrow> string option \<Rightarrow> string + 'p emulator" where
  "emulator_new parse_profile profile =
     (let requested = (case profile of
             Some p \<Rightarrow> if trim p \<noteq> [] then trim p else DEFAULT_PROFILE
           | None \<Rightarrow> DEFAULT_PROFILE)
      in case parse_profile requested of
           Some e \<Rightarrow> Inr \<lparr>em_emulation = e, em_profile = requested\<rparr>
         | None \<Rightarrow>
             (case parse_profile DEFAULT_PROFILE of
                Some e \<Rightarrow> Inr \<lparr>em_emulation = e, em_profile = DEFAULT_PROFILE\<rparr>
              | None \<Rightarrow> Inl (''built-in profile '' @ DEFAULT_PROFILE @ '' is unknown'')))"

record 'h hop =
  hop_target :: "ipv6 \<times> u16"
  hop_source :: "ip_addr option"
  hop_url :: string
  hop_host :: string
  hop_method :: string
  hop_headers :: 'h
  hop_body :: string
  hop_request_timeout :: u64
  hop_connect_timeout :: u64

text \<open>What the client library is asked to do; it follows no redirects.\<close>

record 'p fetch =
  ft_emulation :: 'p
  ft_request_timeout :: u64
  ft_connect_timeout :: u64
  ft_resolve_to :: "string \<times> (ipv6 \<times> u16) list"
  ft_local_address :: "ip_addr option"
  ft_method :: string
  ft_url :: string
  ft_headers :: "(string \<times> string) list"
  ft_body :: "string option"

definition emulated_request :: "'h header_ops \<Rightarrow> 'p emulator \<Rightarrow> 'h hop \<Rightarrow> 'p fetch" where
  "emulated_request H em hop =
     \<lparr>ft_emulation = em_emulation em, ft_request_timeout = hop_request_timeout hop,
      ft_connect_timeout = hop_connect_timeout hop, ft_resolve_to = (hop_host hop, [hop_target hop]),
      ft_local_address = hop_source hop, ft_method = hop_method hop, ft_url = hop_url hop,
      ft_headers = ho_iter H (hop_headers hop),
      ft_body = (if hop_body hop \<noteq> [] then Some (hop_body hop) else None)\<rparr>"

text \<open>A raw answer of the client library: status, headers, body.\<close>

type_synonym raw_response = "u16 \<times> (string \<times> string) list \<times> body_stream"

definition append_valid :: "'h header_ops \<Rightarrow> (string \<times> string) list \<Rightarrow> 'h \<Rightarrow> 'h" where
  "append_valid H es h = copy_headers_if H (\<lambda>_. True) (List.map_filter (revalidate H) es) h"

definition emulated_response :: "'h header_ops \<Rightarrow> string + raw_response \<Rightarrow> string + 'h http_resp" where
  "emulated_response H res =
     (case res of
        Inl e \<Rightarrow> Inl e
      | Inr (status, headers, body) \<Rightarrow>
          (case status_from_u16 status of
             None \<Rightarrow> Inl ''invalid status code''
           | Some s \<Rightarrow> Inr \<lparr>rsp_status = s, rsp_headers = append_valid H headers (ho_empty H), rsp_body = body\<rparr>))"

subsection \<open>State and surroundings\<close>

record 'p v6_state =
  vs_subnet :: "subnet option"
  vs_primer :: "primer option"
  vs_connect_timeout :: u64
  vs_request_timeout :: u64
  vs_max_attempts :: u32
  vs_retry_codes :: "u16 list"
  vs_emulator :: "'p emulator"

record 'x v6_world =
  vw_last_warn :: "u64 option"
  vw_ext :: 'x

record ('h, 'u, 'p, 'x) v6_env =
  ve_libs :: "('h, 'u) libs"
  ve_os :: "'x os"
  ve_lookup :: "string \<Rightarrow> u16 \<Rightarrow> 'x v6_world \<Rightarrow> (string + (ip_addr \<times> u16) list) \<times> 'x v6_world"
  ve_random :: "'x \<Rightarrow> u8 list \<times> 'x"
  ve_fetch :: "'p fetch \<Rightarrow> 'x v6_world \<Rightarrow> (string + raw_response) \<times> 'x v6_world"
  ve_now :: "'x v6_world \<Rightarrow> u64"
  ve_show_status :: "u16 \<Rightarrow> string"

abbreviation ve_headers :: "('h, 'u, 'p, 'x) v6_env \<Rightarrow> 'h header_ops" where
  "ve_headers E \<equiv> lb_headers (ve_libs E)"

text \<open>The history of fetches with their results, and the world.\<close>

type_synonym ('h, 'p, 'x) v6_run = "('p fetch \<times> (string + 'h http_resp)) list \<times> 'x v6_world"

definition run_fetch :: "('h, 'u, 'p, 'x) v6_env \<Rightarrow> 'p fetch \<Rightarrow> ('h, 'p, 'x) v6_run
    \<Rightarrow> (string + 'h http_resp) \<times> ('h, 'p, 'x) v6_run" where
  "run_fetch E f r =
     (let (raw, w) = ve_fetch E f (snd r); res = emulated_response (ve_headers E) raw
      in (res, (fst r @ [(f, res)], w)))"

subsection \<open>Resolving\<close>

definition resolve_ipv6 :: "('h, 'u, 'p, 'x) v6_env \<Rightarrow> string \<Rightarrow> u16 \<Rightarrow> 'x v6_world
    \<Rightarrow> (string + (ipv6 \<times> u16) list) \<times> 'x v6_world" where
  "resolve_ipv6 E host port w =
     (let (res, w1) = ve_lookup E host port w
      in (map_sum id (List.map_filter (\<lambda>(ip, p). case ip of V6 v6 \<Rightarrow> Some (v6, p) | V4 _ \<Rightarrow> None)) res, w1))"

definition is_blocked_hostname :: "string \<Rightarrow> bool" where
  "is_blocked_hostname host =
     (to_ascii_lowercase host
      \<in> set [''localhost'', ''ip6-localhost'', ''ip6-loopback'', ''localhost.localdomain''])"

subsection \<open>One attempt\<close>

record 'h v6_attempt =
  va_target :: "ipv6 \<times> u16"
  va_is_https :: bool
  va_host :: string
  va_path_and_query :: string
  va_method :: string
  va_headers :: 'h
  va_body :: string

text \<open>Drawing a source address, and announcing it if there is a primer.\<close>

definition draw_source :: "('h, 'u, 'p, 'x) v6_env \<Rightarrow> 'p v6_state \<Rightarrow> 'x v6_world \<Rightarrow> ipv6 option \<times> 'x v6_world" where
  "draw_source E st w =
     (case vs_subnet st of
        None \<Rightarrow> (None, w)
      | Some s \<Rightarrow>
          (if sn_prefix_len s = 128 then (Some (random_addr [] s), w)
           else (let (rnd, x) = ve_random E (vw_ext w) in (Some (random_addr rnd s), w\<lparr>vw_ext := x\<rparr>))))"

definition announce :: "('h, 'u, 'p, 'x) v6_env \<Rightarrow> 'p v6_state \<Rightarrow> ipv6 option \<Rightarrow> 'x v6_world \<Rightarrow> 'x v6_world" where
  "announce E st source w =
     (case (source, vs_primer st) of
        (Some addr, Some p) \<Rightarrow>
          (let (lw, x) = prime (ve_os E) p (ve_now E w) addr (vw_last_warn w) (vw_ext w)
           in w\<lparr>vw_last_warn := lw, vw_ext := x\<rparr>)
      | _ \<Rightarrow> w)"

definition dispatch_v6 :: "('h, 'u, 'p, 'x) v6_env \<Rightarrow> 'p v6_state \<Rightarrow> 'h v6_attempt \<Rightarrow> ('h, 'p, 'x) v6_run
    \<Rightarrow> (string + 'h http_resp) \<times> ('h, 'p, 'x) v6_run" where
  "dispatch_v6 E st att r =
     (let (source, w1) = draw_source E st (snd r);
          w2 = announce E st source w1;
          scheme = (if va_is_https att then ''https'' else ''http'');
          url = scheme @ ''://'' @ va_host att @ va_path_and_query att;
          hop = \<lparr>hop_target = va_target att, hop_source = map_option V6 source, hop_url = url, hop_host = va_host att,
                 hop_method = va_method att, hop_headers = va_headers att, hop_body = va_body att,
                 hop_request_timeout = vs_request_timeout st, hop_connect_timeout = vs_connect_timeout st\<rparr>
      in run_fetch E (emulated_request (ve_headers E) (vs_emulator st) hop) (fst r, w2))"

subsection \<open>Replies\<close>

definition build_redirect_response :: "'h header_ops \<Rightarrow> u16 \<Rightarrow> 'h \<Rightarrow> string \<Rightarrow> ('h, body_stream) reply" where
  "build_redirect_response H status resp_headers new_location =
     (let filtered = filter_response_headers H resp_headers;
          h1 = insert_all H cors_headers (ho_empty H);
          h2 = copy_headers_if H (\<lambda>n. n \<noteq> ''location'') (ho_iter H filtered) h1;
          h3 = (if ho_value_str H new_location then ho_insert H ''location'' new_location h2 else h2)
      in \<lparr>rp_status = status, rp_headers = h3, rp_body = RB_Full []\<rparr>)"

definition build_stream_response :: "'h header_ops \<Rightarrow> u16 \<Rightarrow> 'h \<Rightarrow> body_stream \<Rightarrow> ('h, body_stream) reply" where
  "build_stream_response H status resp_headers body =
     (let filtered = filter_response_headers H resp_headers;
          h1 = insert_all H cors_headers (ho_empty H)
      in \<lparr>rp_status = status, rp_headers = copy_headers_if H (\<lambda>_. True) (ho_iter H filtered) h1,
          rp_body = RB_Piped body\<rparr>)"

text \<open>What an accepted response becomes: a rewritten redirect, or the relayed body.\<close>

definition relay_response :: "('h, 'u) libs \<Rightarrow> string \<Rightarrow> 'h http_resp \<Rightarrow> ('h, body_stream) reply" where
  "relay_response L target_url resp =
     (let H = lb_headers L; plain = build_stream_response H (rsp_status resp) (rsp_headers resp) (rsp_body resp) in
      if is_redirection (rsp_status resp)
      then (case get_str H (rsp_headers resp) ''location'' of
          Some loc \<Rightarrow>
            (case resolve_redirect (lb_url L) loc target_url of
               Some resolved \<Rightarrow> build_redirect_response H (rsp_status resp) (rsp_headers resp) resolved
             | None \<Rightarrow> plain)
        | None \<Rightarrow> plain)
      else plain)"

subsection \<open>The attempts\<close>

text \<open>
  The loop over the attempts, \<open>left\<close> of them still to come, number \<open>attempt\<close> next; \<open>mk\<close> makes the
  attempt on a target.
\<close>

fun v6_attempts :: "('h, 'u, 'p, 'x) v6_env \<Rightarrow> 'p v6_state \<Rightarrow> string \<Rightarrow> (ipv6 \<times> u16) list
    \<Rightarrow> (ipv6 \<times> u16 \<Rightarrow> 'h v6_attempt) \<Rightarrow> nat \<Rightarrow> nat \<Rightarrow> nat \<Rightarrow> string option \<Rightarrow> ('h, 'p, 'x) v6_run
    \<Rightarrow> ('h, body_stream) reply \<times> ('h, 'p, 'x) v6_run" where
  "v6_attempts E st target_url addrs mk max_attempts 0 attempt last_err r =
     (text_response (ve_headers E) BAD_GATEWAY
        (''IPv6 connection failed after '' @ show_nat max_attempts @ '' attempts: ''
           @ unwrap_or last_err ''unknown error''), r)"
| "v6_attempts E st target_url addrs mk max_attempts (Suc left) attempt last_err r =
     (let target = addrs ! (attempt mod length addrs);
          (res, r1) = dispatch_v6 E st (mk target) r
      in case res of
           Inr resp \<Rightarrow>
             (let is_last = (max_attempts \<le> attempt + 1) in
              if \<not> is_last \<and> rsp_status resp \<in> set (vs_retry_codes st)
              then v6_attempts E st target_url addrs mk max_attempts left (attempt + 1)
                     (Some (''status '' @ ve_show_status E (rsp_status resp) @ '' from '' @ show_ipv6 (fst target))) r1
              else (relay_response (ve_libs E) target_url resp, r1))
         | Inl e \<Rightarrow> v6_attempts E st target_url addrs mk max_attempts left (attempt + 1) (Some e) r1)"

subsection \<open>The handler\<close>

definition v6_text :: "('h, 'u, 'p, 'x) v6_env \<Rightarrow> u16 \<Rightarrow> string \<Rightarrow> ('h, 'p, 'x) v6_run
    \<Rightarrow> ('h, body_stream) reply \<times> ('h, 'p, 'x) v6_run" where
  "v6_text E status msg r = (text_response (ve_headers E) status msg, r)"

definition url_is_https :: "'u url_ops \<Rightarrow> 'u \<Rightarrow> bool" where
  "url_is_https U parsed = (uo_scheme U parsed = ''https'')"

definition url_port :: "'u url_ops \<Rightarrow> 'u \<Rightarrow> u16" where
  "url_port U parsed =
     (case uo_port U parsed of Some p \<Rightarrow> p | None \<Rightarrow> if url_is_https U parsed then 443 else 80)"

definition url_path_and_query :: "'u url_ops \<Rightarrow> 'u \<Rightarrow> string" where
  "url_path_and_query U parsed =
     (case uo_query U parsed of Some q \<Rightarrow> uo_path U parsed @ ''?'' @ q | None \<Rightarrow> uo_path U parsed)"

definition v6_attempt_for :: "('h, 'u, 'p, 'x) v6_env \<Rightarrow> 'h incoming \<Rightarrow> 'u \<Rightarrow> string \<Rightarrow> string
    \<Rightarrow> ipv6 \<times> u16 \<Rightarrow> 'h v6_attempt" where
  "v6_attempt_for E req parsed host body_bytes target =
     (let U = lb_url (ve_libs E) in
      \<lparr>va_target = target, va_is_https = url_is_https U parsed, va_host = host,
       va_path_and_query = url_path_and_query U parsed, va_method = in_method req,
       va_headers = filter_request_headers (ve_headers E) (in_headers req) host,
       va_body = (if in_method req \<noteq> ''GET'' \<and> in_method req \<noteq> ''HEAD'' then body_bytes else [])\<rparr>)"

text \<open>The part after the checks of the target: resolve, filter, read the body, attempt.\<close>

definition v6_forward :: "('h, 'u, 'p, 'x) v6_env \<Rightarrow> 'p v6_state \<Rightarrow> 'h incoming \<Rightarrow> string \<Rightarrow> 'u \<Rightarrow> string
    \<Rightarrow> ('h, 'p, 'x) v6_run \<Rightarrow> ('h, body_stream) reply \<times> ('h, 'p, 'x) v6_run" where
  "v6_forward E st req target_url parsed host r =
     (let (resolved, w1) = resolve_ipv6 E host (url_port (lb_url (ve_libs E)) parsed) (snd r);
          r1 = (fst r, w1)
      in case resolved of
           Inl e \<Rightarrow> v6_text E BAD_GATEWAY (''IPv6 DNS lookup failed: '' @ e) r1
         | Inr found \<Rightarrow>
             (let v6_addrs = filter (\<lambda>sa. \<not> is_blocked_ip (V6 (fst sa))) found in
              if v6_addrs = []
              then v6_text E BAD_GATEWAY (''No public IPv6 address available for '' @ host) r1
              else (case to_bytes MAX_REQUEST_BODY (in_body req) of
                  None \<Rightarrow> v6_text E BAD_REQUEST ''Failed to read request body'' r1
                | Some body_bytes \<Rightarrow>
                    (let max_attempts = unat (max (vs_max_attempts st) 1)
                     in v6_attempts E st target_url v6_addrs (v6_attempt_for E req parsed host body_bytes)
                          max_attempts max_attempts 0 None r1))))"

definition v6_handler :: "('h, 'u, 'p, 'x) v6_env \<Rightarrow> 'p v6_state \<Rightarrow> 'h incoming \<Rightarrow> ('h, 'p, 'x) v6_run
    \<Rightarrow> ('h, body_stream) reply \<times> ('h, 'p, 'x) v6_run" where
  "v6_handler E st req r =
     (let L = ve_libs E; U = lb_url L in
      case get_str (ve_headers E) (in_headers req) ''x-target'' of
        None \<Rightarrow> v6_text E BAD_REQUEST ''Missing X-Target header'' r
      | Some target_header \<Rightarrow>
          (case decode_target L target_header of
             None \<Rightarrow> v6_text E BAD_REQUEST ''Invalid base64 encoded URL'' r
           | Some target_url \<Rightarrow>
               (case uo_parse U target_url of
                  None \<Rightarrow> v6_text E BAD_REQUEST ''Invalid target URL'' r
                | Some parsed \<Rightarrow>
                    (case uo_host U parsed of
                       None \<Rightarrow> v6_text E BAD_REQUEST ''Target URL has no host'' r
                     | Some host \<Rightarrow>
                         (case parse_ip host of
                            Some literal \<Rightarrow>
                              if is_blocked_ip literal
                              then v6_text E BAD_REQUEST ''target address is internal/reserved and not allowed'' r
                              else (case literal of
                                  V4 _ \<Rightarrow> v6_text E BAD_GATEWAY ''IPv4 literal targets are not supported by this proxy'' r
                                | V6 _ \<Rightarrow>
                                    if is_blocked_hostname host
                                    then v6_text E BAD_REQUEST ''target hostname is internal and not allowed'' r
                                    else v6_forward E st req target_url parsed host r)
                          | None \<Rightarrow>
                              if is_blocked_hostname host
                              then v6_text E BAD_REQUEST ''target hostname is internal and not allowed'' r
                              else v6_forward E st req target_url parsed host r)))))"

subsection \<open>Configuration\<close>

definition env_ms :: "environ \<Rightarrow> string \<Rightarrow> u64 \<Rightarrow> u64" where
  "env_ms env key default_ms =
     (case Option.bind (env key) (parse_uint 64) of Some n \<Rightarrow> of_nat n | None \<Rightarrow> default_ms)"

definition env_u32 :: "environ \<Rightarrow> string \<Rightarrow> u32 \<Rightarrow> u32" where
  "env_u32 env key dflt =
     (case Option.bind (env key) (parse_uint 32) of Some n \<Rightarrow> of_nat n | None \<Rightarrow> dflt)"

definition parse_retry_codes :: "environ \<Rightarrow> u16 list" where
  "parse_retry_codes env =
     (case env ''RETRY_STATUS_CODES'' of
        Some s \<Rightarrow>
          (let parsed = List.map_filter (\<lambda>x. map_option of_nat (parse_uint 16 (trim x))) (split_on (CHR '','') s)
           in if parsed = [] then [403, 429] else parsed)
      | None \<Rightarrow> [403, 429])"

text \<open>\<open>Inl\<close> is the exit of \<^verbatim>\<open>main\<close>; the files of the primer are read only with a subnet.\<close>

definition v6_main_state :: "(string \<Rightarrow> 'p option) \<Rightarrow> environ \<Rightarrow> string option \<Rightarrow> (string \<Rightarrow> string option)
    \<Rightarrow> string + 'p v6_state" where
  "v6_main_state parse_profile env route_file mac_file =
     (let subnet = subnet_from_env env in
      case emulator_new parse_profile (env ''IMPERSONATE'') of
        Inl e \<Rightarrow> Inl e
      | Inr em \<Rightarrow> Inr
          \<lparr>vs_subnet = subnet,
           vs_primer = (case subnet of Some _ \<Rightarrow> primer_from_env env route_file mac_file | None \<Rightarrow> None),
           vs_connect_timeout = env_ms env ''CONNECT_TIMEOUT_MS'' 5000,
           vs_request_timeout = env_ms env ''REQUEST_TIMEOUT_MS'' 30000,
           vs_max_attempts = max (env_u32 env ''MAX_ATTEMPTS'' 3) 1,
           vs_retry_codes = parse_retry_codes env, vs_emulator = em\<rparr>)"

subsection \<open>Lemmas\<close>

lemma rp_status_text: "rp_status (text_response H s b) = s"
  by (simp add: text_response_def typed_response_def)

text \<open>What every fetch has to satisfy: it goes to one of the addresses given and leaves from the subnet.\<close>

definition source_ok :: "subnet option \<Rightarrow> ip_addr option \<Rightarrow> bool" where
  "source_ok sn src =
     (case sn of
        None \<Rightarrow> src = None
      | Some s \<Rightarrow>
          (case src of
             Some (V6 a) \<Rightarrow> in_prefix a (sn_prefix s, unat (sn_prefix_len s))
           | _ \<Rightarrow> False))"

definition fetch_ok :: "subnet option \<Rightarrow> (ipv6 \<times> u16) set \<Rightarrow> 'p fetch \<Rightarrow> bool" where
  "fetch_ok sn addrs f =
     ((case snd (ft_resolve_to f) of [t] \<Rightarrow> t \<in> addrs | _ \<Rightarrow> False) \<and> source_ok sn (ft_local_address f))"

lemma draw_source_ok:
  assumes rnd: "\<forall>x. length (fst (ve_random E x)) = 16" and sn: "vs_subnet st = subnet_from_env env"
  shows "source_ok (vs_subnet st) (map_option V6 (fst (draw_source E st w)))"
proof (cases "vs_subnet st")
  case None
  then show ?thesis by (simp add: draw_source_def source_ok_def)
next
  case (Some s)
  then obtain str where parsed: "parse_subnet str = Some s"
    using sn by (auto simp: subnet_from_env_def bind_eq_Some_conv)
  have any: "random_addr [] s = random_addr (octets6 0) s" if "sn_prefix_len s = 128"
    using that by (simp add: random_addr_def)
  obtain bytes where "length bytes = 16" and "fst (draw_source E st w) = Some (random_addr bytes s)"
  proof (cases "sn_prefix_len s = 128")
    case True
    with any Some show ?thesis by (intro that [of "octets6 0"]) (simp_all add: draw_source_def)
  next
    case False
    with rnd Some show ?thesis
      by (intro that [of "fst (ve_random E (vw_ext w))"]) (simp_all add: draw_source_def prod.case_eq_if)
  qed
  with random_addr_in [OF parsed] Some show ?thesis by (simp add: source_ok_def)
qed

lemma dispatch_v6_step:
  assumes rnd: "\<forall>x. length (fst (ve_random E x)) = 16" and sn: "vs_subnet st = subnet_from_env env"
    and run: "dispatch_v6 E st att r = (res, r1)"
  shows "\<exists>f w. r1 = (fst r @ [(f, res)], w) \<and> fetch_ok (vs_subnet st) {va_target att} f"
proof -
  obtain source w1 where src: "draw_source E st (snd r) = (source, w1)" by (meson surj_pair)
  have ok: "source_ok (vs_subnet st) (map_option V6 source)"
    using draw_source_ok [OF rnd sn, of "snd r"] by (simp add: src)
  from run show ?thesis
    by (auto simp: dispatch_v6_def src run_fetch_def Let_def fetch_ok_def emulated_request_def ok split: prod.splits)
qed

text \<open>Whether the result of attempt number \<open>i\<close> ends the loop.\<close>

definition acceptable :: "u16 list \<Rightarrow> nat \<Rightarrow> nat \<Rightarrow> string + 'h http_resp \<Rightarrow> bool" where
  "acceptable codes max_attempts i res =
     (case res of Inl _ \<Rightarrow> False | Inr resp \<Rightarrow> max_attempts \<le> i + 1 \<or> rsp_status resp \<notin> set codes)"

lemma v6_attempts_spec:
  assumes rnd: "\<forall>x. length (fst (ve_random E x)) = 16" and sn: "vs_subnet st = subnet_from_env env"
    and addrs: "addrs \<noteq> []" and mk: "\<And>t. va_target (mk t) = t"
    and run: "v6_attempts E st url addrs mk m n i le r = (reply, r')"
  shows "\<exists>new. fst r' = fst r @ new \<and> length new \<le> n
    \<and> (\<forall>(f, _)\<in>set new. fetch_ok (vs_subnet st) (set addrs) f)
    \<and> (\<forall>k<length new. k + 1 < length new \<longrightarrow> \<not> acceptable (vs_retry_codes st) m (i + k) (snd (new ! k)))
    \<and> ((\<exists>resp. new \<noteq> [] \<and> snd (last new) = Inr resp \<and> reply = relay_response (ve_libs E) url resp
          \<and> acceptable (vs_retry_codes st) m (i + (length new - 1)) (Inr resp))
       \<or> length new = n \<and> rp_status reply = BAD_GATEWAY
          \<and> (new \<noteq> [] \<longrightarrow> \<not> acceptable (vs_retry_codes st) m (i + (length new - 1)) (snd (last new))))"
  using run
proof (induction n arbitrary: i le r)
  case 0
  then have "reply = text_response (ve_headers E) BAD_GATEWAY (''IPv6 connection failed after '' @ show_nat m
      @ '' attempts: '' @ unwrap_or le ''unknown error'')" and "r' = r" by simp_all
  then show ?case by (simp only: rp_status_text) simp
next
  case (Suc n)
  let ?t = "addrs ! (i mod length addrs)"
  obtain res r1 where d: "dispatch_v6 E st (mk ?t) r = (res, r1)" by (meson surj_pair)
  obtain f w where r1: "r1 = (fst r @ [(f, res)], w)" and ok1: "fetch_ok (vs_subnet st) {?t} f"
    using dispatch_v6_step [OF rnd sn d] mk by auto
  have "?t \<in> set addrs" using addrs by simp
  with ok1 have ok: "fetch_ok (vs_subnet st) (set addrs) f"
    by (auto simp: fetch_ok_def split: list.splits)
  show ?case
  proof (cases "acceptable (vs_retry_codes st) m i res")
    case True
    then obtain resp where resp: "res = Inr resp" by (auto simp: acceptable_def split: sum.splits)
    with True Suc.prems d have "reply = relay_response (ve_libs E) url resp \<and> r' = r1"
      by (auto simp: acceptable_def Let_def split: if_splits)
    with True resp r1 ok show ?thesis by (intro exI [of _ "[(f, res)]"]) simp
  next
    case False
    then obtain le' where rest: "v6_attempts E st url addrs mk m n (i + 1) le' r1 = (reply, r')"
      using Suc.prems d by (cases res) (auto simp: acceptable_def Let_def)
    from Suc.IH [OF rest] obtain new where new: "fst r' = fst r1 @ new" "length new \<le> n"
      "\<forall>(f, _)\<in>set new. fetch_ok (vs_subnet st) (set addrs) f"
      "\<forall>k<length new. k + 1 < length new \<longrightarrow> \<not> acceptable (vs_retry_codes st) m (i + 1 + k) (snd (new ! k))"
      and fin: "(\<exists>resp. new \<noteq> [] \<and> snd (last new) = Inr resp \<and> reply = relay_response (ve_libs E) url resp
          \<and> acceptable (vs_retry_codes st) m (i + 1 + (length new - 1)) (Inr resp))
       \<or> length new = n \<and> rp_status reply = BAD_GATEWAY
          \<and> (new \<noteq> [] \<longrightarrow> \<not> acceptable (vs_retry_codes st) m (i + 1 + (length new - 1)) (snd (last new)))"
      by blast
    have "\<not> acceptable (vs_retry_codes st) m (i + k) (snd (((f, res) # new) ! k))" if "k + 1 < length ((f, res) # new)" for k
      using that new(4) False by (cases k) simp_all
    moreover have "(\<exists>resp. (f, res) # new \<noteq> [] \<and> snd (last ((f, res) # new)) = Inr resp
          \<and> reply = relay_response (ve_libs E) url resp
          \<and> acceptable (vs_retry_codes st) m (i + (length ((f, res) # new) - 1)) (Inr resp))
       \<or> length ((f, res) # new) = Suc n \<and> rp_status reply = BAD_GATEWAY
          \<and> ((f, res) # new \<noteq> [] \<longrightarrow>
               \<not> acceptable (vs_retry_codes st) m (i + (length ((f, res) # new) - 1)) (snd (last ((f, res) # new))))"
      using fin False by (cases new) auto
    ultimately show ?thesis using new(1-3) r1 ok
      by (intro exI [of _ "(f, res) # new"]) simp
  qed
qed

text \<open>A request that made no fetch, or fetches as they have to be.\<close>

definition egress_ok :: "'p v6_state \<Rightarrow> ('p fetch \<times> (string + 'h http_resp)) list \<Rightarrow> bool" where
  "egress_ok st new =
     (length new \<le> unat (max (vs_max_attempts st) 1)
      \<and> (\<forall>(f, res)\<in>set new.
           (case snd (ft_resolve_to f) of [t] \<Rightarrow> \<not> is_blocked_ip (V6 (fst t)) | _ \<Rightarrow> False)
           \<and> source_ok (vs_subnet st) (ft_local_address f)))"

lemma egress_ok_Nil [simp]: "egress_ok st []"
  by (simp add: egress_ok_def)

lemma v6_forward_egress:
  assumes "\<forall>x. length (fst (ve_random E x)) = 16" and "vs_subnet st = subnet_from_env env"
  shows "\<exists>new. fst (snd (v6_forward E st req target_url parsed host r)) = fst r @ new \<and> egress_ok st new"
proof -
  obtain resolved w1 where l: "resolve_ipv6 E host (url_port (lb_url (ve_libs E)) parsed) (snd r) = (resolved, w1)"
    by (meson surj_pair)
  show ?thesis
  proof (cases resolved)
    case (Inl e)
    then show ?thesis by (simp add: v6_forward_def l v6_text_def)
  next
    case (Inr found)
    define addrs where "addrs = filter (\<lambda>sa. \<not> is_blocked_ip (V6 (fst sa))) found"
    show ?thesis
    proof (cases "addrs = [] \<or> to_bytes MAX_REQUEST_BODY (in_body req) = None")
      case True
      then show ?thesis
        by (auto simp: v6_forward_def l v6_text_def Inr addrs_def [symmetric] Let_def)
    next
      case False
      then obtain body where addrs: "addrs \<noteq> []" and body: "to_bytes MAX_REQUEST_BODY (in_body req) = Some body" by auto
      let ?m = "unat (max (vs_max_attempts st) 1)" and ?mk = "v6_attempt_for E req parsed host body"
      have eq: "v6_forward E st req target_url parsed host r
          = v6_attempts E st target_url addrs ?mk ?m ?m 0 None (fst r, w1)"
        using addrs by (simp add: v6_forward_def Let_def l Inr body addrs_def [symmetric])
      obtain reply r' where run: "v6_attempts E st target_url addrs ?mk ?m ?m 0 None (fst r, w1) = (reply, r')"
        by (meson surj_pair)
      have "va_target (?mk t) = t" for t by (simp add: v6_attempt_for_def Let_def)
      from v6_attempts_spec [OF assms addrs this run] obtain new where
        new: "fst r' = fst r @ new" "length new \<le> ?m" "\<forall>(f, _)\<in>set new. fetch_ok (vs_subnet st) (set addrs) f"
        by auto
      have "egress_ok st new"
        using new(2,3) unfolding egress_ok_def fetch_ok_def addrs_def by (fastforce split: list.splits)
      with new(1) show ?thesis by (simp add: eq run)
    qed
  qed
qed

lemma v6_handler_cases:
  "(\<exists>status msg. v6_handler E st req r = (text_response (ve_headers E) status msg, r))
   \<or> (\<exists>url parsed host. v6_handler E st req r = v6_forward E st req url parsed host r
        \<and> \<not> is_blocked_hostname host
        \<and> (case parse_ip host of Some ip \<Rightarrow> \<not> is_blocked_ip ip \<and> (\<exists>a. ip = V6 a) | None \<Rightarrow> True))"
  unfolding v6_handler_def v6_text_def Let_def
  by (auto split: option.splits ip_addr.splits simp del: not_None_eq) (metis ip_addr.distinct(1) option.distinct(1) option.inject)+

text \<open>The results after which the next attempt is made, if there is one.\<close>

definition retried :: "u16 list \<Rightarrow> string + 'h http_resp \<Rightarrow> bool" where
  "retried codes res = (case res of Inl _ \<Rightarrow> True | Inr resp \<Rightarrow> rsp_status resp \<in> set codes)"

text \<open>How the attempts of a request went: \<open>new\<close> are its fetches, at most \<open>m\<close>.\<close>

definition retry_outcome :: "('h, 'u) libs \<Rightarrow> u16 list \<Rightarrow> nat \<Rightarrow> string \<Rightarrow> ('p fetch \<times> (string + 'h http_resp)) list
    \<Rightarrow> ('h, body_stream) reply \<Rightarrow> bool" where
  "retry_outcome L codes m url new reply =
     (new \<noteq> [] \<and> length new \<le> m \<and> (\<forall>k. k + 1 < length new \<longrightarrow> retried codes (snd (new ! k)))
      \<and> (case snd (last new) of
           Inr resp \<Rightarrow> reply = relay_response L url resp \<and> (rsp_status resp \<in> set codes \<longrightarrow> length new = m)
         | Inl e \<Rightarrow> length new = m \<and> rp_status reply = BAD_GATEWAY))"

lemma v6_attempts_outcome:
  assumes "\<forall>x. length (fst (ve_random E x)) = 16" and "vs_subnet st = subnet_from_env env"
    and "addrs \<noteq> []" and "0 < m"
    and "v6_attempts E st url addrs (v6_attempt_for E req parsed host body) m m 0 None r = (reply, r')"
  shows "\<exists>new. fst r' = fst r @ new \<and> retry_outcome (ve_libs E) (vs_retry_codes st) m url new reply"
proof -
  have mk: "va_target (v6_attempt_for E req parsed host body t) = t" for t by (simp add: v6_attempt_for_def Let_def)
  from v6_attempts_spec [OF assms(1-3) mk assms(5)] obtain new where
    new: "fst r' = fst r @ new" "length new \<le> m"
      "\<forall>k<length new. k + 1 < length new \<longrightarrow> \<not> acceptable (vs_retry_codes st) m k (snd (new ! k))"
    and fin: "(\<exists>resp. new \<noteq> [] \<and> snd (last new) = Inr resp \<and> reply = relay_response (ve_libs E) url resp
          \<and> acceptable (vs_retry_codes st) m (length new - 1) (Inr resp))
       \<or> length new = m \<and> rp_status reply = BAD_GATEWAY
          \<and> (new \<noteq> [] \<longrightarrow> \<not> acceptable (vs_retry_codes st) m (length new - 1) (snd (last new)))"
    by auto
  have ne: "new \<noteq> []" using fin assms(4) by auto
  have early: "retried (vs_retry_codes st) (snd (new ! k))" if "k + 1 < length new" for k
    using new(3) that by (auto simp: acceptable_def retried_def split: sum.splits)
  have last: "case snd (last new) of
         Inr resp \<Rightarrow> reply = relay_response (ve_libs E) url resp
           \<and> (rsp_status resp \<in> set (vs_retry_codes st) \<longrightarrow> length new = m)
       | Inl e \<Rightarrow> length new = m \<and> rp_status reply = BAD_GATEWAY"
    using fin ne new(2) by (auto simp: acceptable_def split: sum.splits)
  from new(1,2) ne early last show ?thesis unfolding retry_outcome_def by blast
qed

lemma v6_forward_outcome:
  assumes "\<forall>x. length (fst (ve_random E x)) = 16" and "vs_subnet st = subnet_from_env env"
    and "v6_forward E st req url parsed host r = (reply, r')"
  shows "fst r' = fst r \<and> rp_status reply \<in> {BAD_REQUEST, BAD_GATEWAY}
    \<or> (\<exists>new. fst r' = fst r @ new
        \<and> retry_outcome (ve_libs E) (vs_retry_codes st) (unat (max (vs_max_attempts st) 1)) url new reply)"
proof -
  obtain resolved w1 where l: "resolve_ipv6 E host (url_port (lb_url (ve_libs E)) parsed) (snd r) = (resolved, w1)"
    by (meson surj_pair)
  show ?thesis
  proof (cases resolved)
    case (Inl e)
    with assms(3) show ?thesis by (auto simp: v6_forward_def l v6_text_def rp_status_text)
  next
    case (Inr found)
    define addrs where "addrs = filter (\<lambda>sa. \<not> is_blocked_ip (V6 (fst sa))) found"
    show ?thesis
    proof (cases "addrs = [] \<or> to_bytes MAX_REQUEST_BODY (in_body req) = None")
      case True
      with assms(3) show ?thesis
        by (cases "addrs = []") (auto simp: v6_forward_def l v6_text_def Inr addrs_def [symmetric] Let_def rp_status_text)
    next
      case False
      then obtain body where addrs: "addrs \<noteq> []" and body: "to_bytes MAX_REQUEST_BODY (in_body req) = Some body" by auto
      let ?m = "unat (max (vs_max_attempts st) 1)"
      have "(1 :: u32) \<le> max (vs_max_attempts st) 1" by simp
      then have m: "0 < ?m" by (simp add: word_le_nat_alt)
      have "v6_attempts E st url addrs (v6_attempt_for E req parsed host body) ?m ?m 0 None (fst r, w1) = (reply, r')"
        using assms(3) addrs by (simp add: v6_forward_def Let_def l Inr body addrs_def [symmetric])
      from v6_attempts_outcome [OF assms(1,2) addrs m this] show ?thesis by auto
    qed
  qed
qed

lemma v6_handler_target:
  "(\<exists>status msg. v6_handler E st req r = (text_response (ve_headers E) status msg, r) \<and> status \<in> {BAD_REQUEST, BAD_GATEWAY})
   \<or> (\<exists>hdr url parsed host. get_str (ve_headers E) (in_headers req) ''x-target'' = Some hdr
        \<and> decode_target (ve_libs E) hdr = Some url \<and> v6_handler E st req r = v6_forward E st req url parsed host r)"
  unfolding v6_handler_def v6_text_def Let_def
  by (auto split: option.splits ip_addr.splits simp del: not_None_eq)

text \<open>
  A retry status on the last attempt is relayed to the client, although the README says that the answer is 502 when all
  the attempts fail.
\<close>

lemma retry_status_relayed:
  "dispatch_v6 E st (mk (addrs ! (i mod length addrs))) r = (Inr resp, r1) \<Longrightarrow> m \<le> i + 1 \<Longrightarrow>
   v6_attempts E st url addrs mk m (Suc left) i le r = (relay_response (ve_libs E) url resp, r1)"
  by simp

subsection \<open>Properties\<close>

text \<open>
  C7: No request can make the IPv6 proxy reach internal address space. Whatever the target, the resolver and the
  upstreams answer, every connection of a request goes to one address that the filter lets pass, from a source address
  inside the configured subnet (or the default one without a subnet), and there are at most
  \<open>max_attempts\<close> of them, at least one being allowed.
\<close>

theorem v6_egress_safe:
  assumes "\<forall>x. length (fst (ve_random E x)) = 16" and "vs_subnet st = subnet_from_env env"
  shows "\<exists>new. fst (snd (v6_handler E st req r)) = fst r @ new
    \<and> length new \<le> unat (max (vs_max_attempts st) 1)
    \<and> (\<forall>(f, res)\<in>set new.
         (case snd (ft_resolve_to f) of [t] \<Rightarrow> \<not> is_blocked_ip (V6 (fst t)) | _ \<Rightarrow> False)
         \<and> source_ok (vs_subnet st) (ft_local_address f))"
proof -
  have "\<exists>new. fst (snd (v6_handler E st req r)) = fst r @ new \<and> egress_ok st new"
    using v6_handler_cases [of E st req r]
  proof (elim disjE exE conjE)
    fix status msg
    assume "v6_handler E st req r = (text_response (ve_headers E) status msg, r)"
    then show ?thesis by simp
  next
    fix url parsed host
    assume "v6_handler E st req r = v6_forward E st req url parsed host r"
    with v6_forward_egress [OF assms, of req url parsed host r] show ?thesis by simp
  qed
  then show ?thesis unfolding egress_ok_def .
qed

text \<open>A surrounding in which the host resolves to an internal and a public address and the origin answers 429.\<close>

definition sample_v6_env :: "(plain_header_map, unit, unit, unit) v6_env" where
  "sample_v6_env =
     \<lparr>ve_libs =
        \<lparr>lb_headers = plain_headers,
         lb_url = \<lparr>uo_parse = (\<lambda>_. Some ()), uo_scheme = (\<lambda>_. ''http''), uo_host = (\<lambda>_. Some ''h''),
           uo_port = (\<lambda>_. None), uo_path = (\<lambda>_. ''/''), uo_query = (\<lambda>_. None), uo_join = (\<lambda>_ _. None),
           uo_string = (\<lambda>_. [])\<rparr>,
         lb_b64_encode = (\<lambda>s. s), lb_b64_decode = (\<lambda>s. Some s)\<rparr>,
      ve_os = \<lparr>os_call = (\<lambda>_ x. (3, x)), os_error = (\<lambda>_. [])\<rparr>,
      ve_lookup = (\<lambda>_ p w. (Inr [(V6 1, p), (V6 (of_segments [0x2606, 0x4700, 0, 0, 0, 0, 0, 0x1111]), p)], w)),
      ve_random = (\<lambda>x. (replicate 16 0, x)), ve_fetch = (\<lambda>_ w. (Inr (429, [], []), w)),
      ve_now = (\<lambda>_. 0), ve_show_status = (\<lambda>_. ''429'')\<rparr>"

definition sample_v6_state :: "unit v6_state" where
  "sample_v6_state =
     \<lparr>vs_subnet = None, vs_primer = None, vs_connect_timeout = 5000, vs_request_timeout = 30000, vs_max_attempts = 3,
      vs_retry_codes = [403, 429], vs_emulator = \<lparr>em_emulation = (), em_profile = DEFAULT_PROFILE\<rparr>\<rparr>"

definition sample_v6_request :: "plain_header_map incoming" where
  "sample_v6_request =
     \<lparr>in_method = ''GET'', in_headers = ph_insert ''x-target'' ''http://h/'' ph_empty, in_body = []\<rparr>"

lemma sample_v6_random: "\<forall>x. length (fst (ve_random sample_v6_env x)) = 16"
  by (simp add: sample_v6_env_def)

lemma sample_v6_subnet: "vs_subnet sample_v6_state = subnet_from_env (\<lambda>_. None)"
  by (simp add: sample_v6_state_def subnet_from_env_def)

lemma v6_egress_safe_witness:
  "\<exists>new. fst (snd (v6_handler sample_v6_env sample_v6_state sample_v6_request ([], \<lparr>vw_last_warn = None, vw_ext = ()\<rparr>))) = new
    \<and> length new \<le> 3 \<and> (\<forall>(f, res)\<in>set new. ft_local_address f = None)"
proof -
  from v6_egress_safe [OF sample_v6_random sample_v6_subnet, of sample_v6_request "([], \<lparr>vw_last_warn = None, vw_ext = ()\<rparr>)"]
  obtain new where "fst (snd (v6_handler sample_v6_env sample_v6_state sample_v6_request
      ([], \<lparr>vw_last_warn = None, vw_ext = ()\<rparr>))) = new"
    and "length new \<le> unat (max (vs_max_attempts sample_v6_state) 1)"
    and src: "\<forall>(f, res)\<in>set new. source_ok (vs_subnet sample_v6_state) (ft_local_address f)" by auto
  moreover from src have "\<forall>(f, res)\<in>set new. ft_local_address f = None"
    by (auto simp: source_ok_def sample_v6_state_def)
  ultimately show ?thesis by (simp add: sample_v6_state_def)
qed

text \<open>
  C33: The retry policy of the IPv6 proxy. A request makes at most \<open>max_attempts\<close> fetches (at least one being
  allowed), and another one is made only after a failed fetch or an answer with a retry status. A request that makes none
  is answered with 400 or 502. If the last fetch failed, all the attempts were used and the answer is 502; if it was
  answered with a status that is not a retry status, that response is relayed, redirects resolved against the decoded
  target; a retry status is the last answer only when all the attempts were used.
\<close>

theorem v6_retry_policy:
  assumes "\<forall>x. length (fst (ve_random E x)) = 16" and "vs_subnet st = subnet_from_env env"
    and "v6_handler E st req r = (reply, r')"
  shows "\<exists>new. fst r' = fst r @ new \<and> length new \<le> unat (max (vs_max_attempts st) 1)
    \<and> (\<forall>k. k + 1 < length new \<longrightarrow>
         (case snd (new ! k) of Inl _ \<Rightarrow> True | Inr resp \<Rightarrow> rsp_status resp \<in> set (vs_retry_codes st)))
    \<and> (if new = [] then rp_status reply \<in> {BAD_REQUEST, BAD_GATEWAY}
       else case snd (last new) of
          Inl e \<Rightarrow> length new = unat (max (vs_max_attempts st) 1) \<and> rp_status reply = BAD_GATEWAY
        | Inr resp \<Rightarrow>
            if rsp_status resp \<in> set (vs_retry_codes st) then length new = unat (max (vs_max_attempts st) 1)
            else \<exists>hdr url. get_str (ve_headers E) (in_headers req) ''x-target'' = Some hdr
                   \<and> decode_target (ve_libs E) hdr = Some url \<and> reply = relay_response (ve_libs E) url resp)"
  using v6_handler_target [of E st req r]
proof (elim disjE exE conjE)
  fix status msg
  assume "v6_handler E st req r = (text_response (ve_headers E) status msg, r)" and "status \<in> {BAD_REQUEST, BAD_GATEWAY}"
  with assms(3) show ?thesis by (intro exI [of _ "[]"]) (auto simp: rp_status_text)
next
  fix hdr url parsed host
  assume target: "get_str (ve_headers E) (in_headers req) ''x-target'' = Some hdr" "decode_target (ve_libs E) hdr = Some url"
    and eq: "v6_handler E st req r = v6_forward E st req url parsed host r"
  from assms(3) have "v6_forward E st req url parsed host r = (reply, r')" by (simp add: eq)
  from v6_forward_outcome [OF assms(1,2) this] show ?thesis
  proof (elim disjE exE conjE)
    assume "fst r' = fst r" "rp_status reply \<in> {BAD_REQUEST, BAD_GATEWAY}"
    then show ?thesis by (intro exI [of _ "[]"]) simp
  next
    fix new
    assume new: "fst r' = fst r @ new"
      and out: "retry_outcome (ve_libs E) (vs_retry_codes st) (unat (max (vs_max_attempts st) 1)) url new reply"
    then show ?thesis using target
      by (intro exI [of _ new]) (auto simp: retry_outcome_def retried_def split: sum.splits)
  qed
qed

lemma v6_retry_policy_witness:
  "\<exists>reply new w. v6_handler sample_v6_env sample_v6_state sample_v6_request ([], \<lparr>vw_last_warn = None, vw_ext = ()\<rparr>)
      = (reply, new, w) \<and> length new \<le> 3"
proof -
  obtain reply new w where run: "v6_handler sample_v6_env sample_v6_state sample_v6_request
      ([], \<lparr>vw_last_warn = None, vw_ext = ()\<rparr>) = (reply, new, w)" by (metis prod_cases3)
  from v6_retry_policy [OF sample_v6_random sample_v6_subnet run] have "length new \<le> 3"
    by (auto simp: sample_v6_state_def)
  with run show ?thesis by blast
qed

end
