(* ===== verification/Tcp.thy ===== *)
theory Tcp
  imports Utf8
begin

text \<open>
  A TCP stream as the Tor proxy uses it, and \<^verbatim>\<open>tor-proxy/src/socks5.rs\<close> and \<^verbatim>\<open>control.rs\<close> on top of
  it. A stream is the bytes the peer will have sent by the time it stops, the bytes written so far, and whether
  writing fails. A panic is a value: the release build aborts on it.
\<close>

subsection \<open>Streams\<close>

record tcp =
  tp_in :: "u8 list"
  tp_out :: "u8 list"
  tp_broken :: bool

text \<open>What connecting under a timeout gives.\<close>

datatype connect_result = CN_Timeout | CN_Err string | CN_Ok tcp

definition write_all :: "u8 list \<Rightarrow> tcp \<Rightarrow> string + tcp" where
  "write_all bs t = (if tp_broken t then Inl ''broken pipe'' else Inr (t\<lparr>tp_out := tp_out t @ bs\<rparr>))"

definition read_exact :: "nat \<Rightarrow> tcp \<Rightarrow> string + u8 list \<times> tcp" where
  "read_exact n t =
     (if n \<le> length (tp_in t) then Inr (take n (tp_in t), t\<lparr>tp_in := drop n (tp_in t)\<rparr>)
      else Inl ''early eof'')"

definition byte_val :: "char \<Rightarrow> u8" where
  "byte_val c = of_nat (byte_of c)"

definition to_chars :: "u8 list \<Rightarrow> string" where
  "to_chars bs = map (\<lambda>b. byte_char (unat b)) bs"

definition to_u8s :: "string \<Rightarrow> u8 list" where
  "to_u8s s = map byte_val s"

lemma length_to_u8s [simp]: "length (to_u8s s) = length s"
  by (simp add: to_u8s_def)

lemma to_chars_to_u8s [simp]: "to_chars (to_u8s s) = s"
proof -
  have "byte_char (unat (byte_val c)) = c" for c
    using of_char_lt_256 [of c] by (simp add: byte_val_def unat_of_nat)
  then show ?thesis by (simp add: to_chars_def to_u8s_def map_idI)
qed

text \<open>A line up to and including its newline; the end of input ends the last one.\<close>

fun take_line :: "u8 list \<Rightarrow> u8 list \<times> u8 list" where
  "take_line [] = ([], [])"
| "take_line (b # bs) = (if b = 10 then ([b], bs) else (let (l, r) = take_line bs in (b # l, r)))"

subsection \<open>SOCKS5\<close>

datatype socks_result = SK_Ok tcp | SK_Err string | SK_Panic

definition socks_connect_request :: "string \<Rightarrow> u16 \<Rightarrow> u8 list" where
  "socks_connect_request dest_host dest_port =
     (let host_bytes = to_u8s dest_host in
      [0x05, 0x01, 0x00, 0x03, of_nat (length host_bytes)] @ host_bytes
        @ [ucast (drop_bit 8 dest_port), ucast dest_port])"

text \<open>The rest of the reply after its first ten bytes. The length is a \<^verbatim>\<open>usize\<close>, which wraps around.\<close>

definition socks_reply_rest :: "u8 list \<Rightarrow> tcp \<Rightarrow> socks_result" where
  "socks_reply_rest resp t =
     (if resp ! 3 = 0x01 then SK_Ok t
      else if resp ! 3 = 0x03
      then (let domain_len = ucast (resp ! 4) :: u64; extra = domain_len + 2 - 5 in
        if 2 ^ 63 \<le> extra then SK_Panic
        else if 0 < extra
        then (case read_exact (unat extra) t of Inl e \<Rightarrow> SK_Err e | Inr (_, t1) \<Rightarrow> SK_Ok t1)
        else SK_Ok t)
      else if resp ! 3 = 0x04
      then (case read_exact 12 t of Inl e \<Rightarrow> SK_Err e | Inr (_, t1) \<Rightarrow> SK_Ok t1)
      else SK_Ok t)"

definition socks_handshake :: "string \<Rightarrow> u16 \<Rightarrow> tcp \<Rightarrow> socks_result" where
  "socks_handshake dest_host dest_port t0 =
     (case write_all [0x05, 0x01, 0x00] t0 of
        Inl e \<Rightarrow> SK_Err e
      | Inr t1 \<Rightarrow>
          (case read_exact 2 t1 of
             Inl e \<Rightarrow> SK_Err e
           | Inr (greet, t2) \<Rightarrow>
               if greet ! 0 \<noteq> 0x05 \<or> greet ! 1 \<noteq> 0x00 then SK_Err ''SOCKS5 handshake rejected''
               else (case write_all (socks_connect_request dest_host dest_port) t2 of
                   Inl e \<Rightarrow> SK_Err e
                 | Inr t3 \<Rightarrow>
                     (case read_exact 10 t3 of
                        Inl e \<Rightarrow> SK_Err e
                      | Inr (resp, t4) \<Rightarrow>
                          if resp ! 0 \<noteq> 0x05 \<or> resp ! 1 \<noteq> 0x00
                          then SK_Err (''SOCKS5 connect error code='' @ show_nat (unat (resp ! 1)))
                          else socks_reply_rest resp t4))))"

definition socks5_connect :: "string \<Rightarrow> u16 \<Rightarrow> connect_result \<Rightarrow> socks_result" where
  "socks5_connect dest_host dest_port conn =
     (case conn of
        CN_Timeout \<Rightarrow> SK_Err ''SOCKS5 connect timeout''
      | CN_Err e \<Rightarrow> SK_Err e
      | CN_Ok t \<Rightarrow> socks_handshake dest_host dest_port t)"

subsection \<open>The control port\<close>

text \<open>
  \<^verbatim>\<open>reader.into_inner()\<close> drops what the buffered reader has read beyond the line, so the second
  line is taken from a stream of its own: \<open>second\<close> is what arrives after the first line was read.
\<close>

definition read_line :: "tcp \<Rightarrow> (string + string) \<times> tcp" where
  "read_line t =
     (let (l, r) = take_line (tp_in t); s = to_chars l
      in (if utf8_valid s then Inr s else Inl ''stream did not contain valid UTF-8'', t\<lparr>tp_in := r\<rparr>))"

definition send_newnym :: "string \<Rightarrow> connect_result \<Rightarrow> u8 list \<Rightarrow> (string + unit) \<times> u8 list" where
  "send_newnym password conn second =
     (case conn of
        CN_Timeout \<Rightarrow> (Inl ''control port timeout'', [])
      | CN_Err e \<Rightarrow> (Inl e, [])
      | CN_Ok t0 \<Rightarrow>
          (case write_all (to_u8s (''AUTHENTICATE '' @ [CHR 0x22] @ password @ [CHR 0x22, CHR 0x0D, CHR 0x0A])) t0 of
             Inl e \<Rightarrow> (Inl e, tp_out t0)
           | Inr t1 \<Rightarrow>
               (case read_line t1 of
                  (Inl e, t2) \<Rightarrow> (Inl e, tp_out t2)
                | (Inr line, t2) \<Rightarrow>
                    if \<not> starts_with line ''250'' then (Inl (''auth failed: '' @ trim line), tp_out t2)
                    else (case write_all (to_u8s (''SIGNAL NEWNYM'' @ [CHR 0x0D, CHR 0x0A])) t2 of
                        Inl e \<Rightarrow> (Inl e, tp_out t2)
                      | Inr t3 \<Rightarrow>
                          (case read_line (t3\<lparr>tp_in := second\<rparr>) of
                             (Inl e, t4) \<Rightarrow> (Inl e, tp_out t4)
                           | (Inr line2, t4) \<Rightarrow>
                               if \<not> starts_with line2 ''250''
                               then (Inl (''NEWNYM failed: '' @ trim line2), tp_out t4)
                               else (Inr (), tp_out t4))))))"

subsection \<open>Lemmas\<close>

text \<open>A server's view of the request: read it back by its own length field.\<close>

definition parse_socks_request :: "u8 list \<Rightarrow> (string \<times> u16) option" where
  "parse_socks_request bs =
     (if length bs < 5 \<or> take 4 bs \<noteq> [0x05, 0x01, 0x00, 0x03] then None
      else (let n = unat (bs ! 4); rest = drop 5 bs in
        if length rest \<noteq> n + 2 then None
        else Some (to_chars (take n rest), push_bit 8 (ucast (rest ! n)) OR ucast (rest ! (n + 1)))))"

lemma port_bytes: "push_bit 8 (ucast (ucast (drop_bit 8 p) :: u8)) OR ucast (ucast p :: u8) = (p :: u16)"
  by (rule bit_word_eqI) (auto simp: bit_simps)

lemma read_exact_append [simp]:
  "length a = n \<Longrightarrow> tp_in t = a @ b \<Longrightarrow> read_exact n t = Inr (a, t\<lparr>tp_in := b\<rparr>)"
  by (simp add: read_exact_def)

text \<open>A reply of a SOCKS5 server: the bound address in one of the three forms, then the port.\<close>

definition socks_reply :: "u8 \<Rightarrow> u8 list \<Rightarrow> u16 \<Rightarrow> u8 list" where
  "socks_reply atyp addr port =
     [0x05, 0x00, 0x00, atyp] @ (if atyp = 0x03 then [of_nat (length addr)] else []) @ addr
       @ [ucast (drop_bit 8 port), ucast port]"

definition addr_ok :: "u8 \<Rightarrow> u8 list \<Rightarrow> bool" where
  "addr_ok atyp addr =
     (atyp = 0x01 \<and> length addr = 4 \<or> atyp = 0x03 \<and> length addr < 256 \<or> atyp = 0x04 \<and> length addr = 16)"

lemma length_socks_reply:
  "addr_ok atyp addr \<Longrightarrow> length (socks_reply atyp addr port) =
     (if atyp = 1 then 10 else if atyp = 4 then 22 else 7 + length addr)"
  by (auto simp: addr_ok_def socks_reply_def)

lemma unat_domain_len: "n < 256 \<Longrightarrow> unat (of_nat n :: u8) = n"
  by (simp add: unat_of_nat)

text \<open>How many bytes are still to be skipped after the first ten of a domain reply.\<close>

lemma domain_extra:
  assumes "n < 256"
  shows "(ucast (of_nat n :: u8) :: u64) + 2 - 5 = (if 3 \<le> n then of_nat (n - 3) else - of_nat (3 - n))"
proof -
  have "(ucast (of_nat n :: u8) :: u64) = of_nat n"
    using assms by (simp add: word_unat_eq_iff unsigned_ucast_eq unat_of_nat take_bit_eq_mod)
  then show ?thesis by (simp add: of_nat_diff)
qed

lemma socks_handshake_steps:
  assumes "\<not> tp_broken t" and "tp_in t = [0x05, 0x00] @ first @ rest" and "length first = 10"
    and "first ! 0 = 0x05" and "first ! 1 = 0x00"
  shows "socks_handshake host port t =
    socks_reply_rest first (t\<lparr>tp_in := rest, tp_out := tp_out t @ [0x05, 0x01, 0x00] @ socks_connect_request host port\<rparr>)"
proof -
  let ?t1 = "t\<lparr>tp_out := tp_out t @ [0x05, 0x01, 0x00]\<rparr>"
  have w1: "write_all [0x05, 0x01, 0x00] t = Inr ?t1" using assms(1) by (simp add: write_all_def)
  have r1: "read_exact 2 ?t1 = Inr ([0x05, 0x00], ?t1\<lparr>tp_in := first @ rest\<rparr>)"
    by (rule read_exact_append) (simp_all add: assms(2))
  have w2: "write_all (socks_connect_request host port) (?t1\<lparr>tp_in := first @ rest\<rparr>)
      = Inr (?t1\<lparr>tp_in := first @ rest, tp_out := tp_out t @ [0x05, 0x01, 0x00] @ socks_connect_request host port\<rparr>)"
    using assms(1) by (simp add: write_all_def)
  have r2: "read_exact 10 (?t1\<lparr>tp_in := first @ rest, tp_out := tp_out t @ [0x05, 0x01, 0x00] @ socks_connect_request host port\<rparr>)
      = Inr (first, ?t1\<lparr>tp_in := rest, tp_out := tp_out t @ [0x05, 0x01, 0x00] @ socks_connect_request host port\<rparr>)"
    using assms(3) by (subst read_exact_append [where a = first and b = rest]) simp_all
  show ?thesis
    unfolding socks_handshake_def w1 sum.case r1 prod.case w2 r2 using assms(4,5) by simp
qed

text \<open>The rest of a reply, by the form of its address.\<close>

lemma reply_rest_read:
  assumes "length (drop 10 reply) = n" and "10 \<le> length reply"
  shows "read_exact n (t\<lparr>tp_in := drop 10 (reply @ tunnel)\<rparr>) = Inr (drop 10 reply, t\<lparr>tp_in := tunnel\<rparr>)"
  using assms by (subst read_exact_append [where a = "drop 10 reply" and b = tunnel]) simp_all

lemma reply_rest_domain:
  assumes "f ! 3 = 3" and "f ! 4 = of_nat n" and "n < 256"
  shows "socks_reply_rest f t =
    (if n < 3 then SK_Panic
     else if n = 3 then SK_Ok t
     else case read_exact (n - 3) t of Inl e \<Rightarrow> SK_Err e | Inr (x, t1) \<Rightarrow> SK_Ok t1)"
proof -
  have extra: "(ucast (f ! 4) :: u64) + 2 - 5 = (if 3 \<le> n then of_nat (n - 3) else - of_nat (3 - n))"
    unfolding assms(2) by (rule domain_extra [OF assms(3)])
  show ?thesis
  proof (cases "n < 3")
    case True
    then have "n = 0 \<or> n = 1 \<or> n = 2" by linarith
    then have "2 ^ 63 \<le> (ucast (f ! 4) :: u64) + 2 - 5" unfolding extra by auto
    with True assms(1) show ?thesis unfolding socks_reply_rest_def Let_def by simp
  next
    case False
    have small: "unat (of_nat (n - 3) :: u64) = n - 3" using assms(3) by (simp add: unat_of_nat)
    then have "\<not> 2 ^ 63 \<le> (of_nat (n - 3) :: u64)" "(0 < (of_nat (n - 3) :: u64)) = (n \<noteq> 3)"
      using assms(3) False by (simp_all add: word_le_nat_alt word_less_nat_alt) linarith
    with False assms(1) small show ?thesis unfolding socks_reply_rest_def Let_def extra by simp
  qed
qed

lemma reply_rest_reply:
  assumes ok: "addr_ok atyp addr" and len: "10 \<le> length (socks_reply atyp addr port @ tunnel)"
  shows "socks_reply_rest (take 10 (socks_reply atyp addr port @ tunnel))
      (t\<lparr>tp_in := drop 10 (socks_reply atyp addr port @ tunnel)\<rparr>) =
    (if atyp = 0x03 \<and> length addr < 3 then SK_Panic else SK_Ok (t\<lparr>tp_in := tunnel\<rparr>))"
proof -
  let ?r = "socks_reply atyp addr port" and ?f = "take 10 (socks_reply atyp addr port @ tunnel)"
  have f: "?f ! 3 = atyp" "atyp = 3 \<Longrightarrow> ?f ! 4 = of_nat (length addr)" by (simp_all add: socks_reply_def)
  from ok consider "atyp = 1" "length addr = 4" | "atyp = 4" "length addr = 16" | "atyp = 3" "length addr < 256"
    by (auto simp: addr_ok_def)
  then show ?thesis
  proof cases
    case 1
    then show ?thesis using f(1) length_socks_reply [OF ok] by (simp add: socks_reply_rest_def)
  next
    case 2
    then have "length ?r = 22" using length_socks_reply [OF ok] by simp
    then show ?thesis using 2 f(1) reply_rest_read [of ?r 12, where t = t and tunnel = tunnel] by (simp add: socks_reply_rest_def del: drop_append)
  next
    case 3
    then have "length ?r = 7 + length addr" using length_socks_reply [OF ok] by simp
    then show ?thesis using 3 reply_rest_domain [OF _ f(2)] f(1) reply_rest_read [of ?r "length addr - 3", where t = t and tunnel = tunnel]
      by (cases "length addr = 3") (simp_all del: drop_append)
  qed
qed

subsection \<open>Properties\<close>

text \<open>
  C34: The connect request names the destination faithfully: a server that reads the request by its length
  field finds exactly the host and the port, if the host has at most 255 bytes. A longer host makes the request
  malformed, because its length is cut to one byte.
\<close>

theorem socks_request_roundtrip:
  "parse_socks_request (socks_connect_request host port) = (if length host < 256 then Some (host, port) else None)"
proof -
  let ?bs = "socks_connect_request host port"
  have shape: "?bs = [0x05, 0x01, 0x00, 0x03, of_nat (length host)] @ to_u8s host @ [ucast (drop_bit 8 port), ucast port]"
    by (simp add: socks_connect_request_def)
  have n: "unat (?bs ! 4) = length host mod 256" by (simp add: shape unat_of_nat)
  show ?thesis
  proof (cases "length host < 256")
    case True
    then have "parse_socks_request ?bs = Some (host, push_bit 8 (ucast (ucast (drop_bit 8 port) :: u8)) OR ucast (ucast port :: u8))"
      using n by (simp add: parse_socks_request_def Let_def shape nth_append)
    with True show ?thesis by (simp add: port_bytes)
  next
    case False
    then have "length host mod 256 \<noteq> length host" by (metis mod_less_divisor zero_less_numeral)
    with False n show ?thesis by (simp add: parse_socks_request_def Let_def shape)
  qed
qed

text \<open>
  C14: The handshake against a server that accepts. Whatever form the bound address of its reply has, exactly the
  reply is consumed, so the tunnel starts at the first byte of the origin, and exactly the greeting and the connect
  request were sent. The exception is a domain shorter than three bytes: the length computation
  wraps around and the process panics.
\<close>

theorem socks_handshake_tunnel:
  assumes "\<not> tp_broken t" and "addr_ok atyp addr"
    and "tp_in t = [0x05, 0x00] @ socks_reply atyp addr bound_port @ tunnel"
    and "10 \<le> length (socks_reply atyp addr bound_port @ tunnel)"
  shows "socks_handshake host port t =
    (if atyp = 0x03 \<and> length addr < 3 then SK_Panic
     else SK_Ok (t\<lparr>tp_in := tunnel, tp_out := tp_out t @ [0x05, 0x01, 0x00] @ socks_connect_request host port\<rparr>))"
proof -
  let ?r = "socks_reply atyp addr bound_port @ tunnel"
  have first: "take 10 ?r ! 0 = 0x05" "take 10 ?r ! 1 = 0x00" by (simp_all add: socks_reply_def)
  have "tp_in t = [0x05, 0x00] @ take 10 ?r @ drop 10 ?r" using assms(3) by (simp only: append_take_drop_id)
  note run = socks_handshake_steps [OF assms(1) this _ first, of host port]
  define u where "u = t\<lparr>tp_out := tp_out t @ [0x05, 0x01, 0x00] @ socks_connect_request host port\<rparr>"
  have upd: "t\<lparr>tp_in := inp, tp_out := tp_out t @ [0x05, 0x01, 0x00] @ socks_connect_request host port\<rparr>
      = u\<lparr>tp_in := inp\<rparr>" for inp by (simp add: u_def)
  show ?thesis using assms(4) unfolding upd run [unfolded upd]
    by (simp only: run [unfolded upd] length_take min.absorb2 reply_rest_reply [OF assms(2,4)])
qed

lemma socks_handshake_tunnel_witness:
  "socks_handshake ''h'' 80 \<lparr>tp_in = [0x05, 0x00] @ socks_reply 0x03 [97, 98] 1 @ [7], tp_out = [], tp_broken = False\<rparr> = SK_Panic"
  using socks_handshake_tunnel
    [of "\<lparr>tp_in = [0x05, 0x00] @ socks_reply 0x03 [97, 98] 1 @ [7], tp_out = [], tp_broken = False\<rparr>" 3 "[97, 98]" 1 "[7]"]
  by (simp add: addr_ok_def socks_reply_def)

end
