(* ===== verification/TorPool.thy ===== *)
theory TorPool
  imports Tcp
begin

text \<open>
  \<^verbatim>\<open>tor-proxy/src/pool.rs\<close>: the pool of Tor nodes, the round-robin order over the nodes that are not cooling
  down, the error counting, and the rotation of a node's circuit. Instants are milliseconds (integers), durations
  natural numbers. \<open>None\<close> is a panic. The pool lives in a world that other tasks change at every await.
\<close>

record tor_node_config =
  tn_host :: string
  tn_socks_port :: u16
  tn_control_port :: u16

record node_stats =
  st_requests :: u64
  st_success :: u64
  st_errors :: u64
  st_rotations :: u64

record node_state =
  ns_config :: tor_node_config
  ns_consecutive_errors :: u32
  ns_last_newnym :: int
  ns_cooldown_until :: int
  ns_stats :: node_stats

record node_pool =
  np_nodes :: "node_state list"
  np_rr_idx :: u64
  np_password :: string
  np_error_threshold :: u32
  np_newnym_cooldown :: nat

subsection \<open>Creation\<close>

definition new_node :: "int \<Rightarrow> tor_node_config \<Rightarrow> node_state" where
  "new_node now config =
     \<lparr>ns_config = config, ns_consecutive_errors = 0, ns_last_newnym = now - 3600000, ns_cooldown_until = now - 1000,
      ns_stats = \<lparr>st_requests = 0, st_success = 0, st_errors = 0, st_rotations = 0\<rparr>\<rparr>"

text \<open>
  The pool, and for each node the delay before its first scheduled rotation, in nanoseconds. Dividing a
  duration by zero panics.
\<close>

definition node_pool_new :: "int \<Rightarrow> tor_node_config list \<Rightarrow> string \<Rightarrow> u32 \<Rightarrow> nat \<Rightarrow> nat
    \<Rightarrow> (node_pool \<times> nat list) option" where
  "node_pool_new now configs password error_threshold newnym_cooldown rotation_interval =
     (let nodes = map (new_node now) configs;
          node_count = length nodes;
          interval_ns = rotation_interval * 1000000
      in if node_count mod 2 ^ 32 = 0 then None
         else (let stagger = interval_ns div (node_count mod 2 ^ 32) in
           Some (\<lparr>np_nodes = nodes, np_rr_idx = 0, np_password = password, np_error_threshold = error_threshold,
                  np_newnym_cooldown = newnym_cooldown\<rparr>,
                 map (\<lambda>i. stagger * (i mod 2 ^ 32) + interval_ns) [0..<node_count])))"

subsection \<open>Selection\<close>

definition candidates_at :: "int \<Rightarrow> node_state list \<Rightarrow> (nat \<times> node_state) list" where
  "candidates_at now nodes =
     (let avail = filter (\<lambda>(_, n). ns_cooldown_until n \<le> now) (enumerate 0 nodes)
      in if avail = [] then enumerate 0 nodes else avail)"

text \<open>\<^verbatim>\<open>cycle().skip(rr).take(len)\<close>\<close>

definition cycle_from :: "nat \<Rightarrow> 'a list \<Rightarrow> 'a list" where
  "cycle_from k xs = map (\<lambda>i. xs ! ((k + i) mod length xs)) [0..<length xs]"

definition get_ordered_nodes :: "int \<Rightarrow> node_pool \<Rightarrow> ((nat \<times> tor_node_config) list \<times> node_pool) option" where
  "get_ordered_nodes now p =
     (let pool = candidates_at now (np_nodes p) in
      if length pool = 0 then None
      else (let rr = unat (np_rr_idx p + 1) mod length pool in
        Some (map (\<lambda>(i, n). (i, ns_config n)) (cycle_from rr pool), p\<lparr>np_rr_idx := of_nat rr\<rparr>)))"

subsection \<open>Outcomes\<close>

definition upd_node :: "nat \<Rightarrow> (node_state \<Rightarrow> node_state) \<Rightarrow> node_pool \<Rightarrow> node_pool" where
  "upd_node i f p =
     (if i < length (np_nodes p) then p\<lparr>np_nodes := (np_nodes p)[i := f (np_nodes p ! i)]\<rparr> else p)"

definition count_success :: "node_state \<Rightarrow> node_state" where
  "count_success n = n\<lparr>ns_consecutive_errors := 0,
     ns_stats := (ns_stats n)\<lparr>st_success := st_success (ns_stats n) + 1, st_requests := st_requests (ns_stats n) + 1\<rparr>\<rparr>"

definition count_error :: "node_state \<Rightarrow> node_state" where
  "count_error n = n\<lparr>ns_consecutive_errors := ns_consecutive_errors n + 1,
     ns_stats := (ns_stats n)\<lparr>st_errors := st_errors (ns_stats n) + 1, st_requests := st_requests (ns_stats n) + 1\<rparr>\<rparr>"

definition on_success :: "nat \<Rightarrow> node_pool \<Rightarrow> node_pool" where
  "on_success i p = upd_node i count_success p"

definition should_rotate :: "nat \<Rightarrow> node_pool \<Rightarrow> bool" where
  "should_rotate i p =
     (i < length (np_nodes p) \<and> np_error_threshold p \<le> ns_consecutive_errors (np_nodes p ! i))"

subsection \<open>Rotation\<close>

text \<open>The host and control port, if the node exists and its last rotation is long enough ago.\<close>

definition rotate_check :: "int \<Rightarrow> nat \<Rightarrow> node_pool \<Rightarrow> (string \<times> u16) option" where
  "rotate_check now i p =
     (if i < length (np_nodes p)
      then (let n = np_nodes p ! i; elapsed = max 0 (now - ns_last_newnym n) in
        if int (np_newnym_cooldown p) \<le> elapsed
        then Some (tn_host (ns_config n), tn_control_port (ns_config n)) else None)
      else None)"

definition rotated :: "int \<Rightarrow> int \<Rightarrow> nat \<Rightarrow> node_state \<Rightarrow> node_state" where
  "rotated now1 now2 cooldown n = n\<lparr>ns_last_newnym := now1, ns_cooldown_until := now2 + int cooldown,
     ns_consecutive_errors := 0,
     ns_stats := (ns_stats n)\<lparr>st_rotations := st_rotations (ns_stats n) + 1\<rparr>\<rparr>"

definition rotate_commit :: "int \<Rightarrow> int \<Rightarrow> nat \<Rightarrow> node_pool \<Rightarrow> node_pool" where
  "rotate_commit now1 now2 i p = upd_node i (rotated now1 now2 (np_newnym_cooldown p)) p"

record 'x tor_world =
  tw_pool :: node_pool
  tw_ext :: 'x

text \<open>
  \<open>to_now k w\<close> is the \<open>k\<close>-th clock reading of a step; \<open>to_control\<close> the connection to a control port with what
  arrives on it after the first line.
\<close>

record 'x tor_os =
  to_now :: "nat \<Rightarrow> 'x tor_world \<Rightarrow> int"
  to_control :: "string \<Rightarrow> u16 \<Rightarrow> 'x tor_world \<Rightarrow> (connect_result \<times> u8 list) \<times> 'x tor_world"

definition rotate_node :: "'x tor_os \<Rightarrow> nat \<Rightarrow> 'x tor_world \<Rightarrow> 'x tor_world" where
  "rotate_node os i w =
     (case rotate_check (to_now os 0 w) i (tw_pool w) of
        None \<Rightarrow> w
      | Some (host, control_port) \<Rightarrow>
          (let ((conn, second), w1) = to_control os host control_port w in
           case fst (send_newnym (np_password (tw_pool w)) conn second) of
             Inr _ \<Rightarrow> w1\<lparr>tw_pool := rotate_commit (to_now os 0 w1) (to_now os 1 w1) i (tw_pool w1)\<rparr>
           | Inl e \<Rightarrow> w1))"

definition on_error :: "'x tor_os \<Rightarrow> nat \<Rightarrow> 'x tor_world \<Rightarrow> 'x tor_world" where
  "on_error os i w =
     (let w1 = w\<lparr>tw_pool := upd_node i count_error (tw_pool w)\<rparr>
      in if should_rotate i (tw_pool w1) then rotate_node os i w1 else w1)"

subsection \<open>Status\<close>

record node_status =
  sv_host :: string
  sv_available :: bool
  sv_consecutive_errors :: u32
  sv_stats :: node_stats

definition pool_status :: "int \<Rightarrow> node_pool \<Rightarrow> node_status list" where
  "pool_status now p =
     map (\<lambda>n. \<lparr>sv_host = tn_host (ns_config n), sv_available = (ns_cooldown_until n \<le> now),
                sv_consecutive_errors = ns_consecutive_errors n, sv_stats = ns_stats n\<rparr>) (np_nodes p)"

subsection \<open>The pool as a state machine\<close>

text \<open>Everything that any task does to the pool, one lock at a time.\<close>

inductive tor_step :: "node_pool \<Rightarrow> node_pool \<Rightarrow> bool" where
  select: "get_ordered_nodes now p = Some (ns, p') \<Longrightarrow> tor_step p p'"
| success: "tor_step p (on_success i p)"
| failure: "tor_step p (upd_node i count_error p)"
| rotate: "tor_step p (rotate_commit now1 now2 i p)"

inductive_cases tor_stepE: "tor_step p p'"

abbreviation tor_steps :: "node_pool \<Rightarrow> node_pool \<Rightarrow> bool" where
  "tor_steps \<equiv> tor_step\<^sup>*\<^sup>*"

subsection \<open>Lemmas\<close>

lemma cycle_from_rotate: "cycle_from k xs = rotate k xs"
  by (rule nth_equalityI) (simp_all add: cycle_from_def nth_rotate)

lemma candidates_at_empty [simp]: "candidates_at now nodes = [] \<longleftrightarrow> nodes = []"
  by (cases nodes) (simp_all add: candidates_at_def Let_def)

lemma length_candidates_at: "length (candidates_at now nodes) \<le> length nodes"
  using length_filter_le [of "\<lambda>(_, n). ns_cooldown_until n \<le> now" "enumerate 0 nodes"]
  by (simp add: candidates_at_def Let_def)

text \<open>The cursor and the answer of a selection.\<close>

definition next_rr :: "int \<Rightarrow> node_pool \<Rightarrow> nat" where
  "next_rr now p = unat (np_rr_idx p + 1) mod length (candidates_at now (np_nodes p))"

lemma get_ordered_nodes_eq:
  "get_ordered_nodes now p =
    (if np_nodes p = [] then None
     else Some (rotate (next_rr now p) (map (\<lambda>(i, n). (i, ns_config n)) (candidates_at now (np_nodes p))),
                p\<lparr>np_rr_idx := of_nat (next_rr now p)\<rparr>))"
  by (simp add: get_ordered_nodes_def Let_def next_rr_def cycle_from_rotate rotate_map)

lemma upd_node_nodes:
  "np_nodes (upd_node i f p) = (if i < length (np_nodes p) then (np_nodes p)[i := f (np_nodes p ! i)] else np_nodes p)"
  by (simp add: upd_node_def)

lemma upd_node_frame [simp]:
  "np_rr_idx (upd_node i f p) = np_rr_idx p" "np_password (upd_node i f p) = np_password p"
  "np_error_threshold (upd_node i f p) = np_error_threshold p"
  "np_newnym_cooldown (upd_node i f p) = np_newnym_cooldown p"
  "length (np_nodes (upd_node i f p)) = length (np_nodes p)"
  by (simp_all add: upd_node_def)

definition balanced :: "node_state \<Rightarrow> bool" where
  "balanced n = (st_requests (ns_stats n) = st_success (ns_stats n) + st_errors (ns_stats n))"

definition pool_inv :: "tor_node_config list \<Rightarrow> node_pool \<Rightarrow> bool" where
  "pool_inv configs p =
     (map ns_config (np_nodes p) = configs \<and> unat (np_rr_idx p) < length configs
      \<and> length configs < 2 ^ 64 \<and> (\<forall>n\<in>set (np_nodes p). balanced n))"

lemma pool_inv_upd_node:
  assumes "pool_inv configs p" and "\<And>n. ns_config (f n) = ns_config n" and "\<And>n. balanced n \<Longrightarrow> balanced (f n)"
  shows "pool_inv configs (upd_node i f p)"
proof -
  have "map ns_config ((np_nodes p)[i := f (np_nodes p ! i)]) = map ns_config (np_nodes p)" if "i < length (np_nodes p)"
    using that assms(2) by (simp add: map_update list_update_same_conv)
  moreover have "balanced n" if "n \<in> set ((np_nodes p)[i := f (np_nodes p ! i)])" "i < length (np_nodes p)" for n
    using that assms(1,3) set_update_subset_insert [of "np_nodes p" i "f (np_nodes p ! i)"]
    by (auto simp: pool_inv_def)
  ultimately show ?thesis using assms(1) by (auto simp: pool_inv_def upd_node_nodes)
qed

lemma pool_inv_select:
  assumes "pool_inv configs p" and "get_ordered_nodes now p = Some (ns, p')"
  shows "pool_inv configs p'"
proof -
  have len: "length (np_nodes p) = length configs"
    using assms(1) by (auto simp: pool_inv_def)
  have ne: "np_nodes p \<noteq> []" and p': "p' = p\<lparr>np_rr_idx := of_nat (next_rr now p)\<rparr>"
    using assms(2) by (auto simp: get_ordered_nodes_eq split: if_splits)
  have "next_rr now p < length (candidates_at now (np_nodes p))"
    unfolding next_rr_def using ne by (intro mod_less_divisor) simp
  then have k: "next_rr now p < length configs" using length_candidates_at [of now "np_nodes p"] len by simp
  moreover have "unat (of_nat (next_rr now p) :: u64) = next_rr now p"
    using k assms(1) by (simp add: pool_inv_def unat_of_nat)
  ultimately show ?thesis using assms(1) p' by (simp add: pool_inv_def)
qed

lemma balanced_outcomes:
  "balanced n \<Longrightarrow> balanced (count_success n)" "balanced n \<Longrightarrow> balanced (count_error n)"
  "balanced n \<Longrightarrow> balanced (rotated now1 now2 cd n)"
  by (simp_all add: balanced_def count_success_def count_error_def rotated_def)

lemma config_outcomes [simp]:
  "ns_config (count_success n) = ns_config n" "ns_config (count_error n) = ns_config n"
  "ns_config (rotated now1 now2 cd n) = ns_config n"
  by (simp_all add: count_success_def count_error_def rotated_def)

lemma pool_inv_step:
  assumes "tor_step p p'" and "pool_inv configs p"
  shows "pool_inv configs p'"
  using assms
proof cases
  case (select now ns)
  then show ?thesis using assms(2) pool_inv_select by blast
next
  case (success i)
  then show ?thesis using assms(2) by (simp add: on_success_def pool_inv_upd_node balanced_outcomes)
next
  case (failure i)
  then show ?thesis using assms(2) by (simp add: pool_inv_upd_node balanced_outcomes)
next
  case (rotate now1 now2 i)
  then show ?thesis using assms(2) by (simp add: rotate_commit_def pool_inv_upd_node balanced_outcomes)
qed

lemma pool_inv_new:
  assumes "node_pool_new now configs pw th cd ri = Some (p, delays)" and "length configs < 2 ^ 64"
  shows "pool_inv configs p"
proof -
  have "configs \<noteq> []" using assms(1) by (auto simp: node_pool_new_def Let_def)
  moreover have "p = \<lparr>np_nodes = map (new_node now) configs, np_rr_idx = 0, np_password = pw, np_error_threshold = th,
      np_newnym_cooldown = cd\<rparr>"
    using assms(1) by (auto simp: node_pool_new_def Let_def split: if_splits)
  ultimately show ?thesis using assms(2) by (simp add: pool_inv_def o_def new_node_def balanced_def)
qed

lemma pool_inv_steps: "tor_steps p p' \<Longrightarrow> pool_inv configs p \<Longrightarrow> pool_inv configs p'"
  by (induction rule: rtranclp_induct) (auto intro: pool_inv_step)

text \<open>The first choices of \<open>m\<close> selections in a row.\<close>

fun first_choices :: "int \<Rightarrow> nat \<Rightarrow> node_pool \<Rightarrow> nat list" where
  "first_choices now 0 p = []"
| "first_choices now (Suc m) p =
     (case get_ordered_nodes now p of
        None \<Rightarrow> []
      | Some (ns, p') \<Rightarrow> fst (hd ns) # first_choices now m p')"

lemma first_choices_eq:
  assumes "np_nodes p \<noteq> []" and "unat (np_rr_idx p) < length (np_nodes p)" and "length (np_nodes p) < 2 ^ 64"
  shows "first_choices now m p =
    map (\<lambda>k. fst (candidates_at now (np_nodes p) ! ((unat (np_rr_idx p) + 1 + k) mod length (candidates_at now (np_nodes p)))))
      [0..<m]"
  using assms
proof (induction m arbitrary: p)
  case (Suc m)
  let ?c = "candidates_at now (np_nodes p)"
  let ?n = "length ?c" and ?rr = "next_rr now p"
  define p' where "p' = p\<lparr>np_rr_idx := of_nat ?rr\<rparr>"
  have n: "0 < ?n" "?n \<le> length (np_nodes p)" using Suc.prems length_candidates_at [of now "np_nodes p"] by simp_all
  have inc: "unat (np_rr_idx p + 1) = unat (np_rr_idx p) + 1"
    using Suc.prems(2,3) by (simp add: unat_word_ariths)
  then have rr: "?rr = (unat (np_rr_idx p) + 1) mod ?n" by (simp add: next_rr_def)
  then have small: "?rr < ?n" using n by simp
  then have idx: "unat (np_rr_idx p') = ?rr" using n Suc.prems by (simp add: p'_def unat_of_nat)
  have sel: "get_ordered_nodes now p = Some (rotate ?rr (map (\<lambda>(i, n). (i, ns_config n)) ?c), p')"
    using Suc.prems by (simp add: get_ordered_nodes_eq p'_def)
  have head: "fst (hd (rotate ?rr (map (\<lambda>(i, n). (i, ns_config n)) ?c))) = fst (?c ! ?rr)"
  proof -
    have "?c \<noteq> []" using n by auto
    then show ?thesis using small by (simp add: rotate_map hd_map hd_rotate_conv_nth prod.case_eq_if)
  qed
  have "first_choices now m p' = map (\<lambda>k. fst (?c ! ((?rr + 1 + k) mod ?n))) [0..<m]"
    using Suc.IH [of p'] Suc.prems idx small n by (simp add: p'_def)
  also have "\<dots> = map (\<lambda>k. fst (?c ! ((unat (np_rr_idx p) + 1 + Suc k) mod ?n))) [0..<m]"
  proof -
    have "(?rr + (1 + k)) mod ?n = (unat (np_rr_idx p) + 1 + (1 + k)) mod ?n" for k
      unfolding rr by (rule mod_add_left_eq)
    then show ?thesis by (simp add: add.assoc)
  qed
  finally have rest: "first_choices now m p' = map (\<lambda>k. fst (?c ! ((unat (np_rr_idx p) + 1 + Suc k) mod ?n))) [0..<m]" .
  show ?case
    unfolding first_choices.simps sel option.case prod.case head rest unfolding rr
    by (simp add: map_upt_Suc del: upt_Suc)
qed simp

subsection \<open>Properties\<close>

text \<open>
  C35: Whatever the requests and the rotation tasks do, and in whatever order, the pool keeps the configured
  nodes in their order, the requests of every node are the sum of its successes and errors, the
  cursor stays inside the pool, and selecting nodes never panics.
\<close>

theorem tor_pool_invariant:
  assumes "node_pool_new now configs pw th cd ri = Some (p0, delays)" and "length configs < 2 ^ 64"
    and "tor_steps p0 p"
  shows "map ns_config (np_nodes p) = configs
    \<and> list_all (\<lambda>n. st_requests (ns_stats n) = st_success (ns_stats n) + st_errors (ns_stats n)) (np_nodes p)
    \<and> unat (np_rr_idx p) < length configs \<and> get_ordered_nodes now' p \<noteq> None"
  using pool_inv_steps [OF assms(3) pool_inv_new [OF assms(1,2)]]
  by (auto simp: pool_inv_def balanced_def list_all_iff get_ordered_nodes_eq)

definition sample_nodes :: "tor_node_config list" where
  "sample_nodes =
     [\<lparr>tn_host = ''a'', tn_socks_port = 9050, tn_control_port = 9051\<rparr>,
      \<lparr>tn_host = ''b'', tn_socks_port = 9050, tn_control_port = 9051\<rparr>]"

definition sample_pool :: node_pool where
  "sample_pool = \<lparr>np_nodes = map (new_node 0) sample_nodes, np_rr_idx = 0, np_password = [], np_error_threshold = 3,
     np_newnym_cooldown = 15000\<rparr>"

lemma sample_pool_new: "\<exists>delays. node_pool_new 0 sample_nodes [] 3 15000 1000 = Some (sample_pool, delays)"
  by (simp add: node_pool_new_def sample_pool_def sample_nodes_def)

lemma tor_pool_invariant_witness:
  "get_ordered_nodes 7 (on_success 1 (upd_node 0 count_error sample_pool)) \<noteq> None"
proof -
  obtain delays where new: "node_pool_new 0 sample_nodes [] 3 15000 1000 = Some (sample_pool, delays)"
    using sample_pool_new ..
  have "tor_steps sample_pool (upd_node 0 count_error sample_pool)" using tor_step.failure by blast
  then have "tor_steps sample_pool (on_success 1 (upd_node 0 count_error sample_pool))"
    using tor_step.success by (rule rtranclp.rtrancl_into_rtrancl)
  from tor_pool_invariant [OF new _ this] show ?thesis by (simp add: sample_nodes_def)
qed

text \<open>
  C36: Selection. The nodes come back each exactly once, with their configuration; they are the nodes that are
  not cooling down, or all of them if every node is. Selections in a row, as many as there are such nodes, put
  each of them first exactly once.
\<close>

theorem tor_selection_fair:
  assumes "np_nodes p \<noteq> []" and "unat (np_rr_idx p) < length (np_nodes p)" and "length (np_nodes p) < 2 ^ 64"
    and c_def: "c = candidates_at now (np_nodes p)"
  shows "(\<exists>ns p'. get_ordered_nodes now p = Some (ns, p') \<and> mset ns = mset (map (\<lambda>(i, n). (i, ns_config n)) c))
    \<and> mset (first_choices now (length c) p) = mset (map fst c)
    \<and> map fst c = (let avail = filter (\<lambda>i. ns_cooldown_until (np_nodes p ! i) \<le> now) [0..<length (np_nodes p)]
                  in if avail = [] then [0..<length (np_nodes p)] else avail)"
proof -
  let ?k = "(unat (np_rr_idx p) + 1) mod length c"
  have "first_choices now (length c) p = map fst (cycle_from ?k c)"
    unfolding first_choices_eq [OF assms(1-3)] cycle_from_def c_def by (simp add: mod_simps)
  then have heads: "mset (first_choices now (length c) p) = mset (map fst c)"
    by (simp add: cycle_from_rotate rotate_map [symmetric])
  have "map fst (filter (\<lambda>(_, n). ns_cooldown_until n \<le> now) (enumerate 0 (np_nodes p)))
      = filter (\<lambda>i. ns_cooldown_until (np_nodes p ! i) \<le> now) [0..<length (np_nodes p)]"
  proof -
    have e: "enumerate 0 (np_nodes p) = map (\<lambda>i. (i, np_nodes p ! i)) [0..<length (np_nodes p)]"
      by (rule nth_equalityI) (simp_all add: nth_enumerate_eq)
    show ?thesis unfolding e by (simp add: filter_map o_def)
  qed
  then have idx: "map fst c = (let avail = filter (\<lambda>i. ns_cooldown_until (np_nodes p ! i) \<le> now) [0..<length (np_nodes p)]
                  in if avail = [] then [0..<length (np_nodes p)] else avail)"
    by (auto simp: c_def candidates_at_def Let_def simp flip: map_is_Nil_conv)
  have "\<exists>ns p'. get_ordered_nodes now p = Some (ns, p') \<and> mset ns = mset (map (\<lambda>(i, n). (i, ns_config n)) c)"
    using assms(1) by (simp add: get_ordered_nodes_eq c_def)
  with heads idx show ?thesis by (intro conjI)
qed

lemma tor_selection_fair_witness:
  "mset (first_choices 7 2 sample_pool) = {#0, 1#}"
proof -
  have c: "map fst (candidates_at 7 (np_nodes sample_pool)) = [0, 1]" "np_nodes sample_pool \<noteq> []"
    "length (np_nodes sample_pool) = 2" "np_rr_idx sample_pool = 0"
    by (simp_all add: sample_pool_def sample_nodes_def candidates_at_def new_node_def)
  then have "length (candidates_at 7 (np_nodes sample_pool)) = 2" by (metis length_map length_Cons list.size(3) numeral_2_eq_2)
  with c show ?thesis using tor_selection_fair [OF c(2) _ _ refl, of 7] by (simp del: mset_map)
qed

text \<open>
  A rotated node rests. Until its cooldown is over it is not selected, as long as another node is
  available, and no second circuit change of it is started within the cooldown.
\<close>

lemma rotated_node_rests:
  assumes "i < length (np_nodes p)" and "now < now2 + int (np_newnym_cooldown p)"
    and "j < length (np_nodes p)" and "j \<noteq> i" and "ns_cooldown_until (np_nodes p ! j) \<le> now"
    and "get_ordered_nodes now (rotate_commit now1 now2 i p) = Some (ns, p')"
  shows "i \<notin> fst ` set ns
    \<and> (now1 \<le> now \<and> now < now1 + int (np_newnym_cooldown p) \<longrightarrow> rotate_check now i (rotate_commit now1 now2 i p) = None)"
proof -
  let ?q = "rotate_commit now1 now2 i p"
  let ?avail = "filter (\<lambda>(_, n). ns_cooldown_until n \<le> now) (enumerate 0 (np_nodes ?q))"
  have q: "np_nodes ?q = (np_nodes p)[i := rotated now1 now2 (np_newnym_cooldown p) (np_nodes p ! i)]"
    using assms(1) by (simp add: rotate_commit_def upd_node_nodes)
  have "(j, np_nodes p ! j) \<in> set ?avail"
    using assms(3-5) by (simp add: q in_set_enumerate_eq)
  then have ne: "?avail \<noteq> []" by (metis empty_iff empty_set)
  have "fst ` set ns = fst ` set (candidates_at now (np_nodes ?q))"
    using assms(6) by (force simp: get_ordered_nodes_eq split: if_splits)
  also have "\<dots> = fst ` set ?avail" using ne by (simp add: candidates_at_def)
  finally have "i \<notin> fst ` set ns"
    using assms(1,2) by (auto simp: q in_set_enumerate_eq rotated_def)
  moreover have "np_newnym_cooldown ?q = np_newnym_cooldown p" by (simp add: rotate_commit_def)
  ultimately show ?thesis using assms(1) by (auto simp: rotate_check_def q rotated_def Let_def)
qed

lemma rotated_node_rests_witness:
  "\<exists>ns p'. get_ordered_nodes 100 (rotate_commit 50 51 0 sample_pool) = Some (ns, p') \<and> 0 \<notin> fst ` set ns"
proof -
  obtain ns p' where sel: "get_ordered_nodes 100 (rotate_commit 50 51 0 sample_pool) = Some (ns, p')"
    by (simp add: get_ordered_nodes_eq rotate_commit_def upd_node_nodes sample_pool_def sample_nodes_def)
  have "0 \<notin> fst ` set ns"
    using rotated_node_rests [OF _ _ _ _ _ sel, of 1]
    by (simp add: sample_pool_def sample_nodes_def new_node_def)
  with sel show ?thesis by blast
qed

end
