(* ===== verification/TorProxy.thy ===== *)
theory TorProxy
  imports TorPool Ipv6Proxy
begin

text \<open>
  \<^verbatim>\<open>tor-proxy\<close>: \<^verbatim>\<open>handler.rs\<close>, \<^verbatim>\<open>tunnel.rs\<close>, \<^verbatim>\<open>health.rs\<close> and the
  configuration in \<^verbatim>\<open>main.rs\<close>, on top of the node pool and the SOCKS5 handshake. TLS and HTTP/1 over the
  established stream are \<open>te_exchange\<close>. The result of every tunnelled request is kept in a history that nothing
  reads. \<open>None\<close> is a panic, which aborts the process.
\<close>

subsection \<open>Surroundings\<close>

record http1_request =
  h1_method :: string
  h1_uri :: string
  h1_headers :: "(string \<times> string) list"
  h1_body :: string

record ('h, 'u, 'x) tor_env =
  te_libs :: "('h, 'u) libs"
  te_os :: "'x tor_os"
  te_url_error :: "string \<Rightarrow> string"
  te_connect :: "string \<Rightarrow> u16 \<Rightarrow> 'x tor_world \<Rightarrow> connect_result \<times> 'x tor_world"
  te_exchange :: "bool \<Rightarrow> string \<Rightarrow> tcp \<Rightarrow> http1_request \<Rightarrow> 'x tor_world \<Rightarrow> (string + raw_response) \<times> 'x tor_world"
  te_to_str :: "string \<Rightarrow> bool"

abbreviation te_headers :: "('h, 'u, 'x) tor_env \<Rightarrow> 'h header_ops" where
  "te_headers E \<equiv> lb_headers (te_libs E)"

subsection \<open>The tunnel\<close>

datatype tunnel_result =
    TR_Ok u16 "(string \<times> string) list" string
  | TR_Err string
  | TR_Panic

definition http1_request_for :: "string \<Rightarrow> string \<Rightarrow> string \<Rightarrow> (string \<times> string) list \<Rightarrow> string option \<Rightarrow> http1_request" where
  "http1_request_for host path meth headers body =
     \<lparr>h1_method = meth, h1_uri = path, h1_headers = (''host'', host) # headers, h1_body = unwrap_or body []\<rparr>"

definition tunnel_answer :: "(string \<Rightarrow> bool) \<Rightarrow> string + raw_response \<Rightarrow> tunnel_result" where
  "tunnel_answer to_str res =
     (case res of
        Inl e \<Rightarrow> TR_Err e
      | Inr (status, headers, body) \<Rightarrow>
          (case read_all body of
             Inl e \<Rightarrow> TR_Err (describe_reqwest_error e)
           | Inr b \<Rightarrow> TR_Ok status (map (\<lambda>(k, v). (k, if to_str v then v else [])) headers) b))"

definition http_over_socks5 :: "('h, 'u, 'x) tor_env \<Rightarrow> string \<Rightarrow> u16 \<Rightarrow> string \<Rightarrow> string \<Rightarrow> (string \<times> string) list
    \<Rightarrow> string option \<Rightarrow> 'x tor_world \<Rightarrow> tunnel_result \<times> 'x tor_world" where
  "http_over_socks5 E proxy_host proxy_port target_url meth headers body w =
     (let U = lb_url (te_libs E) in
      case uo_parse U target_url of
        None \<Rightarrow> (TR_Err (te_url_error E target_url), w)
      | Some parsed \<Rightarrow>
          (case uo_host U parsed of
             None \<Rightarrow> (TR_Err ''no host in URL'', w)
           | Some host \<Rightarrow>
               (let (conn, w1) = te_connect E proxy_host proxy_port w in
                case socks5_connect host (url_port U parsed) conn of
                  SK_Panic \<Rightarrow> (TR_Panic, w1)
                | SK_Err e \<Rightarrow> (TR_Err e, w1)
                | SK_Ok raw_stream \<Rightarrow>
                    (let (res, w2) = te_exchange E (url_is_https U parsed) host raw_stream
                           (http1_request_for host (url_path_and_query U parsed) meth headers body) w1
                     in (tunnel_answer (te_to_str E) res, w2)))))"

subsection \<open>Replies\<close>

definition TOR_SKIP_RESPONSE_HEADERS :: "string list" where
  "TOR_SKIP_RESPONSE_HEADERS = [''content-security-policy'', ''x-frame-options'', ''transfer-encoding'']"

definition RATE_LIMIT_CODES :: "u16 list" where
  "RATE_LIMIT_CODES = [429, 500, 503]"

definition resolve_location :: "'u url_ops \<Rightarrow> string \<Rightarrow> string \<Rightarrow> string" where
  "resolve_location U location base_url =
     (if is_http_url location then location
      else (case (if starts_with location ''//'' then uo_parse U base_url else None) of
          Some base \<Rightarrow> uo_scheme U base @ '':'' @ location
        | None \<Rightarrow>
            (case uo_parse U base_url of
               None \<Rightarrow> location
             | Some base \<Rightarrow>
                 (case uo_join U base location of Some resolved \<Rightarrow> uo_string U resolved | None \<Rightarrow> location))))"

definition tor_add_header :: "('h, 'u) libs \<Rightarrow> u16 \<Rightarrow> string \<Rightarrow> string \<times> string \<Rightarrow> 'h \<Rightarrow> 'h" where
  "tor_add_header L status target_url e h =
     (let H = lb_headers L; (name, value) = e; name_lower = to_ascii_lowercase name in
      if name_lower \<in> set TOR_SKIP_RESPONSE_HEADERS then h
      else if name_lower = ''location'' \<and> is_redirection status
      then (let resolved = resolve_location (lb_url L) value target_url
            in if ho_value_str H resolved then ho_insert H ''location'' resolved h else h)
      else (case ho_name H name of
          Some n \<Rightarrow> if ho_value_str H value then ho_append H n value h else h
        | None \<Rightarrow> h))"

definition tor_build_response :: "('h, 'u) libs \<Rightarrow> u16 \<Rightarrow> (string \<times> string) list \<Rightarrow> string \<Rightarrow> string
    \<Rightarrow> ('h, body_stream) reply" where
  "tor_build_response L status_code resp_headers body target_url =
     (let H = lb_headers L; status = unwrap_or (status_from_u16 status_code) 500
      in \<lparr>rp_status = status,
          rp_headers = fold (tor_add_header L status target_url) resp_headers (insert_all H cors_headers (ho_empty H)),
          rp_body = RB_Full body\<rparr>)"

subsection \<open>The handler\<close>

text \<open>The history of tunnelled requests (node and result), and the world.\<close>

type_synonym 'x tor_run = "(nat \<times> tunnel_result) list \<times> 'x tor_world"

fun tor_attempts :: "('h, 'u, 'x) tor_env \<Rightarrow> string \<Rightarrow> string \<Rightarrow> (string \<times> string) list \<Rightarrow> string option
    \<Rightarrow> (nat \<times> tor_node_config) list \<Rightarrow> string option \<Rightarrow> 'x tor_run
    \<Rightarrow> (('h, body_stream) reply \<times> 'x tor_run) option" where
  "tor_attempts E target_url meth pairs body [] last_error r =
     Some (text_response (te_headers E) 503 (''Tor proxy error: '' @ unwrap_or last_error ''all nodes failed''), r)"
| "tor_attempts E target_url meth pairs body ((i, node) # nodes) last_error r =
     (let (res, w1) = http_over_socks5 E (tn_host node) (tn_socks_port node) target_url meth pairs body (snd r);
          hist = fst r @ [(i, res)]
      in case res of
           TR_Panic \<Rightarrow> None
         | TR_Ok status_code resp_headers resp_body \<Rightarrow>
             if status_code \<in> set RATE_LIMIT_CODES
             then tor_attempts E target_url meth pairs body nodes
                    (Some (show_nat (unat status_code) @ '' from '' @ tn_host node)) (hist, on_error (te_os E) i w1)
             else Some (tor_build_response (te_libs E) status_code resp_headers resp_body target_url,
                        (hist, w1\<lparr>tw_pool := on_success i (tw_pool w1)\<rparr>))
         | TR_Err e \<Rightarrow>
             tor_attempts E target_url meth pairs body nodes (Some e) (hist, on_error (te_os E) i w1))"

definition tor_text :: "('h, 'u, 'x) tor_env \<Rightarrow> string \<Rightarrow> 'x tor_run \<Rightarrow> (('h, body_stream) reply \<times> 'x tor_run) option" where
  "tor_text E msg r = Some (text_response (te_headers E) BAD_REQUEST msg, r)"

definition tor_handler :: "('h, 'u, 'x) tor_env \<Rightarrow> 'h incoming \<Rightarrow> 'x tor_run
    \<Rightarrow> (('h, body_stream) reply \<times> 'x tor_run) option" where
  "tor_handler E req r =
     (let L = te_libs E; H = te_headers E; U = lb_url L in
      case Option.bind (get_str H (in_headers req) ''x-target'') (decode_target L) of
        None \<Rightarrow> tor_text E ''Missing or invalid X-Target header'' r
      | Some target_url \<Rightarrow>
          (case to_bytes MAX_REQUEST_BODY (in_body req) of
             None \<Rightarrow> tor_text E ''Failed to read request body'' r
           | Some body_bytes \<Rightarrow>
               (case uo_parse U target_url of
                  None \<Rightarrow> tor_text E ''Invalid target URL'' r
                | Some parsed \<Rightarrow>
                    (let filtered = filter_request_headers H (in_headers req) (unwrap_or (uo_host U parsed) []);
                         pairs = map (\<lambda>(k, v). (k, if ho_to_str H v then v else [])) (ho_iter H filtered);
                         body = with_body (in_method req) body_bytes
                     in case get_ordered_nodes (to_now (te_os E) 0 (snd r)) (tw_pool (snd r)) of
                          None \<Rightarrow> None
                        | Some (ordered, p) \<Rightarrow>
                            tor_attempts E target_url (in_method req) pairs body ordered None
                              (fst r, (snd r)\<lparr>tw_pool := p\<rparr>)))))"

text \<open>\<open>to_json\<close> is the serialisation of the status of the nodes.\<close>

definition tor_health :: "'h header_ops \<Rightarrow> (node_status list \<Rightarrow> string) \<Rightarrow> int \<Rightarrow> node_pool \<Rightarrow> ('h, body_stream) reply" where
  "tor_health H to_json now p = json_response H STATUS_OK (to_json (pool_status now p))"

subsection \<open>Configuration\<close>

definition parse_tor_node :: "string \<Rightarrow> tor_node_config option" where
  "parse_tor_node entry =
     (case split_on (CHR '':'') (trim entry) of
        [host, socks, control] \<Rightarrow>
          (case parse_uint 16 socks of
             None \<Rightarrow> None
           | Some s \<Rightarrow>
               (case parse_uint 16 control of
                  None \<Rightarrow> None
                | Some c \<Rightarrow> Some \<lparr>tn_host = host, tn_socks_port = of_nat s, tn_control_port = of_nat c\<rparr>))
      | _ \<Rightarrow> None)"

definition parse_tor_nodes :: "string \<Rightarrow> tor_node_config list" where
  "parse_tor_nodes s = List.map_filter parse_tor_node (split_on (CHR '','') s)"

text \<open>\<open>None\<close> is the panic of \<^verbatim>\<open>NodePool::new\<close>.\<close>

definition tor_main_pool :: "int \<Rightarrow> environ \<Rightarrow> (node_pool \<times> nat list) option" where
  "tor_main_pool now env =
     node_pool_new now (parse_tor_nodes (unwrap_or (env ''TOR_NODES'') ''tor-node-1:9050:9051''))
       (unwrap_or (env ''TOR_CONTROL_PASSWORD'') ''torcontrol'')
       (env_u32 env ''ERROR_THRESHOLD'' 3)
       (unat (env_ms env ''NEWNYM_COOLDOWN_MS'' 15000))
       (unat (env_ms env ''ROTATION_INTERVAL_MS'' 3600000))"

subsection \<open>Lemmas\<close>

text \<open>Whether a tunnelled request makes the handler go on to the next node.\<close>

definition tunnel_failed :: "tunnel_result \<Rightarrow> bool" where
  "tunnel_failed res = (case res of TR_Ok s hs b \<Rightarrow> s \<in> set RATE_LIMIT_CODES | TR_Err e \<Rightarrow> True | TR_Panic \<Rightarrow> False)"

text \<open>The world after a tunnelled request of node \<open>i\<close>: the outcome is recorded.\<close>

definition record_outcome :: "('h, 'u, 'x) tor_env \<Rightarrow> nat \<Rightarrow> tunnel_result \<Rightarrow> 'x tor_world \<Rightarrow> 'x tor_world" where
  "record_outcome E i res w1 =
     (if tunnel_failed res then on_error (te_os E) i w1 else w1\<lparr>tw_pool := on_success i (tw_pool w1)\<rparr>)"

text \<open>
  The entries \<open>new\<close> of the history come from tunnels through the nodes in their order; \<open>ws\<close> are the
  worlds in between.
\<close>

definition tunnels_through :: "('h, 'u, 'x) tor_env \<Rightarrow> string \<Rightarrow> string \<Rightarrow> (string \<times> string) list \<Rightarrow> string option
    \<Rightarrow> (nat \<times> tor_node_config) list \<Rightarrow> (nat \<times> tunnel_result) list \<Rightarrow> 'x tor_world list \<Rightarrow> bool" where
  "tunnels_through E url meth pairs body nodes new ws =
     (length new \<le> length nodes \<and> length ws = Suc (length new)
      \<and> (\<forall>k<length new. fst (new ! k) = fst (nodes ! k)
          \<and> (\<exists>w1. http_over_socks5 E (tn_host (snd (nodes ! k))) (tn_socks_port (snd (nodes ! k))) url meth pairs body (ws ! k)
                 = (snd (new ! k), w1)
               \<and> ws ! Suc k = record_outcome E (fst (nodes ! k)) (snd (new ! k)) w1)))"

lemma tunnels_through_Cons:
  assumes "http_over_socks5 E (tn_host node) (tn_socks_port node) url meth pairs body w = (res, w1)"
    and "tunnels_through E url meth pairs body nodes new ws" and "ws ! 0 = record_outcome E i res w1"
  shows "tunnels_through E url meth pairs body ((i, node) # nodes) ((i, res) # new) (w # ws)"
  unfolding tunnels_through_def
proof (intro conjI allI impI)
  fix k assume k: "k < length ((i, res) # new)"
  show "fst (((i, res) # new) ! k) = fst (((i, node) # nodes) ! k)"
    using assms(2) k by (cases k) (simp_all add: tunnels_through_def)
  show "\<exists>w1. http_over_socks5 E (tn_host (snd (((i, node) # nodes) ! k))) (tn_socks_port (snd (((i, node) # nodes) ! k)))
          url meth pairs body ((w # ws) ! k) = (snd (((i, res) # new) ! k), w1)
      \<and> (w # ws) ! Suc k = record_outcome E (fst (((i, node) # nodes) ! k)) (snd (((i, res) # new) ! k)) w1"
    using assms k by (cases k) (simp_all add: tunnels_through_def)
qed (use assms(2) in \<open>simp_all add: tunnels_through_def\<close>)

lemma tor_attempts_spec:
  assumes "tor_attempts E url meth pairs body nodes le r = Some (reply, r')"
  shows "\<exists>new ws. fst r' = fst r @ new \<and> tunnels_through E url meth pairs body nodes new ws
    \<and> ws ! 0 = snd r \<and> ws ! length new = snd r'
    \<and> (\<forall>k. k + 1 < length new \<longrightarrow> tunnel_failed (snd (new ! k)))
    \<and> (if new \<noteq> [] \<and> \<not> tunnel_failed (snd (last new))
       then \<exists>s hs b. snd (last new) = TR_Ok s hs b \<and> reply = tor_build_response (te_libs E) s hs b url
       else length new = length nodes \<and> rp_status reply = 503)"
  using assms
proof (induction nodes arbitrary: le r)
  case Nil
  then have "reply = text_response (te_headers E) 503 (''Tor proxy error: '' @ unwrap_or le ''all nodes failed'')" "r' = r"
    by simp_all
  then have "rp_status reply = 503" "r' = r" by (simp_all only: rp_status_text)
  then show ?case by (intro exI [of _ "[]"] exI [of _ "[snd r]"]) (simp add: tunnels_through_def)
next
  case (Cons nd nodes)
  obtain i node where nd: "nd = (i, node)" by force
  obtain res w1 where run: "http_over_socks5 E (tn_host node) (tn_socks_port node) url meth pairs body (snd r) = (res, w1)"
    by (meson surj_pair)
  show ?case
  proof (cases "tunnel_failed res")
    case False
    with Cons.prems run nd obtain s hs b where ok: "res = TR_Ok s hs b"
      and "reply = tor_build_response (te_libs E) s hs b url" and r': "fst r' = fst r @ [(i, res)]"
      "snd r' = record_outcome E i res w1"
      by (cases res) (auto simp: tunnel_failed_def record_outcome_def)
    moreover have "tunnels_through E url meth pairs body (nd # nodes) [(i, res)] [snd r, snd r']"
      unfolding nd by (rule tunnels_through_Cons [OF run]) (simp_all add: tunnels_through_def r')
    ultimately show ?thesis using False nd
      by (intro exI [of _ "[(i, res)]"] exI [of _ "[snd r, snd r']"]) simp
  next
    case True
    define w2 where "w2 = record_outcome E i res w1"
    obtain le' where "tor_attempts E url meth pairs body nodes le' (fst r @ [(i, res)], w2) = Some (reply, r')"
      using Cons.prems run nd True by (cases res) (auto simp: tunnel_failed_def record_outcome_def w2_def)
    from Cons.IH [OF this] obtain new ws where new: "fst r' = fst r @ (i, res) # new"
      "tunnels_through E url meth pairs body nodes new ws" "ws ! 0 = w2" "ws ! length new = snd r'"
      "\<forall>k. k + 1 < length new \<longrightarrow> tunnel_failed (snd (new ! k))"
      and fin: "if new \<noteq> [] \<and> \<not> tunnel_failed (snd (last new))
       then \<exists>s hs b. snd (last new) = TR_Ok s hs b \<and> reply = tor_build_response (te_libs E) s hs b url
       else length new = length nodes \<and> rp_status reply = 503"
      by auto
    have "tunnels_through E url meth pairs body (nd # nodes) ((i, res) # new) (snd r # ws)"
      using tunnels_through_Cons [OF run new(2)] new(3) by (simp add: nd w2_def)
    moreover have "\<forall>k. k + 1 < length ((i, res) # new) \<longrightarrow> tunnel_failed (snd (((i, res) # new) ! k))"
      using new(5) True by (auto simp: nth_Cons split: nat.split)
    moreover have "if (i, res) # new \<noteq> [] \<and> \<not> tunnel_failed (snd (last ((i, res) # new)))
       then \<exists>s hs b. snd (last ((i, res) # new)) = TR_Ok s hs b \<and> reply = tor_build_response (te_libs E) s hs b url
       else length ((i, res) # new) = length (nd # nodes) \<and> rp_status reply = 503"
      using fin True by (cases new) (auto split: if_splits)
    ultimately show ?thesis using new(1,4) by (intro exI [of _ "(i, res) # new"] exI [of _ "snd r # ws"]) simp
  qed
qed

text \<open>A tunnel dials the node it is given and no other.\<close>

lemma tunnel_dials:
  "f host port = te_connect E host port \<Longrightarrow>
   http_over_socks5 (E\<lparr>te_connect := f\<rparr>) host port url meth pairs body w = http_over_socks5 E host port url meth pairs body w"
  by (simp add: http_over_socks5_def Let_def prod.case_eq_if split: option.split socks_result.split)

text \<open>The headers of a tunnelled request.\<close>

definition tunnel_pairs :: "'h header_ops \<Rightarrow> 'h \<Rightarrow> string \<Rightarrow> (string \<times> string) list" where
  "tunnel_pairs H h host =
     map (\<lambda>(k, v). (k, if ho_to_str H v then v else [])) (ho_iter H (filter_request_headers H h host))"

text \<open>
  The header list of a tunnelled request: \<^verbatim>\<open>filter_request_headers\<close> has put the host in already, and
  the tunnel adds it once more.
\<close>

lemma tunnel_host_twice:
  assumes "header_laws H" and "ho_value_str H host" and "ho_to_str H host"
  shows "map snd (filter (\<lambda>e. fst e = ''host'')
      (h1_headers (http1_request_for host path meth
        (map (\<lambda>(k, v). (k, if ho_to_str H v then v else [])) (ho_iter H (filter_request_headers H h host))) body)))
    = [host, host]"
proof -
  have "header_vals H (filter_request_headers H h host) ''host'' = [host]"
    using assms by (simp add: header_vals_filter_request)
  then have "map snd (filter (\<lambda>e. fst e = ''host'') (ho_iter H (filter_request_headers H h host))) = [host]"
    by (simp add: header_vals_def)
  then show ?thesis
    using assms(3)
    by (simp add: http1_request_for_def filter_map o_def prod.case_eq_if)
      (auto simp: filter_eq_Cons_iff map_eq_Cons_conv)
qed

text \<open>The written form of a node.\<close>

definition show_tor_node :: "tor_node_config \<Rightarrow> string" where
  "show_tor_node n =
     tn_host n @ CHR '':'' # show_nat (unat (tn_socks_port n)) @ CHR '':'' # show_nat (unat (tn_control_port n))"

fun show_tor_nodes :: "tor_node_config list \<Rightarrow> string" where
  "show_tor_nodes [] = []"
| "show_tor_nodes [n] = show_tor_node n"
| "show_tor_nodes (n # ns) = show_tor_node n @ CHR '','' # show_tor_nodes ns"

definition plain_host :: "string \<Rightarrow> bool" where
  "plain_host h = (\<forall>c\<in>set h. graphic c \<and> c \<noteq> CHR '':'' \<and> c \<noteq> CHR '','')"

lemma show_nat_chars: "c \<in> set (show_nat n) \<Longrightarrow> graphic c \<and> c \<noteq> CHR '':'' \<and> c \<noteq> CHR '',''"
  using show_nat_digit [of c n] by (auto simp: graphic_def)

lemma parse_show_tor_node:
  assumes "plain_host (tn_host n)"
  shows "parse_tor_node (show_tor_node n) = Some n" and "CHR '','' \<notin> set (show_tor_node n)"
proof -
  have graph: "\<forall>c\<in>set (show_tor_node n). graphic c"
    using assms show_nat_chars by (auto simp: show_tor_node_def plain_host_def graphic_def)
  have colon: "CHR '':'' \<notin> set (tn_host n)" "CHR '':'' \<notin> set (show_nat m)" for m
    using assms show_nat_chars by (auto simp: plain_host_def)
  have "split_on (CHR '':'') (show_tor_node n)
      = [tn_host n, show_nat (unat (tn_socks_port n)), show_nat (unat (tn_control_port n))]"
    unfolding show_tor_node_def using colon by (simp add: split_on_append_sep split_on_no_sep)
  moreover have "parse_uint 16 (show_nat (unat p)) = Some (unat p)" for p :: u16
    by (rule parse_show_nat) (use unsigned_less [of p] in simp)
  ultimately show "parse_tor_node (show_tor_node n) = Some n"
    by (simp add: parse_tor_node_def trim_graphic [OF graph])
  show "CHR '','' \<notin> set (show_tor_node n)"
    using assms show_nat_chars by (auto simp: show_tor_node_def plain_host_def)
qed

subsection \<open>Properties\<close>

text \<open>
  C12: Failover of the Tor proxy. A request with a readable target and body is tunnelled through the nodes that the pool
  selects, in their order and each at most once: the \<open>k\<close>-th tunnel dials the SOCKS address of the \<open>k\<close>-th
  node and no other, for the decoded target, in the world that the one before left, and its outcome is recorded for
  that node. The handler goes on exactly while a tunnel fails or the origin answers 429, 500 or 503; the first other
  response is relayed, and 503 is the reply only after every node was tried.
\<close>

theorem tor_failover:
  assumes "Option.bind (get_str (te_headers E) (in_headers req) ''x-target'') (decode_target (te_libs E)) = Some url"
    and "to_bytes MAX_REQUEST_BODY (in_body req) = Some bytes" and "uo_parse (lb_url (te_libs E)) url = Some parsed"
    and "get_ordered_nodes (to_now (te_os E) 0 (snd r)) (tw_pool (snd r)) = Some (nodes, p)"
    and "tor_handler E req r = Some (reply, r')"
  defines "pairs \<equiv> tunnel_pairs (te_headers E) (in_headers req) (unwrap_or (uo_host (lb_url (te_libs E)) parsed) [])"
  shows "\<exists>new ws. fst r' = fst r @ new \<and> length new \<le> length nodes
    \<and> ws ! 0 = (snd r)\<lparr>tw_pool := p\<rparr> \<and> ws ! length new = snd r'
    \<and> (\<forall>k<length new. let (i, node) = nodes ! k; res = snd (new ! k) in
         fst (new ! k) = i
         \<and> (\<exists>w1. http_over_socks5 E (tn_host node) (tn_socks_port node) url (in_method req) pairs
                   (with_body (in_method req) bytes) (ws ! k) = (res, w1)
              \<and> ws ! Suc k = (if tunnel_failed res then on_error (te_os E) i w1
                             else w1\<lparr>tw_pool := on_success i (tw_pool w1)\<rparr>))
         \<and> (\<forall>f. f (tn_host node) (tn_socks_port node) = te_connect E (tn_host node) (tn_socks_port node) \<longrightarrow>
              http_over_socks5 (E\<lparr>te_connect := f\<rparr>) (tn_host node) (tn_socks_port node) url (in_method req) pairs
                (with_body (in_method req) bytes) (ws ! k)
              = http_over_socks5 E (tn_host node) (tn_socks_port node) url (in_method req) pairs
                  (with_body (in_method req) bytes) (ws ! k)))
    \<and> (\<forall>k. k + 1 < length new \<longrightarrow> tunnel_failed (snd (new ! k)))
    \<and> (if new \<noteq> [] \<and> \<not> tunnel_failed (snd (last new))
       then \<exists>s hs b. snd (last new) = TR_Ok s hs b \<and> reply = tor_build_response (te_libs E) s hs b url
       else length new = length nodes \<and> rp_status reply = 503)"
proof -
  let ?body = "with_body (in_method req) bytes"
  have "tor_attempts E url (in_method req) pairs ?body nodes None (fst r, (snd r)\<lparr>tw_pool := p\<rparr>) = Some (reply, r')"
    using assms(1-5) by (simp add: tor_handler_def Let_def pairs_def tunnel_pairs_def)
  from tor_attempts_spec [OF this] obtain new ws where
    run: "fst r' = fst r @ new" "tunnels_through E url (in_method req) pairs ?body nodes new ws"
      "ws ! 0 = (snd r)\<lparr>tw_pool := p\<rparr>" "ws ! length new = snd r'"
      "\<forall>k. k + 1 < length new \<longrightarrow> tunnel_failed (snd (new ! k))"
    and fin: "if new \<noteq> [] \<and> \<not> tunnel_failed (snd (last new))
       then \<exists>s hs b. snd (last new) = TR_Ok s hs b \<and> reply = tor_build_response (te_libs E) s hs b url
       else length new = length nodes \<and> rp_status reply = 503" by auto
  have len: "length new \<le> length nodes" using run(2) by (simp add: tunnels_through_def)
  show ?thesis
  proof (intro exI [of _ new] exI [of _ ws] conjI run(1) len run(3-5) fin, intro allI impI)
    fix k assume k: "k < length new"
    obtain i node where n: "nodes ! k = (i, node)" by force
    have tunnel: "fst (new ! k) = i
        \<and> (\<exists>w1. http_over_socks5 E (tn_host node) (tn_socks_port node) url (in_method req) pairs ?body (ws ! k)
               = (snd (new ! k), w1)
             \<and> ws ! Suc k = record_outcome E i (snd (new ! k)) w1)"
      using run(2) k n unfolding tunnels_through_def by (metis fst_conv snd_conv)
    have dial: "\<forall>f. f (tn_host node) (tn_socks_port node) = te_connect E (tn_host node) (tn_socks_port node) \<longrightarrow>
        http_over_socks5 (E\<lparr>te_connect := f\<rparr>) (tn_host node) (tn_socks_port node) url (in_method req) pairs ?body (ws ! k)
        = http_over_socks5 E (tn_host node) (tn_socks_port node) url (in_method req) pairs ?body (ws ! k)"
      using tunnel_dials by blast
    from tunnel dial show "let (i, node) = nodes ! k; res = snd (new ! k) in
         fst (new ! k) = i
         \<and> (\<exists>w1. http_over_socks5 E (tn_host node) (tn_socks_port node) url (in_method req) pairs ?body (ws ! k) = (res, w1)
              \<and> ws ! Suc k = (if tunnel_failed res then on_error (te_os E) i w1
                             else w1\<lparr>tw_pool := on_success i (tw_pool w1)\<rparr>))
         \<and> (\<forall>f. f (tn_host node) (tn_socks_port node) = te_connect E (tn_host node) (tn_socks_port node) \<longrightarrow>
              http_over_socks5 (E\<lparr>te_connect := f\<rparr>) (tn_host node) (tn_socks_port node) url (in_method req) pairs ?body (ws ! k)
              = http_over_socks5 E (tn_host node) (tn_socks_port node) url (in_method req) pairs ?body (ws ! k))"
      unfolding n Let_def prod.case record_outcome_def by blast
  qed
qed

text \<open>A surrounding in which no node can be reached.\<close>

definition sample_tor_env :: "(plain_header_map, unit, unit) tor_env" where
  "sample_tor_env =
     \<lparr>te_libs = ve_libs sample_v6_env,
      te_os = \<lparr>to_now = (\<lambda>_ _. 7), to_control = (\<lambda>_ _ w. ((CN_Timeout, []), w))\<rparr>,
      te_url_error = (\<lambda>_. []), te_connect = (\<lambda>_ _ w. (CN_Err ''refused'', w)),
      te_exchange = (\<lambda>_ _ _ _ w. (Inl [], w)), te_to_str = (\<lambda>_. True)\<rparr>"

lemma sample_tunnel:
  "http_over_socks5 sample_tor_env h p url meth pairs body w = (TR_Err ''refused'', w)"
  by (simp add: http_over_socks5_def sample_tor_env_def sample_v6_env_def socks5_connect_def)

lemma tor_failover_witness:
  "\<exists>reply new w. tor_handler sample_tor_env sample_v6_request ([], \<lparr>tw_pool = sample_pool, tw_ext = ()\<rparr>)
      = Some (reply, new, w) \<and> length new \<le> 2"
proof -
  let ?r = "([], \<lparr>tw_pool = sample_pool, tw_ext = ()\<rparr>) :: unit tor_run"
  have ops: "te_headers sample_tor_env = plain_headers" "lb_b64_decode (te_libs sample_tor_env) x = Some x" for x
    by (simp_all add: sample_tor_env_def sample_v6_env_def)
  have "literal_name ''x-target''" "visible_ascii ''http://h/''" by (simp_all add: literal_name_def visible_ascii_def)
  then have "ph_iter (in_headers sample_v6_request) = [(''x-target'', ''http://h/'')]" and "visible_ascii ''http://h/''"
    by (simp_all add: sample_v6_request_def ph_iter.rep_eq ph_insert.rep_eq ph_empty.rep_eq literal_lower_token visible_ascii_visible)
  then have target: "Option.bind (get_str (te_headers sample_tor_env) (in_headers sample_v6_request) ''x-target'')
      (decode_target (te_libs sample_tor_env)) = Some ''http://h/''"
    unfolding ops by (simp add: get_str_def plain_headers_def decode_target_def ops is_http_url_def starts_with_def utf8_valid_ascii)
  have body: "to_bytes MAX_REQUEST_BODY (in_body sample_v6_request) = Some []"
    by (simp add: to_bytes_def sample_v6_request_def)
  have url: "uo_parse (lb_url (te_libs sample_tor_env)) ''http://h/'' = Some ()"
    by (simp add: sample_tor_env_def sample_v6_env_def)
  have "\<exists>nodes p. get_ordered_nodes 7 sample_pool = Some (nodes, p) \<and> length nodes = 2"
    by (simp add: get_ordered_nodes_eq sample_pool_def sample_nodes_def new_node_def candidates_at_def enumerate_eq_zip upt_rec)
  then obtain nodes p where nodes: "get_ordered_nodes 7 sample_pool = Some (nodes, p)" and two: "length nodes = 2"
    by blast
  have now: "get_ordered_nodes (to_now (te_os sample_tor_env) 0 (snd ?r)) (tw_pool (snd ?r)) = Some (nodes, p)"
    using nodes by (simp add: sample_tor_env_def)
  obtain reply new w where run: "tor_handler sample_tor_env sample_v6_request ?r = Some (reply, new, w)"
  proof -
    have "tor_attempts sample_tor_env url meth pairs body nodes le r \<noteq> None" for url meth pairs body nodes le r
      by (induction nodes arbitrary: le r) (auto simp: sample_tunnel)
    then have "tor_handler sample_tor_env sample_v6_request ?r \<noteq> None"
      using target body url now by (simp add: tor_handler_def Let_def)
    then show ?thesis using that by (metis option.exhaust prod_cases3)
  qed
  from tor_failover [OF target body url now run] two have "length new \<le> 2" by auto
  with run show ?thesis by blast
qed

text \<open>
  The node list in the environment reads back: what is printed for a list of nodes whose host names have no
  white space, colon or comma parses to the same list.
\<close>

theorem parse_print_tor_nodes:
  assumes "list_all (\<lambda>n. plain_host (tn_host n)) nodes" and "nodes \<noteq> []"
  shows "parse_tor_nodes (show_tor_nodes nodes) = nodes"
  using assms
proof (induction nodes rule: show_tor_nodes.induct)
  case (2 n)
  then show ?case by (simp add: parse_tor_nodes_def split_on_no_sep parse_show_tor_node map_filter_simps)
next
  case (3 n m ns)
  then show ?case
    by (simp add: parse_tor_nodes_def split_on_append_sep parse_show_tor_node map_filter_simps)
qed simp

lemma parse_print_tor_nodes_witness: "parse_tor_nodes (show_tor_nodes sample_nodes) = sample_nodes"
  by (rule parse_print_tor_nodes) (simp_all add: sample_nodes_def plain_host_def graphic_def)

end
