(* ===== verification/Frontend.thy ===== *)
theory Frontend
  imports Guarantee Listen SimpleProxy Ipv6Proxy TorProxy "HOL-Library.List_Lexorder"
begin

text \<open>
  The outside of the four servers: the tables of paths built by each \<^verbatim>\<open>main.rs\<close> and the CORS layer around
  them. Matching a path against a table, extracting parameters and applying the layer are the web framework's, the
  record \<open>framework\<close>; the documented rules of its path matcher are \<open>router_laws\<close>. That a response to
  HEAD goes out without its body is the transport's affair.
\<close>

subsection \<open>CORS\<close>

record cors_cfg =
  cl_any_origin :: bool
  cl_methods :: "string list"
  cl_any_header :: bool
  cl_max_age_s :: nat

definition cors_layer :: cors_cfg where
  "cors_layer =
     \<lparr>cl_any_origin = True, cl_methods = [''GET'', ''POST'', ''PUT'', ''DELETE'', ''OPTIONS''], cl_any_header = True,
      cl_max_age_s = 86400\<rparr>"

subsection \<open>The framework\<close>

text \<open>
  \<open>fw_route\<close> chooses a pattern of the table for a path and captures its parameter; \<open>fw_decode\<close> is the
  extractor of a path parameter, which undoes the percent encoding and refuses what is not UTF-8; \<open>fw_preflight\<close> is
  the answer of the CORS layer itself, if it gives one; \<open>fw_decorate\<close> adds its headers to a response;
  \<open>fw_own\<close> are the headers of the framework's own error responses.
\<close>

record 'h framework =
  fw_route :: "string list \<Rightarrow> string \<Rightarrow> (string \<times> string) option"
  fw_decode :: "string \<Rightarrow> string option"
  fw_preflight :: "cors_cfg \<Rightarrow> 'h incoming \<Rightarrow> (u16 \<times> 'h) option"
  fw_decorate :: "cors_cfg \<Rightarrow> 'h incoming \<Rightarrow> 'h \<Rightarrow> 'h"
  fw_own :: 'h

datatype verb = V_Get | V_Any

definition allows :: "verb \<Rightarrow> string \<Rightarrow> bool" where
  "allows v meth = (case v of V_Get \<Rightarrow> meth = ''GET'' \<or> meth = ''HEAD'' | V_Any \<Rightarrow> True)"

type_synonym 'e table = "(string \<times> verb \<times> 'e) list"

text \<open>The endpoint for a request with its parameter, or the status of the framework's refusal.\<close>

definition find_endpoint :: "'h framework \<Rightarrow> 'e table \<Rightarrow> string \<Rightarrow> string \<Rightarrow> u16 + 'e \<times> string" where
  "find_endpoint F routes meth path =
     (case fw_route F (map fst routes) path of
        None \<Rightarrow> Inl 404
      | Some (pat, param) \<Rightarrow>
          (case map_of routes pat of
             None \<Rightarrow> Inl 404
           | Some (v, e) \<Rightarrow> if allows v meth then Inr (e, param) else Inl 405))"

definition own_reply :: "'h framework \<Rightarrow> u16 \<Rightarrow> ('h, 'j) reply" where
  "own_reply F status = \<lparr>rp_status = status, rp_headers = fw_own F, rp_body = RB_Full []\<rparr>"

text \<open>An application: the layer around the table. \<open>serve\<close> runs an endpoint on its parameter.\<close>

definition application :: "'h framework \<Rightarrow> 'e table \<Rightarrow> ('e \<Rightarrow> string \<Rightarrow> (('h, 'j) reply \<times> 's) option)
    \<Rightarrow> 'h incoming \<Rightarrow> string \<Rightarrow> 's \<Rightarrow> (('h, 'j) reply \<times> 's) option" where
  "application F routes serve_endpoint req path s =
     (case fw_preflight F cors_layer req of
        Some (status, hs) \<Rightarrow> Some (\<lparr>rp_status = status, rp_headers = hs, rp_body = RB_Full []\<rparr>, s)
      | None \<Rightarrow>
          map_option (\<lambda>(r, s1). (r\<lparr>rp_headers := fw_decorate F cors_layer req (rp_headers r)\<rparr>, s1))
            (case find_endpoint F routes (in_method req) path of
               Inl status \<Rightarrow> Some (own_reply F status, s)
             | Inr (e, param) \<Rightarrow> serve_endpoint e param))"

subsection \<open>The tables\<close>

datatype endpoint = EP_Health | EP_RouteDetail | EP_ProxyDetail | EP_XTarget | EP_Proxy

definition intermediate_routes :: "endpoint table" where
  "intermediate_routes =
     [(''/health'', V_Get, EP_Health), (''/health/route/{name}'', V_Get, EP_RouteDetail),
      (''/health/proxy'', V_Get, EP_ProxyDetail), (''/x-target/{*encoded}'', V_Any, EP_XTarget),
      (''/{*path}'', V_Any, EP_Proxy), (''/'', V_Any, EP_Proxy)]"

definition simple_routes :: "endpoint table" where
  "simple_routes = [(''/{*path}'', V_Any, EP_Proxy), (''/'', V_Any, EP_Proxy)]"

definition v6_routes :: "endpoint table" where
  "v6_routes = [(''/{*path}'', V_Any, EP_Proxy), (''/'', V_Any, EP_Proxy)]"

definition tor_routes :: "endpoint table" where
  "tor_routes = [(''/health'', V_Get, EP_Health), (''/{*path}'', V_Any, EP_Proxy), (''/'', V_Any, EP_Proxy)]"

subsection \<open>The applications\<close>

text \<open>
  \<open>views\<close> are the printers of the health views, \<open>query\<close> the parsed query string, if it parses. A parameter or
  a query that does not parse is refused before the handler runs.
\<close>

record views =
  vw_selector :: "selector \<Rightarrow> string"
  vw_print :: "json \<Rightarrow> string"

definition intermediate_endpoint :: "'h framework \<Rightarrow> ('h, 'u, 't, 'r, 'm, 'x) env \<Rightarrow> ('r, 'm, 'x) app \<Rightarrow> views
    \<Rightarrow> 'h incoming \<Rightarrow> (string \<rightharpoonup> string) option \<Rightarrow> dns_cache \<Rightarrow> ('r, 'm, 'x) world \<Rightarrow> endpoint \<Rightarrow> string
    \<Rightarrow> ('h, 'r, 'm, 'x) served" where
  "intermediate_endpoint F E A V req query known w e param =
     (case e of
        EP_Health \<Rightarrow> (let (r, w1) = health_handler E (vw_selector V) (vw_print V) w in Some (r, known, w1))
      | EP_RouteDetail \<Rightarrow>
          (case fw_decode F param of
             None \<Rightarrow> Some (own_reply F 400, known, w)
           | Some name \<Rightarrow> (let (r, w1) = route_detail_handler E (vw_print V) name w in Some (r, known, w1)))
      | EP_ProxyDetail \<Rightarrow>
          (case query of
             None \<Rightarrow> Some (own_reply F 400, known, w)
           | Some q \<Rightarrow> (let (r, w1) = proxy_detail_handler E (vw_print V) q w in Some (r, known, w1)))
      | EP_XTarget \<Rightarrow>
          (case fw_decode F param of
             None \<Rightarrow> Some (own_reply F 400, known, w)
           | Some encoded \<Rightarrow> x_target_handler E A encoded req known w)
      | EP_Proxy \<Rightarrow> proxy_handler E A req known w)"

definition intermediate_app :: "'h framework \<Rightarrow> ('h, 'u, 't, 'r, 'm, 'x) env \<Rightarrow> ('r, 'm, 'x) app \<Rightarrow> views \<Rightarrow> 'h incoming
    \<Rightarrow> string \<Rightarrow> (string \<rightharpoonup> string) option \<Rightarrow> dns_cache \<Rightarrow> ('r, 'm, 'x) world \<Rightarrow> ('h, 'r, 'm, 'x) served" where
  "intermediate_app F E A V req path query known w =
     application F intermediate_routes (intermediate_endpoint F E A V req query known w) req path (known, w)"

definition simple_app :: "'h framework \<Rightarrow> ('h, 'u, 'x) sp_env \<Rightarrow> string option \<Rightarrow> 'h incoming \<Rightarrow> string \<Rightarrow> 'x sp_run
    \<Rightarrow> (('h, body_stream) reply \<times> 'x sp_run) option" where
  "simple_app F E auth_token req path r =
     application F simple_routes (\<lambda>e param. Some (sp_handler E auth_token req r)) req path r"

definition v6_app :: "'h framework \<Rightarrow> ('h, 'u, 'p, 'x) v6_env \<Rightarrow> 'p v6_state \<Rightarrow> 'h incoming \<Rightarrow> string
    \<Rightarrow> ('h, 'p, 'x) v6_run \<Rightarrow> (('h, body_stream) reply \<times> ('h, 'p, 'x) v6_run) option" where
  "v6_app F E st req path r = application F v6_routes (\<lambda>e param. Some (v6_handler E st req r)) req path r"

definition tor_app :: "'h framework \<Rightarrow> ('h, 'u, 'x) tor_env \<Rightarrow> (node_status list \<Rightarrow> string) \<Rightarrow> int \<Rightarrow> 'h incoming
    \<Rightarrow> string \<Rightarrow> 'x tor_run \<Rightarrow> (('h, body_stream) reply \<times> 'x tor_run) option" where
  "tor_app F E to_json now req path r =
     application F tor_routes
       (\<lambda>e param. case e of
            EP_Health \<Rightarrow> Some (tor_health (te_headers E) to_json now (tw_pool (snd r)), r)
          | _ \<Rightarrow> tor_handler E req r) req path r"

subsection \<open>The main functions of the other servers\<close>

text \<open>
  A service serves with a state on a port, or ends as \<^verbatim>\<open>exit(1)\<close> with what it logged or as a
  panic. \<open>contents\<close> and \<open>written\<close> are what reading and writing the kernel setting of the IPv6 proxy give; its
  outcome is only reported.
\<close>

datatype 's service = SV_Exit string | SV_Panic panic | SV_Serving 's u16

definition serve_on :: "'x sockets \<Rightarrow> u16 \<Rightarrow> 's \<Rightarrow> 'x \<Rightarrow> 's service \<times> 'x" where
  "serve_on sys port state x =
     (case bind_tcp sys port x of
        (Inl p, x1) \<Rightarrow> (SV_Panic p, x1)
      | (Inr u, x1) \<Rightarrow> (SV_Serving state port, x1))"

record 'p simple_state =
  ss_client :: "'p outbound"
  ss_auth_token :: "string option"

definition simple_main :: "(string \<Rightarrow> 'p option) \<Rightarrow> ('p \<Rightarrow> string option) \<Rightarrow> environ \<Rightarrow> 'x sockets \<Rightarrow> 'x
    \<Rightarrow> 'p simple_state service \<times> 'x" where
  "simple_main parse_profile build_error env sys x =
     (case sp_main_state parse_profile build_error env of
        Inl e \<Rightarrow> (SV_Exit e, x)
      | Inr (ob, auth_token, port) \<Rightarrow> serve_on sys port \<lparr>ss_client = ob, ss_auth_token = auth_token\<rparr> x)"

definition v6_main :: "(string \<Rightarrow> 'p option) \<Rightarrow> environ \<Rightarrow> string option \<Rightarrow> (string \<Rightarrow> string option)
    \<Rightarrow> string + string \<Rightarrow> string + unit \<Rightarrow> 'x sockets \<Rightarrow> 'x \<Rightarrow> bind_state option \<times> 'p v6_state service \<times> 'x" where
  "v6_main parse_profile env route_file mac_file contents written sys x =
     (map_option (\<lambda>_. ensure_nonlocal_bind contents written) (subnet_from_env env),
      case v6_main_state parse_profile env route_file mac_file of
        Inl e \<Rightarrow> (SV_Exit e, x)
      | Inr st \<Rightarrow> serve_on sys (port_from_env env 8080) st x)"

record tor_state =
  ts_pool :: node_pool
  ts_socks_timeout :: u64
  ts_request_timeout :: u64

text \<open>With the delays after which the rotation of each node starts.\<close>

definition tor_main :: "int \<Rightarrow> environ \<Rightarrow> 'x sockets \<Rightarrow> 'x \<Rightarrow> (tor_state \<times> nat list) service \<times> 'x" where
  "tor_main now env sys x =
     (case tor_main_pool now env of
        None \<Rightarrow> (SV_Panic (Panic ''divide by zero error when dividing duration by scalar''), x)
      | Some (pool, delays) \<Rightarrow>
          serve_on sys (port_from_env env 8080)
            (\<lparr>ts_pool = pool, ts_socks_timeout = env_ms env ''SOCKS_TIMEOUT_MS'' 15000,
              ts_request_timeout = env_ms env ''REQUEST_TIMEOUT_MS'' 30000\<rparr>, delays) x)"

lemma tor_main_without_nodes:
  "parse_tor_nodes (unwrap_or (env ''TOR_NODES'') ''tor-node-1:9050:9051'') = []
    \<Longrightarrow> \<exists>p. tor_main now env sys x = (SV_Panic p, x)"
  by (simp add: tor_main_def tor_main_pool_def node_pool_new_def)

lemma simple_main_token:
  "simple_main pp be env sys x = (SV_Serving st port, x') \<Longrightarrow> env ''AUTH_TOKEN'' = Some t \<Longrightarrow> t \<noteq> []
    \<Longrightarrow> ss_auth_token st = Some t \<and> port = port_from_env env 8080"
  by (auto simp: simple_main_def sp_main_state_def serve_on_def split: sum.splits prod.splits)

subsection \<open>The rules of the path matcher\<close>

text \<open>
  A pattern is a list of segments: \<^verbatim>\<open>{name}\<close> stands for one segment that is not empty, \<^verbatim>\<open>{*name}\<close>
  for a rest that is not empty, anything else for itself. Of the patterns that cover a path the first one in the order of
  \<open>ranks\<close> is chosen: at the first segment where two differ, itself before a parameter before a rest.
\<close>

definition path_segments :: "string \<Rightarrow> string list" where
  "path_segments path = split_on (CHR ''/'') path"

definition seg_rank :: "string \<Rightarrow> nat" where
  "seg_rank seg = (if starts_with seg ''{*'' then 2 else if starts_with seg ''{'' then 1 else 0)"

fun covers :: "string list \<Rightarrow> string list \<Rightarrow> bool" where
  "covers [] ss = (ss = [])"
| "covers (p # ps) [] = False"
| "covers (p # ps) (s # ss) =
     (if seg_rank p = 2 then s # ss \<noteq> [[]]
      else if seg_rank p = 1 then s \<noteq> [] \<and> covers ps ss
      else p = s \<and> covers ps ss)"

fun join_slash :: "string list \<Rightarrow> string" where
  "join_slash [] = []"
| "join_slash [s] = s"
| "join_slash (s # t # ss) = s @ CHR ''/'' # join_slash (t # ss)"

fun captured :: "string list \<Rightarrow> string list \<Rightarrow> string" where
  "captured (p # ps) (s # ss) =
     (if seg_rank p = 2 then join_slash (s # ss) else if seg_rank p = 1 then s else captured ps ss)"
| "captured _ _ = []"

definition ranks :: "string \<Rightarrow> nat list" where
  "ranks pat = map seg_rank (path_segments pat)"

definition matches :: "string \<Rightarrow> string \<Rightarrow> bool" where
  "matches path pat = covers (path_segments pat) (path_segments path)"

definition router_laws :: "'h framework \<Rightarrow> bool" where
  "router_laws F =
     (\<forall>pats path.
        (case fw_route F pats path of
           None \<Rightarrow> \<forall>q\<in>set pats. \<not> matches path q
         | Some (p, param) \<Rightarrow>
             p \<in> set pats \<and> matches path p \<and> param = captured (path_segments p) (path_segments path)
             \<and> (\<forall>q\<in>set pats. matches path q \<longrightarrow> ranks p \<le> ranks q)))"

text \<open>A matcher that keeps the rules.\<close>

definition best_route :: "string list \<Rightarrow> string \<Rightarrow> (string \<times> string) option" where
  "best_route pats path =
     map_option (\<lambda>p. (p, captured (path_segments p) (path_segments path)))
       (find (\<lambda>p. matches path p \<and> list_all (\<lambda>q. matches path q \<longrightarrow> ranks p \<le> ranks q) pats) pats)"

lemma best_route_laws: "fw_route F = best_route \<Longrightarrow> router_laws F"
proof -
  assume F: "fw_route F = best_route"
  have "(case best_route pats path of
           None \<Rightarrow> \<forall>q\<in>set pats. \<not> matches path q
         | Some (p, param) \<Rightarrow>
             p \<in> set pats \<and> matches path p \<and> param = captured (path_segments p) (path_segments path)
             \<and> (\<forall>q\<in>set pats. matches path q \<longrightarrow> ranks p \<le> ranks q))" for pats path
  proof (cases "find (\<lambda>p. matches path p \<and> list_all (\<lambda>q. matches path q \<longrightarrow> ranks p \<le> ranks q) pats) pats")
    case None
    show ?thesis
    proof (cases "\<exists>q\<in>set pats. matches path q")
      case True
      let ?S = "{q \<in> set pats. matches path q}"
      have "finite ?S" "?S \<noteq> {}" using True by auto
      then obtain m where "m \<in> ?S" "\<And>q. q \<in> ?S \<Longrightarrow> ranks m \<le> ranks q"
        using arg_min_if_finite [of ?S ranks] by (meson linorder_not_less)
      then show ?thesis using None by (auto simp: find_None_iff list_all_iff)
    qed (use None in \<open>simp add: best_route_def\<close>)
  next
    case (Some p)
    then have "p \<in> set pats" "matches path p" "list_all (\<lambda>q. matches path q \<longrightarrow> ranks p \<le> ranks q) pats"
      by (auto simp: find_Some_iff)
    with Some show ?thesis by (simp add: best_route_def list_all_iff)
  qed
  then show ?thesis by (simp add: router_laws_def F)
qed

subsection \<open>Patterns as prefixes\<close>

lemma join_path_segments [simp]: "join_slash (path_segments s) = s"
proof (induction s)
  case (Cons c s)
  then show ?case by (cases "split_on (CHR ''/'') s" rule: join_slash.cases) (simp_all add: path_segments_def)
qed (simp add: path_segments_def)

lemma path_segments_append: "CHR ''/'' \<notin> set s \<Longrightarrow> path_segments (s @ CHR ''/'' # t) = s # path_segments t"
  by (simp add: path_segments_def split_on_append_sep)

lemma path_segments_single: "CHR ''/'' \<notin> set s \<Longrightarrow> path_segments s = [s]"
  by (simp add: path_segments_def split_on_no_sep)

lemma first_slash_eq:
  assumes "CHR ''/'' \<notin> set s" and "CHR ''/'' \<notin> set p"
  shows "(s @ CHR ''/'' # t = p @ CHR ''/'' # t') = (p = s \<and> t = t')"
  using assms by (metis path_segments_append list.inject join_path_segments)

lemma path_segments_cases:
  obtains (single) "path_segments path = [path]" "CHR ''/'' \<notin> set path"
  | (more) s t where "path = s @ CHR ''/'' # t" "CHR ''/'' \<notin> set s" "path_segments path = s # path_segments t"
proof (cases "CHR ''/'' \<in> set path")
  case True
  then obtain s t where "path = s @ CHR ''/'' # t" "CHR ''/'' \<notin> set s" using split_list_first by metis
  then show thesis using more path_segments_append by blast
qed (use single path_segments_single in blast)

lemma covers_self:
  assumes "seg_rank p = 0" and "CHR ''/'' \<notin> set p" and "ps \<noteq> []"
  shows "covers (p # ps) (path_segments path) = (\<exists>t. path = p @ CHR ''/'' # t \<and> covers ps (path_segments t))"
proof (cases path rule: path_segments_cases)
  case single
  then show ?thesis using assms by (cases ps) auto
next
  case (more s t)
  then have "covers (p # ps) (path_segments path) = (p = s \<and> covers ps (path_segments t))" using assms(1) by simp
  moreover have "(path = p @ CHR ''/'' # t') = (p = s \<and> t = t')" for t'
    using more(1,2) assms(2) first_slash_eq by blast
  ultimately show ?thesis by auto
qed

lemma covers_last:
  assumes "seg_rank p = 0" and "CHR ''/'' \<notin> set p"
  shows "covers [p] (path_segments path) = (path = p)"
proof (cases path rule: path_segments_cases)
  case (more s t)
  then show ?thesis using assms by (cases "path_segments t") (auto simp: path_segments_def)
qed (use assms in auto)

lemma covers_param:
  assumes "seg_rank p = 1"
  shows "covers [p] (path_segments path) = (path \<noteq> [] \<and> CHR ''/'' \<notin> set path)"
proof (cases path rule: path_segments_cases)
  case (more s t)
  then show ?thesis using assms by (cases "path_segments t") (auto simp: path_segments_def)
qed (use assms in auto)

lemma covers_rest: "seg_rank p = 2 \<Longrightarrow> covers [p] (path_segments path) = (path \<noteq> [])"
  by (cases path rule: path_segments_cases) (auto simp: path_segments_def)

lemma captured_self: "seg_rank p = 0 \<Longrightarrow> CHR ''/'' \<notin> set p \<Longrightarrow>
    captured (p # ps) (path_segments (p @ CHR ''/'' # t)) = captured ps (path_segments t)"
  by (simp add: path_segments_append)

lemma captured_param: "seg_rank p = 1 \<Longrightarrow> CHR ''/'' \<notin> set s \<Longrightarrow> captured [p] (path_segments s) = s"
  by (simp add: path_segments_single)

lemma captured_rest: "seg_rank p = 2 \<Longrightarrow> captured [p] (path_segments s) = s"
  by (cases s rule: path_segments_cases) (simp, metis captured.simps(1) join_path_segments)

subsection \<open>The choice of a pattern\<close>

lemma route_of:
  assumes "router_laws F" and "pat \<in> set pats" and "matches path pat"
    and "\<And>q. q \<in> set pats \<Longrightarrow> matches path q \<Longrightarrow> q = pat \<or> ranks pat < ranks q"
  shows "fw_route F pats path = Some (pat, captured (path_segments pat) (path_segments path))"
proof -
  have laws: "(case fw_route F pats path of
           None \<Rightarrow> \<forall>q\<in>set pats. \<not> matches path q
         | Some (p, param) \<Rightarrow>
             p \<in> set pats \<and> matches path p \<and> param = captured (path_segments p) (path_segments path)
             \<and> (\<forall>q\<in>set pats. matches path q \<longrightarrow> ranks p \<le> ranks q))"
    using assms(1) unfolding router_laws_def by blast
  show ?thesis
  proof (cases "fw_route F pats path")
    case (Some r)
    obtain p param where r: "r = (p, param)" by (meson surj_pair)
    from laws have "p \<in> set pats" "matches path p" "ranks p \<le> ranks pat"
        "param = captured (path_segments p) (path_segments path)"
      using assms(2,3) by (simp_all add: Some r)
    with assms(4) [of p] show ?thesis by (auto simp: Some r)
  qed (use laws assms(2,3) in auto)
qed

lemma route_none:
  assumes "router_laws F" and "\<And>q. q \<in> set pats \<Longrightarrow> \<not> matches path q"
  shows "fw_route F pats path = None"
proof (cases "fw_route F pats path")
  case (Some r)
  obtain p param where "r = (p, param)" by (meson surj_pair)
  with Some assms(1) have "p \<in> set pats" "matches path p"
    unfolding router_laws_def by (metis (mono_tags, lifting) old.prod.case option.simps(5))+
  with assms(2) show ?thesis by blast
qed

lemma literal_segments:
  "path_segments ''/health'' = [[], ''health'']"
  "path_segments ''/health/proxy'' = [[], ''health'', ''proxy'']"
  "path_segments ''/health/route/{name}'' = [[], ''health'', ''route'', ''{name}'']"
  "path_segments ''/x-target/{*encoded}'' = [[], ''x-target'', ''{*encoded}'']"
  "path_segments ''/{*path}'' = [[], ''{*path}'']"
  "path_segments ''/'' = [[], []]"
  by (simp_all add: path_segments_def)

lemma literal_ranks [simp]:
  "seg_rank [] = 0" "seg_rank ''health'' = 0" "seg_rank ''proxy'' = 0" "seg_rank ''route'' = 0"
  "seg_rank ''x-target'' = 0" "seg_rank ''{name}'' = 1" "seg_rank ''{*encoded}'' = 2" "seg_rank ''{*path}'' = 2"
  by (simp_all add: seg_rank_def starts_with_def)

lemma literal_matches:
  "matches path ''/health'' = (path = ''/health'')"
  "matches path ''/health/proxy'' = (path = ''/health/proxy'')"
  "matches path ''/health/route/{name}'' = (\<exists>n. path = ''/health/route/'' @ n \<and> n \<noteq> [] \<and> CHR ''/'' \<notin> set n)"
  "matches path ''/x-target/{*encoded}'' = (\<exists>t. path = ''/x-target/'' @ t \<and> t \<noteq> [])"
  "matches path ''/{*path}'' = (\<exists>t. path = CHR ''/'' # t \<and> t \<noteq> [])"
  "matches path ''/'' = (path = ''/'')"
  by (simp_all add: matches_def literal_segments covers_self covers_last covers_param covers_rest del: covers.simps) blast+

lemma literal_order:
  "ranks ''/health'' < ranks ''/{*path}''" "ranks ''/health/proxy'' < ranks ''/{*path}''"
  "ranks ''/health/route/{name}'' < ranks ''/{*path}''" "ranks ''/x-target/{*encoded}'' < ranks ''/{*path}''"
  by (simp_all add: ranks_def literal_segments)

text \<open>What the table of the intermediate proxy means, by the prefixes of the path.\<close>

definition view :: "string \<Rightarrow> 'e \<times> string \<Rightarrow> u16 + 'e \<times> string" where
  "view meth e = (if meth = ''GET'' \<or> meth = ''HEAD'' then Inr e else Inl 405)"

definition endpoint_of :: "string \<Rightarrow> string \<Rightarrow> u16 + endpoint \<times> string" where
  "endpoint_of meth path =
     (if path = ''/health'' then view meth (EP_Health, [])
      else if path = ''/health/proxy'' then view meth (EP_ProxyDetail, [])
      else (case strip_prefix ''/health/route/'' path of
          Some name \<Rightarrow>
            if name \<noteq> [] \<and> CHR ''/'' \<notin> set name then view meth (EP_RouteDetail, name) else Inr (EP_Proxy, drop 1 path)
        | None \<Rightarrow>
            (case strip_prefix ''/x-target/'' path of
               Some encoded \<Rightarrow> if encoded \<noteq> [] then Inr (EP_XTarget, encoded) else Inr (EP_Proxy, drop 1 path)
             | None \<Rightarrow> if starts_with path ''/'' then Inr (EP_Proxy, drop 1 path) else Inl 404)))"

lemma intermediate_patterns:
  "map fst intermediate_routes
    = [''/health'', ''/health/route/{name}'', ''/health/proxy'', ''/x-target/{*encoded}'', ''/{*path}'', ''/'']"
  by (simp add: intermediate_routes_def)

lemmas captured_simps =
  captured_self [where p = "[]", simplified] captured_self [where p = "''health''", simplified]
  captured_self [where p = "''route''", simplified] captured_self [where p = "''x-target''", simplified]
  captured_param captured_rest

lemma literal_captured:
  "captured (path_segments ''/health'') ss = []" "captured (path_segments ''/health/proxy'') ss = []"
  "captured (path_segments ''/'') ss = []"
  "CHR ''/'' \<notin> set n \<Longrightarrow> captured (path_segments ''/health/route/{name}'') (path_segments (''/health/route/'' @ n)) = n"
  "captured (path_segments ''/x-target/{*encoded}'') (path_segments (''/x-target/'' @ t)) = t"
  "captured (path_segments ''/{*path}'') (path_segments (CHR ''/'' # t)) = t"
proof -
  have stat: "captured ps ss = []" if "list_all (\<lambda>p. seg_rank p = 0) ps" for ps ss
    using that by (induction ps ss rule: captured.induct) auto
  show "captured (path_segments ''/health'') ss = []" "captured (path_segments ''/health/proxy'') ss = []"
      "captured (path_segments ''/'') ss = []"
    by (rule stat; simp add: literal_segments)+
qed (simp_all add: literal_segments captured_simps del: captured.simps)

lemma intermediate_map:
  "map_of intermediate_routes ''/health'' = Some (V_Get, EP_Health)"
  "map_of intermediate_routes ''/health/proxy'' = Some (V_Get, EP_ProxyDetail)"
  "map_of intermediate_routes ''/health/route/{name}'' = Some (V_Get, EP_RouteDetail)"
  "map_of intermediate_routes ''/x-target/{*encoded}'' = Some (V_Any, EP_XTarget)"
  "map_of intermediate_routes ''/{*path}'' = Some (V_Any, EP_Proxy)"
  "map_of intermediate_routes ''/'' = Some (V_Any, EP_Proxy)"
  by (simp_all add: intermediate_routes_def)

lemma intermediate_chosen:
  assumes "router_laws F" and "map_of intermediate_routes pat = Some (v, e)" and "matches path pat"
    and "list_all (\<lambda>q. matches path q \<longrightarrow> q = pat \<or> ranks pat < ranks q) (map fst intermediate_routes)"
    and "captured (path_segments pat) (path_segments path) = param"
  shows "find_endpoint F intermediate_routes meth path = (if allows v meth then Inr (e, param) else Inl 405)"
proof -
  have "pat \<in> fst ` set intermediate_routes" using map_of_SomeD [OF assms(2)] by (metis fst_conv image_eqI)
  then have "fw_route F (map fst intermediate_routes) path
      = Some (pat, captured (path_segments pat) (path_segments path))"
    using assms(3,4) by (intro route_of [OF assms(1)]) (simp_all only: list_all_iff set_map)
  with assms(2,5) show ?thesis by (simp add: find_endpoint_def)
qed

lemma intermediate_proxy_endpoint:
  assumes F: "router_laws F" and path: "path = CHR ''/'' # t"
    and others: "\<not> matches path ''/health''" "\<not> matches path ''/health/proxy''"
      "\<not> matches path ''/health/route/{name}''" "\<not> matches path ''/x-target/{*encoded}''"
  shows "find_endpoint F intermediate_routes meth path = Inr (EP_Proxy, t)"
proof (cases "t = []")
  case True
  have m: "matches path ''/''" "\<not> matches path ''/{*path}''" by (simp_all add: literal_matches path True)
  have "list_all (\<lambda>q. matches path q \<longrightarrow> q = ''/'' \<or> ranks ''/'' < ranks q) (map fst intermediate_routes)"
    by (simp add: intermediate_patterns others m)
  from intermediate_chosen [OF F intermediate_map(6) m(1) this literal_captured(3)] show ?thesis
    by (simp add: allows_def True)
next
  case False
  have m: "matches path ''/{*path}''" "\<not> matches path ''/''" by (simp_all add: literal_matches path False)
  have "list_all (\<lambda>q. matches path q \<longrightarrow> q = ''/{*path}'' \<or> ranks ''/{*path}'' < ranks q) (map fst intermediate_routes)"
    by (simp add: intermediate_patterns others m)
  from intermediate_chosen [OF F intermediate_map(5) m(1) this] literal_captured(6) [of t] show ?thesis
    by (simp add: allows_def path)
qed

lemma view_allows: "view meth e = (if allows V_Get meth then Inr e else Inl 405)"
  by (simp add: view_def allows_def)

text \<open>The four patterns in front of the catch-all exclude each other.\<close>

lemma intermediate_view:
  assumes F: "router_laws F" and "map_of intermediate_routes pat = Some (V_Get, e)" and "matches path pat"
    and "pat \<in> {''/health'', ''/health/proxy'', ''/health/route/{name}''}"
  shows "find_endpoint F intermediate_routes meth path = view meth (e, captured (path_segments pat) (path_segments path))"
proof -
  have "list_all (\<lambda>q. matches path q \<longrightarrow> q = pat \<or> ranks pat < ranks q) (map fst intermediate_routes)"
    using assms(3,4) by (elim insertE emptyE) (auto simp: intermediate_patterns literal_matches literal_order)
  from intermediate_chosen [OF F assms(2,3) this refl] show ?thesis by (simp add: view_allows)
qed

lemma intermediate_link:
  assumes F: "router_laws F" and "path = ''/x-target/'' @ t" and "t \<noteq> []"
  shows "find_endpoint F intermediate_routes meth path = Inr (EP_XTarget, t)"
proof -
  have "matches path ''/x-target/{*encoded}''" using assms(2,3) by (simp add: literal_matches)
  moreover have "list_all (\<lambda>q. matches path q \<longrightarrow> q = ''/x-target/{*encoded}'' \<or> ranks ''/x-target/{*encoded}'' < ranks q)
      (map fst intermediate_routes)"
    using assms(2,3) by (simp add: intermediate_patterns literal_matches literal_order)
  moreover have "captured (path_segments ''/x-target/{*encoded}'') (path_segments path) = t"
    unfolding assms(2) by (rule literal_captured)
  ultimately show ?thesis
    using intermediate_chosen [OF F intermediate_map(4)] by (simp add: allows_def)
qed

lemma intermediate_outside:
  assumes F: "router_laws F" and "\<not> starts_with path ''/''"
  shows "find_endpoint F intermediate_routes meth path = Inl 404"
proof -
  have "fw_route F (map fst intermediate_routes) path = None"
    by (rule route_none [OF F]) (use assms(2) in \<open>auto simp: intermediate_patterns literal_matches starts_with_def\<close>)
  then show ?thesis by (simp add: find_endpoint_def)
qed

lemma not_matched:
  "strip_prefix ''/health/route/'' path = None \<Longrightarrow> \<not> matches path ''/health/route/{name}''"
  "strip_prefix ''/x-target/'' path = None \<Longrightarrow> \<not> matches path ''/x-target/{*encoded}''"
  by (auto simp: literal_matches strip_prefix_def split: if_splits)

lemma strip_prefix_eq: "(strip_prefix p s = Some t) = (s = p @ t)"
  by (auto simp: strip_prefix_def prefix_def)

lemma intermediate_endpoint_of:
  assumes F: "router_laws F"
  shows "find_endpoint F intermediate_routes meth path = endpoint_of meth path"
proof -
  note view = intermediate_view [OF F] and prox = intermediate_proxy_endpoint [OF F]
  consider (health) "path = ''/health''" | (proxy) "path = ''/health/proxy''"
    | (detail) n where "path = ''/health/route/'' @ n" | (link) t where "path = ''/x-target/'' @ t"
    | (other) "path \<noteq> ''/health''" "path \<noteq> ''/health/proxy''" "strip_prefix ''/health/route/'' path = None"
        "strip_prefix ''/x-target/'' path = None"
  proof (cases "strip_prefix ''/health/route/'' path")
    case (Some n)
    then show thesis using detail strip_prefix_eq by blast
  next
    case None
    show thesis
    proof (cases "strip_prefix ''/x-target/'' path")
      case (Some t)
      then show thesis using link strip_prefix_eq by blast
    qed (use None health proxy other in blast)
  qed
  then show ?thesis
  proof cases
    case health
    from view [OF intermediate_map(1), of path meth] show ?thesis
      by (simp add: health endpoint_of_def literal_matches literal_captured)
  next
    case proxy
    from view [OF intermediate_map(2), of path meth] show ?thesis
      by (simp add: proxy endpoint_of_def literal_matches literal_captured)
  next
    case (detail n)
    then have s: "strip_prefix ''/health/route/'' path = Some n" by (simp only: strip_prefix_eq)
    have e: "endpoint_of meth path = (if n \<noteq> [] \<and> CHR ''/'' \<notin> set n then view meth (EP_RouteDetail, n)
        else Inr (EP_Proxy, drop 1 path))"
      unfolding endpoint_of_def s by (simp add: detail)
    show ?thesis
    proof (cases "n \<noteq> [] \<and> CHR ''/'' \<notin> set n")
      case True
      with detail have m: "matches path ''/health/route/{name}''" by (simp add: literal_matches)
      have "captured (path_segments ''/health/route/{name}'') (path_segments path) = n"
        unfolding detail using True by (intro literal_captured) simp
      with view [OF intermediate_map(3) m, of meth] True e show ?thesis by simp
    next
      case False
      have "path = CHR ''/'' # drop 1 path" "\<not> matches path ''/health''" "\<not> matches path ''/health/proxy''"
        "\<not> matches path ''/health/route/{name}''" "\<not> matches path ''/x-target/{*encoded}''"
        using False by (simp_all add: detail literal_matches)
      from prox [OF this, of meth] False e show ?thesis by auto
    qed
  next
    case (link t)
    then have s: "strip_prefix ''/x-target/'' path = Some t" "strip_prefix ''/health/route/'' path = None"
      by (simp_all add: strip_prefix_def)
    have e: "endpoint_of meth path = (if t \<noteq> [] then Inr (EP_XTarget, t) else Inr (EP_Proxy, drop 1 path))"
      unfolding endpoint_of_def s by (simp add: link)
    show ?thesis
    proof (cases "t = []")
      case True
      have "path = CHR ''/'' # drop 1 path" "\<not> matches path ''/health''" "\<not> matches path ''/health/proxy''"
        "\<not> matches path ''/health/route/{name}''" "\<not> matches path ''/x-target/{*encoded}''"
        by (simp_all add: link True literal_matches)
      from prox [OF this, of meth] True e show ?thesis by simp
    next
      case False
      with intermediate_link [OF F link] e show ?thesis by simp
    qed
  next
    case other
    then have e: "endpoint_of meth path = (if starts_with path ''/'' then Inr (EP_Proxy, drop 1 path) else Inl 404)"
      by (simp add: endpoint_of_def)
    show ?thesis
    proof (cases "starts_with path ''/''")
      case True
      then have "path = CHR ''/'' # drop 1 path" by (auto simp: starts_with_def prefix_def)
      from prox [OF this, of meth] other e True show ?thesis by (simp add: literal_matches(1,2) not_matched)
    qed (use intermediate_outside [OF F] e in simp)
  qed
qed

text \<open>The tables with the catch-all only.\<close>

lemma catch_all:
  assumes F: "router_laws F" and "map fst routes = [''/{*path}'', ''/'']" and "path = CHR ''/'' # t"
    and "map_of routes ''/{*path}'' = Some (V_Any, e)" and "map_of routes ''/'' = Some (V_Any, e)"
  shows "find_endpoint F routes meth path = Inr (e, t)"
proof (cases "t = []")
  case True
  have "fw_route F (map fst routes) path = Some (''/'', captured (path_segments ''/'') (path_segments path))"
    by (rule route_of [OF F]) (use assms True in \<open>auto simp: literal_matches\<close>)
  with assms True show ?thesis by (simp add: find_endpoint_def literal_captured allows_def)
next
  case False
  have "fw_route F (map fst routes) path = Some (''/{*path}'', captured (path_segments ''/{*path}'') (path_segments path))"
    by (rule route_of [OF F]) (use assms False in \<open>auto simp: literal_matches\<close>)
  with assms show ?thesis by (simp add: find_endpoint_def literal_captured allows_def)
qed

text \<open>The table of the Tor proxy.\<close>

lemma tor_chosen:
  assumes "router_laws F" and "map_of tor_routes pat = Some (v, e)" and "matches path pat"
    and "list_all (\<lambda>q. matches path q \<longrightarrow> q = pat \<or> ranks pat < ranks q) (map fst tor_routes)"
  shows "find_endpoint F tor_routes meth path
    = (if allows v meth then Inr (e, captured (path_segments pat) (path_segments path)) else Inl 405)"
proof -
  have "pat \<in> fst ` set tor_routes" using map_of_SomeD [OF assms(2)] by (metis fst_conv image_eqI)
  then have "fw_route F (map fst tor_routes) path = Some (pat, captured (path_segments pat) (path_segments path))"
    using assms(3,4) by (intro route_of [OF assms(1)]) (simp_all only: list_all_iff set_map)
  with assms(2) show ?thesis by (simp add: find_endpoint_def)
qed

lemma tor_table:
  "map fst tor_routes = [''/health'', ''/{*path}'', ''/'']"
  "map_of tor_routes ''/health'' = Some (V_Get, EP_Health)"
  "map_of tor_routes ''/{*path}'' = Some (V_Any, EP_Proxy)" "map_of tor_routes ''/'' = Some (V_Any, EP_Proxy)"
  by (simp_all add: tor_routes_def)

lemma tor_endpoint_of:
  assumes F: "router_laws F"
  shows "find_endpoint F tor_routes meth path =
    (if path = ''/health'' then view meth (EP_Health, [])
     else if starts_with path ''/'' then Inr (EP_Proxy, drop 1 path) else Inl 404)"
proof -
  consider "path = ''/health''" | "path = ''/''" | t where "path = CHR ''/'' # t" "t \<noteq> []" "path \<noteq> ''/health''"
    | "\<not> starts_with path ''/''"
    by (cases "starts_with path ''/''") (auto simp: starts_with_def prefix_def)
  then show ?thesis
  proof cases
    case 1
    have "list_all (\<lambda>q. matches path q \<longrightarrow> q = ''/health'' \<or> ranks ''/health'' < ranks q) (map fst tor_routes)"
      by (simp add: tor_table 1 literal_matches literal_order)
    from tor_chosen [OF F tor_table(2) _ this, of meth] show ?thesis
      by (simp add: 1 literal_matches literal_captured view_allows)
  next
    case 2
    have "list_all (\<lambda>q. matches path q \<longrightarrow> q = ''/'' \<or> ranks ''/'' < ranks q) (map fst tor_routes)"
      by (simp add: tor_table 2 literal_matches)
    from tor_chosen [OF F tor_table(4) _ this, of meth] show ?thesis
      by (simp add: 2 literal_matches literal_captured allows_def starts_with_def)
  next
    case 3
    have "list_all (\<lambda>q. matches path q \<longrightarrow> q = ''/{*path}'' \<or> ranks ''/{*path}'' < ranks q) (map fst tor_routes)"
      using 3 by (simp add: tor_table literal_matches)
    from tor_chosen [OF F tor_table(3) _ this, of meth] 3 show ?thesis
      by (simp add: literal_matches literal_captured allows_def starts_with_def)
  next
    case 4
    have "fw_route F (map fst tor_routes) path = None"
      by (rule route_none [OF F]) (use 4 in \<open>auto simp: tor_table literal_matches starts_with_def\<close>)
    then show ?thesis using 4 by (auto simp: find_endpoint_def starts_with_def)
  qed
qed

text \<open>
  The simple proxy and the IPv6 proxy have no view: \<^verbatim>\<open>/health\<close> goes to the proxy, where the README says that
  all proxies answer it.
\<close>

lemma health_not_served:
  assumes "router_laws F"
  shows "find_endpoint F simple_routes meth ''/health'' = Inr (EP_Proxy, ''health'')
    \<and> find_endpoint F v6_routes meth ''/health'' = Inr (EP_Proxy, ''health'')"
  using catch_all [OF assms, of simple_routes "''/health''" "''health''" EP_Proxy meth]
    catch_all [OF assms, of v6_routes "''/health''" "''health''" EP_Proxy meth]
  by (simp add: simple_routes_def v6_routes_def)

subsection \<open>Serving\<close>

text \<open>A reply came, and left a state with the property.\<close>

definition answered :: "('s \<Rightarrow> bool) \<Rightarrow> (('h, 'j) reply \<times> 's) option \<Rightarrow> bool" where
  "answered P r = (\<exists>reply s. r = Some (reply, s) \<and> P s)"

lemma answered_Some [simp]: "answered P (Some (reply, s)) = P s"
  by (simp add: answered_def)

lemma answered_map: "answered P r \<Longrightarrow> answered P (map_option (\<lambda>(r, s). (f r, s)) r)"
  by (auto simp: answered_def)

lemma answeredI:
  assumes "r \<noteq> None" and "\<And>reply s. r = Some (reply, s) \<Longrightarrow> P s"
  shows "answered P r"
  using assms by (cases r) auto

lemma application_answers:
  assumes "P s" and "\<And>e param. answered P (serve_endpoint e param)"
  shows "answered P (application F routes serve_endpoint req path s)"
proof (cases "fw_preflight F cors_layer req")
  case None
  have "answered P (case find_endpoint F routes (in_method req) path of
      Inl status \<Rightarrow> Some (own_reply F status, s) | Inr (e, param) \<Rightarrow> serve_endpoint e param)"
    using assms by (simp split: sum.split prod.split)
  from answered_map [OF this] show ?thesis by (simp add: application_def None)
qed (auto simp: application_def assms(1) split: prod.split)

lemma endpoint_answers:
  assumes "completes A" and aw: "awaits_move P E"
  shows "answered (\<lambda>(known', w'). moves P w w') (intermediate_endpoint F E A V req query known w e param)"
proof -
  have start: "awaits_move P E \<longrightarrow> moves P w w" by (simp add: moves_same)
  have "answered (\<lambda>(known', w'). moves P w w') (proxy_handler E A req known w)"
    by (rule answeredI [OF handlers_Some(1) [OF assms(1)]])
      (use tasks.then_proxy_handler [OF start] aw in \<open>auto split: prod.splits\<close>)
  moreover have "answered (\<lambda>(known', w'). moves P w w') (x_target_handler E A encoded req known w)" for encoded
    by (rule answeredI [OF handlers_Some(2) [OF assms(1)]])
      (use tasks.then_x_target_handler [OF start] aw in \<open>auto split: prod.splits\<close>)
  moreover have "moves P w (snd (health_handler E f g w))" "moves P w (snd (route_detail_handler E g name w))"
      "moves P w (snd (proxy_detail_handler E g q w))" "moves P w w" for f g name q
    using tasks.then_health [OF start] tasks.then_route_detail [OF start] tasks.then_proxy_detail [OF start] start aw
    by blast+
  ultimately show ?thesis
    by (cases e; cases "fw_decode F param"; cases query) (simp_all add: intermediate_endpoint_def prod.case_eq_if Let_def)
qed

subsection \<open>Properties\<close>

text \<open>
  C5: The HTTP interface of the intermediate proxy, under these conditions: the path matcher keeps its documented rules,
  every round of a hedged request gets as many completions as its plan can be long, and the awaits are steps of the
  server (they return; a request body and a DNS answer are finite). Then whatever the method, path, query, headers and
  body, and whatever the script, the host check and the upstreams do, a request is answered: by the CORS layer if it
  takes it, with the framework's 404 or 405 if the path or the method has no endpoint, both without any effect on the
  shared state, and otherwise by the endpoint of the path; what that endpoint does to the shared state are steps of
  the server.
\<close>

theorem http_interface_total:
  assumes "router_laws F"
    and "\<And>route n. unat (rd_max_attempts route) + 1 \<le> length (filter is_done (ap_sched A route n))"
    and "awaits_move P E"
  shows "case fw_preflight F cors_layer req of
      Some (status, hs) \<Rightarrow> intermediate_app F E A V req path query known w
        = Some (\<lparr>rp_status = status, rp_headers = hs, rp_body = RB_Full []\<rparr>, known, w)
    | None \<Rightarrow>
        (case endpoint_of (in_method req) path of
           Inl status \<Rightarrow> status \<in> {404, 405} \<and> intermediate_app F E A V req path query known w
             = Some (\<lparr>rp_status = status, rp_headers = fw_decorate F cors_layer req (fw_own F), rp_body = RB_Full []\<rparr>, known, w)
         | Inr (e, param) \<Rightarrow> \<exists>reply known' w'.
             intermediate_endpoint F E A V req query known w e param = Some (reply, known', w')
             \<and> intermediate_app F E A V req path query known w
               = Some (reply\<lparr>rp_headers := fw_decorate F cors_layer req (rp_headers reply)\<rparr>, known', w')
             \<and> moves P w w')"
proof (cases "fw_preflight F cors_layer req")
  case pre: None
  note app = intermediate_app_def application_def pre intermediate_endpoint_of [OF assms(1)] option.case
  show ?thesis
  proof (cases "endpoint_of (in_method req) path")
    case (Inl status)
    then have "status \<in> {404, 405}" by (auto simp: endpoint_of_def view_def split: if_splits option.splits)
    then show ?thesis unfolding app by (simp add: Inl own_reply_def)
  next
    case (Inr ep)
    obtain e param where ep: "ep = (e, param)" by force
    have "completes A" using assms(2) by (simp add: completes_def)
    from endpoint_answers [OF this assms(3)] obtain reply known' w' where
      "intermediate_endpoint F E A V req query known w e param = Some (reply, known', w')" and "moves P w w'"
      by (fastforce simp: answered_def)
    then show ?thesis unfolding app by (simp add: Inr ep)
  qed
next
  case (Some answer)
  obtain status hs where "answer = (status, hs)" by force
  with Some show ?thesis by (simp add: intermediate_app_def application_def)
qed

definition sample_framework :: "plain_header_map framework" where
  "sample_framework =
     \<lparr>fw_route = best_route, fw_decode = Some, fw_preflight = (\<lambda>_ req. None), fw_decorate = (\<lambda>_ _ hs. hs),
      fw_own = ph_empty\<rparr>"

lemma http_interface_total_witness:
  "\<exists>reply known' w'. intermediate_app sample_framework (sample_env HR_Timeout HA_NoHook) sample_app
     \<lparr>vw_selector = (\<lambda>_. []), vw_print = (\<lambda>_. [])\<rparr> \<lparr>in_method = ''GET'', in_headers = ph_empty, in_body = []\<rparr>
     ''/x-target/http://t/x'' None [] (sample_world [0, 2]) = Some (reply, known', w')
     \<and> moves unit_platform (sample_world [0, 2]) w'"
proof -
  have F: "router_laws sample_framework" by (rule best_route_laws) (simp add: sample_framework_def)
  have pre: "fw_preflight sample_framework c req = None" for c req by (simp add: sample_framework_def)
  have ep: "endpoint_of ''GET'' ''/x-target/http://t/x'' = Inr (EP_XTarget, ''http://t/x'')"
    by (simp add: endpoint_of_def strip_prefix_def)
  have sched: "unat (rd_max_attempts route) + 1 \<le> length (filter is_done (ap_sched sample_app route n))" for route n
    by (simp add: sample_app_def is_done_def)
  have "awaits_move unit_platform (sample_env HR_Timeout HA_NoHook)" by (simp add: awaits_move_def moves_same)
  from http_interface_total [OF F sched this, where req = "\<lparr>in_method = ''GET'', in_headers = ph_empty, in_body = []\<rparr>"
      and V = "\<lparr>vw_selector = (\<lambda>_. []), vw_print = (\<lambda>_. [])\<rparr>" and path = "''/x-target/http://t/x''"
      and query = None and known = "[]" and w = "sample_world [0, 2]"]
  show ?thesis unfolding pre incoming.select_convs ep option.case sum.case prod.case by blast
qed

text \<open>
  C37: Which endpoint serves a path, for any path matcher that keeps the documented rules. The intermediate proxy shows its
  views under \<^verbatim>\<open>/health\<close>, \<^verbatim>\<open>/health/proxy\<close> and
  \<^verbatim>\<open>/health/route/<name>\<close> to GET and HEAD only and answers another method there with 405, serves a
  redirect link under \<^verbatim>\<open>/x-target/\<close> followed by anything, and proxies every other path; the Tor proxy shows
  its view under \<^verbatim>\<open>/health\<close> in the same way and proxies every other path.
\<close>

theorem endpoints_by_path:
  assumes "router_laws F"
  shows "find_endpoint F intermediate_routes meth path = endpoint_of meth path
    \<and> find_endpoint F tor_routes meth path =
        (if path = ''/health'' then if meth = ''GET'' \<or> meth = ''HEAD'' then Inr (EP_Health, []) else Inl 405
         else if starts_with path ''/'' then Inr (EP_Proxy, drop 1 path) else Inl 404)"
  using intermediate_endpoint_of [OF assms] tor_endpoint_of [OF assms] by (simp add: view_def)

lemma endpoints_by_path_witness:
  "find_endpoint sample_framework intermediate_routes ''POST'' ''/health'' = Inl 405
    \<and> find_endpoint sample_framework intermediate_routes ''POST'' ''/x-target/aHR0'' = Inr (EP_XTarget, ''aHR0'')
    \<and> find_endpoint sample_framework tor_routes ''GET'' ''/health'' = Inr (EP_Health, [])"
proof -
  have F: "router_laws sample_framework" by (rule best_route_laws) (simp add: sample_framework_def)
  show ?thesis
    using endpoints_by_path [OF F, of "''POST''" "''/health''"] endpoints_by_path [OF F, of "''GET''" "''/health''"]
      endpoints_by_path [OF F, of "''POST''" "''/x-target/aHR0''"]
    by (simp add: endpoint_of_def view_def strip_prefix_def)
qed

end
