(* ===== verification/LuaState.thy ===== *)
theory LuaState
  imports LuaPool
begin

text \<open>
  What the sources do to the state of a script VM: the sandbox and the loading of a VM
  (\<^verbatim>\<open>intermediate-proxy/src/lua/mod.rs\<close>), the tables handed to the hooks (\<^verbatim>\<open>lua/api.rs\<close>).
  Tables are shared objects, so they live in a store of the state; a missing key and nil are the same, as in Lua.
  Running a chunk is the interpreter's, the parameter \<open>exec\<close>.
\<close>

subsection \<open>Tables\<close>

datatype lua_key = K_Str string | K_Int int

type_synonym lua_ref = nat

record lua_state =
  ls_tables :: "lua_ref \<Rightarrow> lua_key \<rightharpoonup> lua_ref lua_value"
  ls_next :: lua_ref
  ls_globals :: lua_ref

definition lua_get :: "lua_state \<Rightarrow> lua_ref \<Rightarrow> lua_key \<Rightarrow> lua_ref lua_value" where
  "lua_get s t k = (case ls_tables s t k of Some v \<Rightarrow> v | None \<Rightarrow> L_Nil)"

abbreviation lua_field :: "lua_state \<Rightarrow> lua_ref \<Rightarrow> string \<Rightarrow> lua_ref lua_value" where
  "lua_field s t key \<equiv> lua_get s t (K_Str key)"

definition lua_put :: "lua_ref \<Rightarrow> lua_key \<Rightarrow> lua_ref lua_value \<Rightarrow> lua_state \<Rightarrow> lua_state" where
  "lua_put t k v s =
     s\<lparr>ls_tables := (ls_tables s)(t := (ls_tables s t)(k := (case v of L_Nil \<Rightarrow> None | _ \<Rightarrow> Some v)))\<rparr>"

definition create_table :: "lua_state \<Rightarrow> lua_ref \<times> lua_state" where
  "create_table s =
     (ls_next s, s\<lparr>ls_tables := (ls_tables s)(ls_next s := (\<lambda>_. None)), ls_next := ls_next s + 1\<rparr>)"

definition put_all :: "lua_ref \<Rightarrow> (lua_key \<times> lua_ref lua_value) list \<Rightarrow> lua_state \<Rightarrow> lua_state" where
  "put_all t kvs s = fold (\<lambda>(k, v). lua_put t k v) kvs s"

subsection \<open>The tables of the hooks\<close>

definition str_fields :: "(string \<times> string) list \<Rightarrow> (lua_key \<times> lua_ref lua_value) list" where
  "str_fields kvs = map (\<lambda>(k, v). (K_Str k, L_String v)) kvs"

definition headers_table :: "(string \<times> string) list \<Rightarrow> lua_state \<Rightarrow> lua_ref \<times> lua_state" where
  "headers_table headers s = (let (t, s1) = create_table s in (t, put_all t (str_fields headers) s1))"

text \<open>An unsigned integer is an integer of the script, or a float when it does not fit: \<open>big\<close>.\<close>

definition of_u64 :: "(u64 \<Rightarrow> f64) \<Rightarrow> u64 \<Rightarrow> lua_ref lua_value" where
  "of_u64 big n = (if unat n < 2 ^ 63 then L_Integer (uint n) else L_Number (big n))"

definition opt_string :: "string option \<Rightarrow> lua_ref lua_value" where
  "opt_string x = (case x of Some v \<Rightarrow> L_String v | None \<Rightarrow> L_Nil)"

definition tags_table :: "string list \<Rightarrow> lua_state \<Rightarrow> lua_ref \<times> lua_state" where
  "tags_table tags s =
     (let (t, s1) = create_table s
      in (t, put_all t (map (\<lambda>(i, tg). (K_Int (int i + 1), L_String tg)) (enumerate 0 tags)) s1))"

definition build_ctx_table :: "(u64 \<Rightarrow> f64) \<Rightarrow> hook_ctx \<Rightarrow> lua_state \<Rightarrow> lua_ref \<times> lua_state" where
  "build_ctx_table big ctx s =
     (let (t, s1) = create_table s;
          s2 = put_all t (str_fields [(''route_name'', hc_route_name ctx), (''target_url'', hc_target_url ctx),
                 (''host'', hc_host ctx), (''path'', hc_path ctx), (''method'', hc_method ctx)]) s1;
          (hs, s3) = headers_table (hc_headers ctx) s2;
          s4 = put_all t [(K_Str ''headers'', L_Table hs), (K_Str ''attempt'', L_Integer (uint (hc_attempt ctx))),
                 (K_Str ''proxy_url'', opt_string (hc_proxy_url ctx))] s3;
          (tags, s5) = tags_table (hc_proxy_tags ctx) s4
      in (t, put_all t [(K_Str ''proxy_tags'', L_Table tags), (K_Str ''elapsed_ms'', of_u64 big (hc_elapsed_ms ctx))] s5))"

definition build_res_table :: "(u64 \<Rightarrow> f64) \<Rightarrow> hook_res \<Rightarrow> lua_state \<Rightarrow> lua_ref \<times> lua_state" where
  "build_res_table big res s =
     (let (t, s1) = create_table s;
          s2 = lua_put t (K_Str ''status'') (L_Integer (uint (hr_status res))) s1;
          (hs, s3) = headers_table (hr_headers res) s2
      in (t, put_all t [(K_Str ''headers'', L_Table hs), (K_Str ''body_preview'', opt_string (hr_body_preview res)),
               (K_Str ''elapsed_ms'', of_u64 big (hr_elapsed_ms res)),
               (K_Str ''bytes_received'', of_u64 big (hr_bytes_received res))] s3))"

subsection \<open>The sandbox\<close>

definition DANGERS :: "string list" where
  "DANGERS = [''io'', ''dofile'', ''loadfile'', ''load'', ''loadstring'']"

definition OS_DANGERS :: "string list" where
  "OS_DANGERS = [''execute'', ''exit'', ''remove'', ''rename'', ''tmpname'', ''setlocale'', ''getenv'']"

definition nil_fields :: "string list \<Rightarrow> (lua_key \<times> lua_ref lua_value) list" where
  "nil_fields keys = map (\<lambda>k. (K_Str k, L_Nil)) keys"

definition package_path :: "string \<Rightarrow> string" where
  "package_path dir = dir @ ''/?.lua;'' @ dir @ ''/?/init.lua''"

definition LOG_LEVELS :: "string list" where
  "LOG_LEVELS = [''info'', ''warn'', ''debug'', ''error'']"

definition strip_os :: "lua_state \<Rightarrow> lua_state" where
  "strip_os s =
     (case lua_field s (ls_globals s) ''os'' of L_Table os \<Rightarrow> put_all os (nil_fields OS_DANGERS) s | _ \<Rightarrow> s)"

definition confine_package :: "string \<Rightarrow> lua_state \<Rightarrow> lua_state" where
  "confine_package routes_dir s =
     (case lua_field s (ls_globals s) ''package'' of
        L_Table pkg \<Rightarrow> put_all pkg (str_fields [(''cpath'', []), (''path'', package_path routes_dir)]) s
      | _ \<Rightarrow> s)"

definition sandbox :: "string \<Rightarrow> lua_state \<Rightarrow> lua_state" where
  "sandbox routes_dir s =
     (let g = ls_globals s;
          s1 = confine_package routes_dir (strip_os (put_all g (nil_fields DANGERS) s));
          (lg, s2) = create_table s1;
          s3 = put_all lg (map (\<lambda>l. (K_Str l, L_Function)) LOG_LEVELS) s2
      in lua_put g (K_Str ''log'') (L_Table lg) s3)"

subsection \<open>A new VM\<close>

text \<open>
  \<open>exec\<close> runs the chunk: it returns the table of the script and the state after it, or an error.
  \<open>vm_hooks\<close> are the names in the table \<^verbatim>\<open>__HOOKS\<close>, \<open>vm_budget\<close> the instruction
  count at which the VM interrupts a script.
\<close>

record vm =
  vm_state :: lua_state
  vm_hooks :: "string list list"
  vm_budget :: "u32 option"

definition new_vm :: "'t lua_ops \<Rightarrow> (string \<Rightarrow> lua_state \<Rightarrow> string + 't \<times> lua_state) \<Rightarrow> lua_state
    \<Rightarrow> (vm, 't) vm_loader" where
  "new_vm L exec fresh source routes_dir instr_limit k =
     (case exec source (sandbox routes_dir fresh) of
        Inl e \<Rightarrow> Inl (''load routes.lua: '' @ e)
      | Inr (cfg, s) \<Rightarrow>
          (case build_hooks L cfg of
             Inl e \<Rightarrow> Inl (''flatten hooks: '' @ e)
           | Inr hooks \<Rightarrow>
               Inr (\<lparr>vm_state = s, vm_hooks = hooks, vm_budget = (if 0 < instr_limit then Some instr_limit else None)\<rparr>,
                    cfg)))"

subsection \<open>Lemmas\<close>

lemma get_put: "lua_get (lua_put t k v s) t' k' = (if t' = t \<and> k' = k then v else lua_get s t' k')"
  by (cases v) (simp_all add: lua_get_def lua_put_def)

lemma put_frame [simp]: "ls_next (lua_put t k v s) = ls_next s" "ls_globals (lua_put t k v s) = ls_globals s"
  by (simp_all add: lua_put_def)

lemma put_all_frame [simp]:
  "ls_next (put_all t kvs s) = ls_next s" "ls_globals (put_all t kvs s) = ls_globals s"
  by (induction kvs arbitrary: s) (auto simp: put_all_def split: prod.split)

lemma get_put_all:
  "lua_get (put_all t kvs s) t' k =
     (if t' = t then (case map_of (rev kvs) k of Some v \<Rightarrow> v | None \<Rightarrow> lua_get s t k) else lua_get s t' k)"
proof (induction kvs arbitrary: s)
  case Nil
  then show ?case by (simp add: put_all_def)
next
  case (Cons kv kvs)
  obtain k0 v where kv: "kv = (k0, v)" by force
  have "put_all t (kv # kvs) s = put_all t kvs (lua_put t k0 v s)" by (simp add: put_all_def kv)
  then show ?case by (simp add: Cons.IH kv get_put map_add_def split: option.split)
qed

lemma get_create: "lua_get (snd (create_table s)) t k = (if t = ls_next s then L_Nil else lua_get s t k)"
  by (simp add: create_table_def lua_get_def)

lemma create_frame [simp]:
  "fst (create_table s) = ls_next s" "ls_next (snd (create_table s)) = ls_next s + 1"
  "ls_globals (snd (create_table s)) = ls_globals s"
  by (simp_all add: create_table_def)

lemma sub_table_globals [simp]:
  "ls_globals (snd (headers_table hs s)) = ls_globals s" "ls_globals (snd (tags_table tags s)) = ls_globals s"
  by (simp_all add: headers_table_def tags_table_def prod.case_eq_if Let_def)

lemma headers_table_eq:
  "fst (headers_table hs s) = ls_next s" "ls_next (snd (headers_table hs s)) = ls_next s + 1"
  "lua_get (snd (headers_table hs s)) t k =
     (if t = ls_next s then (case map_of (rev (str_fields hs)) k of Some v \<Rightarrow> v | None \<Rightarrow> L_Nil) else lua_get s t k)"
  by (simp_all add: headers_table_def prod.case_eq_if Let_def get_put_all get_create split: option.split)

lemma tags_table_eq:
  "fst (tags_table tags s) = ls_next s" "ls_next (snd (tags_table tags s)) = ls_next s + 1"
  "lua_get (snd (tags_table tags s)) t k =
     (if t = ls_next s
      then (case map_of (rev (map (\<lambda>(i, tg). (K_Int (int i + 1), L_String tg)) (enumerate 0 tags))) k of
          Some v \<Rightarrow> v | None \<Rightarrow> L_Nil)
      else lua_get s t k)"
  by (simp_all add: tags_table_def prod.case_eq_if Let_def get_put_all get_create split: option.split)

lemma map_of_str_fields:
  "map_of (rev (str_fields hs)) (K_Str n) = map_option L_String (map_of (rev hs) n)"
  by (induction hs) (auto simp: str_fields_def map_add_def split: option.split)

lemma map_of_tags:
  "map_of (rev (map (\<lambda>(i, tg). (K_Int (int i + 1), L_String tg)) (enumerate 0 tags))) (K_Int j) =
     (if 1 \<le> j \<and> j \<le> int (length tags) then Some (L_String (tags ! (nat j - 1))) else None)"
proof (induction tags rule: rev_induct)
  case (snoc tg tags)
  then show ?case by (auto simp: enumerate_append_eq nth_append nat_diff_distrib)
qed simp

lemma map_of_str_fields_int: "map_of (rev (str_fields hs)) (K_Int j) = None"
  by (induction hs) (auto simp: str_fields_def map_add_def)

lemma map_of_tags_str: "map_of (rev (map (\<lambda>(i, tg). (K_Int (int i + 1), L_String tg)) xs)) (K_Str n) = None"
  by (induction xs) (auto simp: map_add_def)

text \<open>The names under which a hook finds its context.\<close>

definition ctx_names :: "string set" where
  "ctx_names = {''route_name'', ''target_url'', ''host'', ''path'', ''method'', ''headers'', ''attempt'', ''proxy_url'',
     ''proxy_tags'', ''elapsed_ms''}"

subsection \<open>Properties\<close>

text \<open>
  C30: A hook sees exactly the context it is called with. In the table built for it each of the ten fields has the
  value of the context and no other key has a value; in the table of the headers a name has its last value and nothing
  else is there; the table of the tags is the sequence of the tags and nothing else; a missing proxy is nil. The three
  tables are new, and no table the script had before is touched.
\<close>

theorem ctx_table_exact:
  assumes "build_ctx_table big ctx s = (t, s')"
  shows "(\<forall>k. lua_get s' t k =
       (case k of
          K_Int j \<Rightarrow> L_Nil
        | K_Str n \<Rightarrow>
            if n = ''route_name'' then L_String (hc_route_name ctx)
            else if n = ''target_url'' then L_String (hc_target_url ctx)
            else if n = ''host'' then L_String (hc_host ctx)
            else if n = ''path'' then L_String (hc_path ctx)
            else if n = ''method'' then L_String (hc_method ctx)
            else if n = ''headers'' then L_Table (t + 1)
            else if n = ''attempt'' then L_Integer (uint (hc_attempt ctx))
            else if n = ''proxy_url'' then (case hc_proxy_url ctx of Some u \<Rightarrow> L_String u | None \<Rightarrow> L_Nil)
            else if n = ''proxy_tags'' then L_Table (t + 2)
            else if n = ''elapsed_ms'' then of_u64 big (hc_elapsed_ms ctx)
            else L_Nil))
    \<and> (\<forall>k. lua_get s' (t + 1) k =
         (case k of K_Int j \<Rightarrow> L_Nil
          | K_Str n \<Rightarrow> (case map_of (rev (hc_headers ctx)) n of Some v \<Rightarrow> L_String v | None \<Rightarrow> L_Nil)))
    \<and> (\<forall>k. lua_get s' (t + 2) k =
         (case k of K_Str n \<Rightarrow> L_Nil
          | K_Int j \<Rightarrow> if 1 \<le> j \<and> j \<le> int (length (hc_proxy_tags ctx)) then L_String (hc_proxy_tags ctx ! (nat j - 1)) else L_Nil))
    \<and> t = ls_next s \<and> ls_next s' = t + 3 \<and> ls_globals s' = ls_globals s
    \<and> (\<forall>a<ls_next s. \<forall>k. lua_get s' a k = lua_get s a k)"
proof -
  define n where "n = ls_next s"
  have t: "t = n" and s': "s' = snd (build_ctx_table big ctx s)"
    using assms by (auto simp: n_def build_ctx_table_def prod.case_eq_if Let_def)
  note steps = n_def build_ctx_table_def prod.case_eq_if Let_def get_put_all get_create headers_table_eq tags_table_eq
  have old: "\<forall>a<n. \<forall>k. lua_get s' a k = lua_get s a k" by (simp add: s' steps)
  have hs: "lua_get s' (n + 1) k = (case k of K_Int j \<Rightarrow> L_Nil
      | K_Str m \<Rightarrow> (case map_of (rev (hc_headers ctx)) m of Some v \<Rightarrow> L_String v | None \<Rightarrow> L_Nil))" for k
    by (simp add: s' steps map_of_str_fields map_of_str_fields_int split: option.split lua_key.split)
  have tags: "lua_get s' (n + 2) k = (case k of K_Str m \<Rightarrow> L_Nil
      | K_Int j \<Rightarrow> if 1 \<le> j \<and> j \<le> int (length (hc_proxy_tags ctx)) then L_String (hc_proxy_tags ctx ! (nat j - 1)) else L_Nil)" for k
    by (simp add: s' steps map_of_tags map_of_tags_str split: lua_key.split)
  have none: "lua_get s' n (K_Int j) = L_Nil" for j by (simp add: s' steps map_of_str_fields_int)
  have other: "lua_field s' n m = L_Nil" if "m \<notin> ctx_names" for m
    using that by (simp add: s' steps str_fields_def ctx_names_def)
  have fields: "lua_field s' n ''headers'' = L_Table (n + 1)" "lua_field s' n ''proxy_tags'' = L_Table (n + 2)"
    "lua_field s' n ''attempt'' = L_Integer (uint (hc_attempt ctx))"
    "lua_field s' n ''proxy_url'' = (case hc_proxy_url ctx of Some u \<Rightarrow> L_String u | None \<Rightarrow> L_Nil)"
    "lua_field s' n ''elapsed_ms'' = of_u64 big (hc_elapsed_ms ctx)"
    "lua_field s' n ''route_name'' = L_String (hc_route_name ctx)" "lua_field s' n ''target_url'' = L_String (hc_target_url ctx)"
    "lua_field s' n ''host'' = L_String (hc_host ctx)" "lua_field s' n ''path'' = L_String (hc_path ctx)"
    "lua_field s' n ''method'' = L_String (hc_method ctx)"
    by (simp_all add: s' steps str_fields_def opt_string_def)
  have ends: "ls_next s' = n + 3" "ls_globals s' = ls_globals s"
    by (simp_all add: s' steps)
  show ?thesis unfolding t
  proof (intro conjI allI)
    fix k
    show "lua_get s' n k = (case k of K_Int j \<Rightarrow> L_Nil
        | K_Str m \<Rightarrow>
            if m = ''route_name'' then L_String (hc_route_name ctx)
            else if m = ''target_url'' then L_String (hc_target_url ctx)
            else if m = ''host'' then L_String (hc_host ctx)
            else if m = ''path'' then L_String (hc_path ctx)
            else if m = ''method'' then L_String (hc_method ctx)
            else if m = ''headers'' then L_Table (n + 1)
            else if m = ''attempt'' then L_Integer (uint (hc_attempt ctx))
            else if m = ''proxy_url'' then (case hc_proxy_url ctx of Some u \<Rightarrow> L_String u | None \<Rightarrow> L_Nil)
            else if m = ''proxy_tags'' then L_Table (n + 2)
            else if m = ''elapsed_ms'' then of_u64 big (hc_elapsed_ms ctx)
            else L_Nil)"
    proof (cases k)
      case (K_Str m)
      show ?thesis
      proof (cases "m \<in> ctx_names")
        case True
        then show ?thesis unfolding K_Str ctx_names_def by (elim insertE emptyE) (simp_all add: fields)
      next
        case False
        then show ?thesis unfolding K_Str using other [OF False] by (simp add: ctx_names_def)
      qed
    qed (simp add: none)
  qed (use old hs tags ends n_def in \<open>simp_all\<close>)
qed

lemma ctx_table_exact_witness:
  "\<exists>t s'. build_ctx_table (\<lambda>_. F_NaN)
       \<lparr>hc_route_name = ''r'', hc_target_url = ''http://t/'', hc_host = ''t'', hc_path = ''/'', hc_method = ''GET'',
        hc_headers = [(''a'', ''1''), (''a'', ''2'')], hc_attempt = 1, hc_proxy_url = None, hc_proxy_tags = [''eu''],
        hc_elapsed_ms = 7\<rparr> \<lparr>ls_tables = (\<lambda>_ _. None), ls_next = 1, ls_globals = 0\<rparr> = (t, s')
     \<and> lua_field s' t ''proxy_url'' = L_Nil \<and> lua_field s' t ''proxy_password'' = L_Nil
     \<and> lua_field s' (t + 1) ''a'' = L_String ''2'' \<and> lua_get s' (t + 2) (K_Int 1) = L_String ''eu''"
proof -
  let ?ctx = "\<lparr>hc_route_name = ''r'', hc_target_url = ''http://t/'', hc_host = ''t'', hc_path = ''/'', hc_method = ''GET'',
        hc_headers = [(''a'', ''1''), (''a'', ''2'')], hc_attempt = 1, hc_proxy_url = None, hc_proxy_tags = [''eu''],
        hc_elapsed_ms = 7\<rparr>"
  obtain t s' where b: "build_ctx_table (\<lambda>_. F_NaN) ?ctx \<lparr>ls_tables = (\<lambda>_ _. None), ls_next = 1, ls_globals = 0\<rparr> = (t, s')"
    by force
  note exact = ctx_table_exact [OF b]
  have "lua_field s' t ''proxy_url'' = L_Nil" "lua_field s' t ''proxy_password'' = L_Nil"
    using conjunct1 [OF exact] by simp_all
  moreover have "lua_field s' (t + 1) ''a'' = L_String ''2''"
    using conjunct1 [OF conjunct2 [OF exact]] by simp
  moreover have "lua_get s' (t + 2) (K_Int 1) = L_String ''eu''"
    using conjunct1 [OF conjunct2 [OF conjunct2 [OF exact]]] by simp
  ultimately show ?thesis using b by blast
qed

text \<open>A state in which the tables that the sandbox looks at exist and are not one another.\<close>

definition fresh_state :: "lua_state \<Rightarrow> bool" where
  "fresh_state s =
     (let g = ls_globals s in
      g < ls_next s
      \<and> (case lua_field s g ''os'' of L_Table os \<Rightarrow> os < ls_next s \<and> os \<noteq> g | _ \<Rightarrow> True)
      \<and> (case lua_field s g ''package'' of
           L_Table p \<Rightarrow> p < ls_next s \<and> p \<noteq> g \<and> lua_field s g ''os'' \<noteq> L_Table p | _ \<Rightarrow> True))"

lemma map_of_nil_fields:
  "map_of (rev (nil_fields ks)) k = (if k \<in> K_Str ` set ks then Some L_Nil else None)"
  by (induction ks) (auto simp: nil_fields_def map_add_def split: option.split)

lemma map_of_log:
  "map_of (rev (map (\<lambda>l. (K_Str l, L_Function)) ks)) k = (if k \<in> K_Str ` set ks then Some L_Function else None)"
  by (induction ks) (auto simp: map_add_def split: option.split)

lemma strip_os_frame [simp]: "ls_next (strip_os s) = ls_next s" "ls_globals (strip_os s) = ls_globals s"
  by (simp_all add: strip_os_def split: lua_value.split)

lemma confine_package_frame [simp]:
  "ls_next (confine_package dir s) = ls_next s" "ls_globals (confine_package dir s) = ls_globals s"
  by (simp_all add: confine_package_def split: lua_value.split)

lemma get_nil_fields:
  "lua_get (put_all t (nil_fields ks) s) t' k = (if t' = t \<and> k \<in> K_Str ` set ks then L_Nil else lua_get s t' k)"
  by (simp add: get_put_all map_of_nil_fields)

lemma get_strip_os:
  "lua_get (strip_os s) t k =
     (if lua_field s (ls_globals s) ''os'' = L_Table t \<and> k \<in> K_Str ` set OS_DANGERS then L_Nil else lua_get s t k)"
  by (simp add: strip_os_def get_nil_fields split: lua_value.split)

lemma get_confine_package:
  "lua_get (confine_package dir s) t k =
     (if lua_field s (ls_globals s) ''package'' \<noteq> L_Table t then lua_get s t k
      else if k = K_Str ''path'' then L_String (package_path dir)
      else if k = K_Str ''cpath'' then L_String [] else lua_get s t k)"
  by (simp add: confine_package_def get_put_all str_fields_def split: lua_value.split)

lemma get_sandbox:
  assumes "fresh_state s"
  defines "g \<equiv> ls_globals s" and "l \<equiv> ls_next s"
  shows "lua_get (sandbox dir s) t k =
     (if t = l then (if k \<in> K_Str ` set LOG_LEVELS then L_Function else L_Nil)
      else if t = g \<and> k = K_Str ''log'' then L_Table l
      else if t = g \<and> k \<in> K_Str ` set DANGERS then L_Nil
      else if lua_field s g ''os'' = L_Table t \<and> k \<in> K_Str ` set OS_DANGERS then L_Nil
      else if lua_field s g ''package'' = L_Table t \<and> k = K_Str ''path'' then L_String (package_path dir)
      else if lua_field s g ''package'' = L_Table t \<and> k = K_Str ''cpath'' then L_String []
      else lua_get s t k)"
proof -
  have f: "g < l" "lua_field s g ''os'' \<noteq> L_Table g" "lua_field s g ''package'' \<noteq> L_Table g"
      "lua_field s g ''os'' \<noteq> L_Table t \<or> lua_field s g ''package'' \<noteq> L_Table t"
    using assms(1) by (auto simp: fresh_state_def g_def l_def Let_def)
  define s1 where "s1 = put_all g (nil_fields DANGERS) s"
  have 1: "lua_get s1 t k = (if t = g \<and> k \<in> K_Str ` set DANGERS then L_Nil else lua_get s t k)" for t k
    by (simp add: s1_def get_nil_fields)
  have g1: "ls_globals s1 = g" "ls_next s1 = l" by (simp_all add: s1_def g_def l_def)
  have os: "lua_field s1 g ''os'' = lua_field s g ''os''" by (simp add: 1 image_iff DANGERS_def)
  define s2 where "s2 = strip_os s1"
  have 2: "lua_get s2 t k = (if lua_field s g ''os'' = L_Table t \<and> k \<in> K_Str ` set OS_DANGERS then L_Nil else lua_get s1 t k)" for t k
    by (simp add: s2_def get_strip_os g1 os)
  have g2: "ls_globals s2 = g" "ls_next s2 = l" by (simp_all add: s2_def g1)
  have pkg: "lua_field s2 g ''package'' = lua_field s g ''package''" using f(2) by (simp add: 2 1 image_iff DANGERS_def)
  define s3 where "s3 = confine_package dir s2"
  have 3: "lua_get s3 t k = (if lua_field s g ''package'' \<noteq> L_Table t then lua_get s2 t k
      else if k = K_Str ''path'' then L_String (package_path dir)
      else if k = K_Str ''cpath'' then L_String [] else lua_get s2 t k)" for t k
    by (simp add: s3_def get_confine_package g2 pkg)
  have g3: "ls_next s3 = l" by (simp add: s3_def g2)
  have 4: "lua_get (sandbox dir s) t k =
      (if t = g \<and> k = K_Str ''log'' then L_Table l
       else if t = l then (if k \<in> K_Str ` set LOG_LEVELS then L_Function else L_Nil) else lua_get s3 t k)" for t k
  proof -
    have "sandbox dir s = lua_put g (K_Str ''log'') (L_Table (ls_next s3))
        (put_all (ls_next s3) (map (\<lambda>l. (K_Str l, L_Function)) LOG_LEVELS) (snd (create_table s3)))"
      by (simp add: sandbox_def prod.case_eq_if Let_def g_def s1_def s2_def s3_def)
    then show ?thesis using f(1) by (simp add: get_put get_put_all get_create map_of_log g3)
  qed
  show ?thesis
  proof (cases "t = l")
    case True
    then show ?thesis using f(1) by (simp add: 4)
  next
    case l: False
    show ?thesis
    proof (cases "lua_field s g ''package'' = L_Table t")
      case True
      then have "t \<noteq> g" "lua_field s g ''os'' \<noteq> L_Table t" using f by auto
      then show ?thesis using l True by (simp add: 4 3 2 1)
    next
      case False
      then show ?thesis using l f(2,3) by (simp add: 4 3 2 1)
    qed
  qed
qed

lemma sandbox_keys:
  "K_Str ` set DANGERS = {K_Str ''io'', K_Str ''dofile'', K_Str ''loadfile'', K_Str ''load'', K_Str ''loadstring''}"
  "K_Str ` set OS_DANGERS = {K_Str ''execute'', K_Str ''exit'', K_Str ''remove'', K_Str ''rename'', K_Str ''tmpname'',
     K_Str ''setlocale'', K_Str ''getenv''}"
  "K_Str ` set LOG_LEVELS = {K_Str ''info'', K_Str ''warn'', K_Str ''debug'', K_Str ''error''}"
  by (simp_all add: DANGERS_def OS_DANGERS_def LOG_LEVELS_def)

text \<open>
  C29: Scripts run in the sandbox only. In the state in which the script is run the globals \<^verbatim>\<open>io\<close>,
  \<^verbatim>\<open>dofile\<close>, \<^verbatim>\<open>loadfile\<close>, \<^verbatim>\<open>load\<close> and \<^verbatim>\<open>loadstring\<close> and the functions
  \<^verbatim>\<open>execute\<close>, \<^verbatim>\<open>exit\<close>, \<^verbatim>\<open>remove\<close>, \<^verbatim>\<open>rename\<close>, \<^verbatim>\<open>tmpname\<close>,
  \<^verbatim>\<open>setlocale\<close> and \<^verbatim>\<open>getenv\<close> of \<^verbatim>\<open>os\<close> are nil, the search path is the directory
  of the routes and the one for C modules is empty, \<^verbatim>\<open>log\<close> is a new table with four functions, and every key of
  every other table, and every other key of these, is as it was. A VM that is loaded is the state that running the script
  there left.
\<close>

theorem scripts_run_sandboxed:
  assumes "fresh_state s"
  shows "(\<forall>t k. lua_get (sandbox dir s) t k =
     (if t = ls_next s
      then (if k \<in> {K_Str ''info'', K_Str ''warn'', K_Str ''debug'', K_Str ''error''} then L_Function else L_Nil)
      else if t = ls_globals s \<and> k = K_Str ''log'' then L_Table (ls_next s)
      else if t = ls_globals s
        \<and> k \<in> {K_Str ''io'', K_Str ''dofile'', K_Str ''loadfile'', K_Str ''load'', K_Str ''loadstring''} then L_Nil
      else if lua_field s (ls_globals s) ''os'' = L_Table t
        \<and> k \<in> {K_Str ''execute'', K_Str ''exit'', K_Str ''remove'', K_Str ''rename'', K_Str ''tmpname'',
               K_Str ''setlocale'', K_Str ''getenv''} then L_Nil
      else if lua_field s (ls_globals s) ''package'' = L_Table t \<and> k = K_Str ''path''
        then L_String (dir @ ''/?.lua;'' @ dir @ ''/?/init.lua'')
      else if lua_field s (ls_globals s) ''package'' = L_Table t \<and> k = K_Str ''cpath'' then L_String []
      else lua_get s t k))
    \<and> ls_globals (sandbox dir s) = ls_globals s
    \<and> (\<forall>vm cfg. new_vm L exec s source dir limit i = Inr (vm, cfg) \<longrightarrow> exec source (sandbox dir s) = Inr (cfg, vm_state vm))"
proof (intro conjI allI impI)
  show "lua_get (sandbox dir s) t k =
     (if t = ls_next s
      then (if k \<in> {K_Str ''info'', K_Str ''warn'', K_Str ''debug'', K_Str ''error''} then L_Function else L_Nil)
      else if t = ls_globals s \<and> k = K_Str ''log'' then L_Table (ls_next s)
      else if t = ls_globals s
        \<and> k \<in> {K_Str ''io'', K_Str ''dofile'', K_Str ''loadfile'', K_Str ''load'', K_Str ''loadstring''} then L_Nil
      else if lua_field s (ls_globals s) ''os'' = L_Table t
        \<and> k \<in> {K_Str ''execute'', K_Str ''exit'', K_Str ''remove'', K_Str ''rename'', K_Str ''tmpname'',
               K_Str ''setlocale'', K_Str ''getenv''} then L_Nil
      else if lua_field s (ls_globals s) ''package'' = L_Table t \<and> k = K_Str ''path''
        then L_String (dir @ ''/?.lua;'' @ dir @ ''/?/init.lua'')
      else if lua_field s (ls_globals s) ''package'' = L_Table t \<and> k = K_Str ''cpath'' then L_String []
      else lua_get s t k)" for t k
    unfolding get_sandbox [OF assms] sandbox_keys package_path_def by (rule refl)
  show "ls_globals (sandbox dir s) = ls_globals s" by (simp add: sandbox_def prod.case_eq_if Let_def)
  show "exec source (sandbox dir s) = Inr (cfg, vm_state vm)"
    if "new_vm L exec s source dir limit i = Inr (vm, cfg)" for vm cfg
    using that by (auto simp: new_vm_def split: sum.splits)
qed

text \<open>A state like that of a new interpreter: globals 0, \<^verbatim>\<open>os\<close> 1, \<^verbatim>\<open>package\<close> 2, \<^verbatim>\<open>package.loaded\<close> 3, \<^verbatim>\<open>io\<close> 4.\<close>

definition sample_lua_tables :: "lua_ref \<Rightarrow> lua_key \<rightharpoonup> lua_ref lua_value" where
  "sample_lua_tables t =
     (if t = 0 then [K_Str ''os'' \<mapsto> L_Table 1, K_Str ''package'' \<mapsto> L_Table 2, K_Str ''io'' \<mapsto> L_Table 4,
        K_Str ''load'' \<mapsto> L_Function, K_Str ''print'' \<mapsto> L_Function]
      else if t = 1 then [K_Str ''execute'' \<mapsto> L_Function, K_Str ''time'' \<mapsto> L_Function]
      else if t = 2 then [K_Str ''path'' \<mapsto> L_String ''./?.lua'', K_Str ''loaded'' \<mapsto> L_Table 3]
      else if t = 3 then [K_Str ''io'' \<mapsto> L_Table 4]
      else if t = 4 then [K_Str ''open'' \<mapsto> L_Function] else (\<lambda>_. None))"

definition sample_lua_state :: lua_state where
  "sample_lua_state = \<lparr>ls_tables = sample_lua_tables, ls_next = 5, ls_globals = 0\<rparr>"

lemma sample_lua_fields:
  "ls_globals sample_lua_state = 0" "ls_next sample_lua_state = 5"
  "lua_field sample_lua_state 0 ''os'' = L_Table 1" "lua_field sample_lua_state 0 ''package'' = L_Table 2"
  "lua_field sample_lua_state 0 ''print'' = L_Function" "lua_field sample_lua_state 0 ''load'' = L_Function"
  "lua_field sample_lua_state 2 ''loaded'' = L_Table 3" "lua_field sample_lua_state 3 ''io'' = L_Table 4"
  by (simp_all add: sample_lua_state_def sample_lua_tables_def lua_get_def)

lemma fresh_sample_lua_state: "fresh_state sample_lua_state"
  by (simp add: fresh_state_def sample_lua_fields)

lemma scripts_run_sandboxed_witness:
  "lua_field sample_lua_state 0 ''load'' = L_Function
   \<and> lua_field (sandbox ''/etc'' sample_lua_state) 0 ''load'' = L_Nil
   \<and> lua_field (sandbox ''/etc'' sample_lua_state) 1 ''execute'' = L_Nil
   \<and> lua_field (sandbox ''/etc'' sample_lua_state) 0 ''print'' = L_Function"
proof -
  note box = conjunct1 [OF scripts_run_sandboxed [OF fresh_sample_lua_state, of "''/etc''"], rule_format]
  show ?thesis
    unfolding box [of 0 "K_Str ''load''"] box [of 1 "K_Str ''execute''"] box [of 0 "K_Str ''print''"]
    by (simp add: sample_lua_fields)
qed

text \<open>
  The sandbox does not look into \<^verbatim>\<open>package.loaded\<close>, where the interpreter keeps the modules that
  \<^verbatim>\<open>require\<close> returns: the \<^verbatim>\<open>io\<close> module is still there.
\<close>

lemma loaded_io_survives:
  assumes "fresh_state s" and "lua_field s (ls_globals s) ''package'' = L_Table p" and "lua_field s p ''loaded'' = L_Table ld"
    and "ld < ls_next s" and "ld \<noteq> ls_globals s" and "ld \<noteq> p" and "lua_field s (ls_globals s) ''os'' \<noteq> L_Table ld"
  shows "lua_field (sandbox dir s) (ls_globals s) ''package'' = L_Table p \<and> lua_field (sandbox dir s) p ''loaded'' = L_Table ld
    \<and> lua_field (sandbox dir s) ld ''io'' = lua_field s ld ''io''"
proof -
  have "p < ls_next s" "p \<noteq> ls_globals s" "lua_field s (ls_globals s) ''os'' \<noteq> L_Table p"
    "ls_globals s < ls_next s" "lua_field s (ls_globals s) ''os'' \<noteq> L_Table (ls_globals s)"
    using assms(1,2) by (auto simp: fresh_state_def Let_def)
  then show ?thesis using assms(2-7) by (simp add: get_sandbox [OF assms(1)] image_iff DANGERS_def)
qed

lemma loaded_io_survives_witness:
  "lua_field (sandbox dir sample_lua_state) 3 ''io'' = L_Table 4"
  using loaded_io_survives [OF fresh_sample_lua_state, of 2 3 dir] by (simp add: sample_lua_fields)

end
