(* ===== verification/Spec2Isabelle.thy ===== *)
theory Spec2Isabelle
  imports Frontend LuaState
begin

text \<open>
  A model of Proxy-Systems, four HTTP proxy servers in Rust, with the properties that make them correct.

  \<^bold>\<open>The program.\<close> A client names the URL it wants in a header \<open>X-Target\<close> (base64) and a server
  fetches it. \<^verbatim>\<open>simple-proxy\<close> fetches it directly, under a shared token.
  \<^verbatim>\<open>simple-ipv6-proxy\<close> fetches it from a random source address of an IPv6 subnet and refuses internal
  targets. \<^verbatim>\<open>tor-proxy\<close> fetches it through one of several Tor nodes and goes on to the next one on a
  failure. \<^verbatim>\<open>intermediate-proxy\<close> is the large one: it reads a list of upstream proxies and a
  Lua script of routes, matches a request to a route, orders the proxies by their health on that route, tries them one
  after the other or hedged, records the outcome, relays the answer and resumes a broken transfer through another
  proxy; in the background two watchers reload the files and two probers test proxies that are out of service.
  \<^verbatim>\<open>proxy-common\<close> is shared by all four.

  \<^bold>\<open>The foundation.\<close> \<open>Prelude\<close>: machine integers as words (\<open>u8\<close> to \<open>u64\<close>,
  a \<open>usize\<close> has 64 bits), saturating operations, stable sorting, rotations, swaps, folds.
  \<open>RustStr\<close>: the operations of \<open>str\<close> on UTF-8 bytes (trim, split, find, parsing and printing of
  numbers). \<open>Utf8\<close>: validity and lossy decoding. \<open>NetAddr\<close>: \<^verbatim>\<open>std::net\<close> addresses and
  their parser. \<open>Http\<close>: header maps through \<open>header_ops\<close> with the laws \<open>header_laws\<close>.
  \<open>LuaValue\<close>: values of the script interpreter. \<open>Incoming\<close>: a request as the web framework hands it
  to a handler. These stand for the standard library and the interfaces of libraries; the theories below stand for code.

  \<^bold>\<open>The shared crate.\<close> \<open>ProxyCommon\<close>: \<^verbatim>\<open>proxy-common/src\<close>, the header filters,
  CORS headers, plain responses, \<open>decode_target\<close>, the port setting.

  \<^bold>\<open>intermediate-proxy/src.\<close> In the order of a request's way through the code:
    \<^item> \<open>Util\<close> (\<^verbatim>\<open>util.rs\<close>), \<open>Upstream\<close> (\<^verbatim>\<open>upstream/mod.rs\<close>) and
      \<open>Entry\<close> (\<^verbatim>\<open>proxy/entry.rs\<close>): the record \<open>entry\<close> is \<open>ProxyEntry\<close>, its
      \<open>en_routes\<close> the map from route ids to \<open>route_state\<close>.
    \<^item> \<open>Loader\<close> (\<^verbatim>\<open>proxy/loader.rs\<close>) and \<open>Pool\<close> (\<^verbatim>\<open>proxy/mod.rs\<close>,
      \<^verbatim>\<open>proxy/watcher.rs\<close>): the proxies file, the pool and its hot reload. Entries are shared objects,
      so they live in a \<open>heap\<close> and the pool holds their addresses; \<open>pool_ok\<close> is its invariant.
    \<^item> \<open>Matcher\<close>, \<open>RouteDef\<close>, \<open>RouteConfig\<close> (\<^verbatim>\<open>route/matcher.rs\<close>,
      \<^verbatim>\<open>route/config.rs\<close>): what a route is, how a request is matched, how the table the script returns
      is read; \<open>route_wf\<close> is what a parsed route satisfies.
    \<^item> \<open>LuaApi\<close> and \<open>LuaPool\<close> (\<^verbatim>\<open>lua/api.rs\<close>, \<^verbatim>\<open>lua/mod.rs\<close>,
      \<^verbatim>\<open>route/mod.rs\<close>): the hooks, what their answers mean, the ring of VMs, the reload of the script,
      \<open>select_route\<close>. \<open>LuaState\<close>: the sandbox, the loading of a VM and the tables handed to hooks, on a
      store of Lua tables.
    \<^item> \<open>Tier\<close> (\<^verbatim>\<open>route/state.rs\<close>): the five tiers of health, the five selectors,
      \<open>build_plan\<close> and \<open>fallback_pool\<close>.
    \<^item> \<open>Forward\<close> (\<^verbatim>\<open>forward.rs\<close>, \<^verbatim>\<open>upstream/endpoint.rs\<close>,
      \<^verbatim>\<open>upstream/http_proxy.rs\<close>, \<^verbatim>\<open>upstream/socks.rs\<close>): the request that leaves for
      an upstream, the probe request, the classes of errors.
    \<^item> \<open>World\<close>, \<open>Attempt\<close>, \<open>Dispatch\<close> (\<^verbatim>\<open>dispatch/mod.rs\<close>) and
      \<open>Stream\<close> (\<^verbatim>\<open>stream.rs\<close>): the state a request is served in, one attempt,
      \<open>run\<close> with its rounds and its last resort, and the task that pumps the body to the client.
    \<^item> \<open>Dns\<close>, \<open>Handler\<close>, \<open>Health\<close>, \<open>Prober\<close>, \<open>Server\<close>
      (\<^verbatim>\<open>dns.rs\<close>, \<^verbatim>\<open>handler.rs\<close>, \<^verbatim>\<open>health.rs\<close>,
      \<^verbatim>\<open>route/prober.rs\<close>, \<^verbatim>\<open>main.rs\<close>): the host check, the two entrances, the
      views, the probers, and the server with everything running at once (\<open>sys_step\<close>). \<open>Guarantee\<close>
      shows that each of these tasks only takes such steps. \<open>Listen\<close> (\<^verbatim>\<open>main.rs\<close>,
      \<^verbatim>\<open>tls.rs\<close>, \<^verbatim>\<open>proxy-common/src/server.rs\<close>): \<^verbatim>\<open>main\<close> from the
      environment to the listeners, with TLS or without.

  \<^bold>\<open>The other servers.\<close> \<open>SimpleProxy\<close>. \<open>IpFilter\<close>, \<open>Subnet\<close>,
  \<open>Neighbor\<close>, \<open>Ipv6Proxy\<close>: the SSRF filter, the source subnet, the priming of the neighbour table,
  and the handler over them. \<open>Tcp\<close>, \<open>TorPool\<close>, \<open>TorProxy\<close>: SOCKS5 and the control
  protocol on byte streams, the pool of nodes with its cool-downs and rotations, and the handler.

  \<^bold>\<open>The outside.\<close> \<open>Frontend\<close>: the table of paths and the CORS layer of each of the four
  servers around its handlers (\<open>intermediate_app\<close>, \<open>simple_app\<close>, \<open>v6_app\<close>, \<open>tor_app\<close>),
  and the main functions of the three smaller ones.

  \<^bold>\<open>Conventions.\<close> Third-party code is a parameter: the regex engine, header maps, URL and base64
  functions (\<open>libs\<close>), the script (\<open>script\<close>, whose calls may change the outside), the HTTP clients,
  the resolver, the operating system (\<open>env\<close>, \<open>v6_env\<close>, \<open>tor_env\<close>, \<open>sp_env\<close>,
  \<open>sockets\<close>), the web framework (\<open>framework\<close>, whose rules for paths are \<open>router_laws\<close>).
  A law of such code that a theorem needs is a hypothesis of it, and its witness instantiates the parameter. Clock
  readings, random numbers and hash values are arguments. Code between two awaits is one step; an await of the
  intermediate proxy may return any world at all, so what other tasks do meanwhile is covered. That granularity hides
  two things: a reload stores the list of entries and the index by URL (\<open>pool_reload\<close>), or the configuration and the
  VMs (\<open>lua_reload\<close>), one right after the other, and a task on another thread can see the first store without the
  second; here the two are one step. Errors are values of sum
  types, and \<open>panic\<close> is a value too, since the release profile aborts on a panic. Arithmetic wraps, as in
  the release profile.

  \<^bold>\<open>Loops, schedules, termination.\<close> Loops are structural recursions or have a measure, with two
  exceptions. A hedged dispatch is driven by a schedule of completions and timers, because the order in which attempts
  in flight finish is not the program's. Each turn of its loop (\<open>hedge_turn\<close>) begins with an await; an attempt is
  run as a whole where it completes, and what attempts record while they are in flight, those that are dropped in the
  end among them, belongs to the worlds that these awaits return. \<open>run\<close> takes a schedule for each round and answers \<open>None\<close>
  when a schedule is too short. \<open>hedge_finishes\<close> and \<open>run_answers\<close> show that as many completions as
  the plan can be long are enough, so nothing rests on a schedule that never ends. The streaming task
  \<open>pump\<close> is a \<open>partial_function\<close>, as it can run forever when the pool keeps gaining proxies;
  \<open>stream_pump_returns\<close> shows that it ends when the URLs come from a finite set.

  \<^bold>\<open>What the lemmas show.\<close> \<^emph>\<open>State\<close>: the invariant of the whole server over all
  interleavings (\<open>server_stays_consistent\<close>) and that the tasks of the code take no other steps
  (\<open>tasks_refine_server\<close>); the invariants of the pool under reload, of the probers' permits, of the Tor
  pool, of a hedged dispatch; a reload of the script is all or nothing. \<^emph>\<open>Choice\<close>: a plan is the eligible
  proxies in the selector's order, cut to \<open>max_attempts\<close>; the last-resort pool; round robin; the first accepting route. \<^emph>\<open>Requests\<close>: every request is
  answered by the endpoint of its path (\<open>endpoints_by_path\<close>), by steps of the server only, if awaits return and
  hedged attempts complete (\<open>http_interface_total\<close>); a sequential dispatch attempts the plan in order; a recovered stream delivers a prefix of the resource;
  the Tor failover; the retry policy of the IPv6 proxy; the latency average stays between the samples. \<^emph>\<open>Safety\<close>: no internal address is connected
  to and every source lies in the subnet; the token guards the simple proxy; no password in log lines; what a script
  can reach in the sandbox and what its hooks see; which headers
  leave; a host is only turned away on a valid answer. \<^emph>\<open>Codecs\<close>: SOCKS5, UTF-8, the proxies file,
  \<open>TOR_NODES\<close>, redirect links (which break on a base64 form that ends in a slash), the regex of a glob against a reference matcher on
  the glob.

  The interfaces are locales, each interpreted on the model's own definitions: \<open>proxy_registry\<close> (a pool that
  finds what it holds, \<open>Pool\<close>), \<open>selector_order\<close> (an order that only permutes, \<open>Tier\<close>),
  \<open>permit_loop\<close> (a semaphore, for both probers), \<open>forgetful_cache\<close> (\<open>Dns\<close>),
  \<open>world_moves\<close> (what a task may do to the shared state, \<open>Guarantee\<close>).

  \<^bold>\<open>Not modelled.\<close> The Lua interpreter (a hook is any function of its arguments and the script's state);
  the inside of TLS and of the ACME state machine, whose events are only logged; the inside of the web framework, of the
  HTTP clients and of the resolver; what is logged, apart from the masking of credentials; \<open>report\<close> of
  \<^verbatim>\<open>nonlocal_bind.rs\<close>, which only logs; that a response to HEAD goes out without its body; the
  repository's own tests.
\<close>

end
